(* ===== verification/Prelude.thy ===== *)
theory Prelude
  imports Main "HOL-Library.Word" "HOL-Library.Char_ord" "HOL-Library.Sublist"
begin

text \<open>
  Shared vocabulary of the development: the types of Go values the model uses, Go errors as
  values (sentinels, wrapping, the errors.Is test), and the generic lemmas and theorem
  collections the component theories draw on.

  Go strings and byte slices are sequences of bytes; both are lists of \<^typ>\<open>char\<close> here (a
  \<^typ>\<open>char\<close> of HOL is one byte), so a conversion between them is the identity. Instants are
  nanoseconds since the Unix epoch and durations are nanoseconds, both as \<^typ>\<open>int\<close>: the
  program only adds a preset duration of at most one year to the current time.
\<close>

unbundle bit_operations_syntax

section \<open>Types and collections\<close>

type_synonym bytes = "char list"
type_synonym instant = int
type_synonym duration = int

named_theorems frame
  \<open>what an operation leaves unchanged\<close>

definition second :: duration where
  "second = 1000000000"

definition minute :: duration where
  "minute = 60 * second"

definition hour :: duration where
  "hour = 60 * minute"

lemmas time_units = second_def minute_def hour_def

text \<open>
  The method Unix of a Go time rounds down to whole seconds, time.Unix(s, 0) is the instant of
  second s, and After is the strict order. All three act on wall-clock readings.
\<close>

definition unix :: "instant \<Rightarrow> int" where
  "unix t = t div second"

definition time_Unix :: "int \<Rightarrow> instant" where
  "time_Unix s = s * second"

definition time_After :: "instant \<Rightarrow> instant \<Rightarrow> bool" where
  "time_After t u \<longleftrightarrow> u < t"

lemma second_pos [simp]: "0 < second"
  by (simp add: second_def)

lemma unix_time_Unix [simp]: "unix (time_Unix s) = s"
  by (simp add: unix_def time_Unix_def second_def)

lemma time_Unix_unix_le: "time_Unix (unix t) \<le> t"
  using div_mult_mod_eq [of t second] pos_mod_sign [OF second_pos, of t]
  unfolding unix_def time_Unix_def by linarith

lemma time_Unix_unix_gt: "t - second < time_Unix (unix t)"
  using div_mult_mod_eq [of t second] pos_mod_bound [OF second_pos, of t]
  unfolding unix_def time_Unix_def by linarith

lemma unix_mono: "t \<le> u \<Longrightarrow> unix t \<le> unix u"
  by (simp add: unix_def zdiv_mono1)

lemma unix_less_time_Unix: "s < unix t \<Longrightarrow> time_Unix s < t"
proof -
  assume "s < unix t"
  then have "time_Unix s < time_Unix (unix t)"
    by (simp add: time_Unix_def)
  also have "\<dots> \<le> t" by (rule time_Unix_unix_le)
  finally show ?thesis .
qed

section \<open>Errors as values\<close>

text \<open>
  The package-level error variables of the program (and the two of the standard library it
  compares with) are distinct pointers: one constructor each. fmt.Errorf with the verb for
  wrapping is \<open>Wrap\<close>, carrying the literal text in front of the wrapped error. An error
  made by code below the program (operating system, SQLite, the random source, bcrypt) is
  \<open>External\<close>. A panic is the value \<open>Panic\<close>; no code of the program compares with it.
\<close>

datatype sentinel =
    Slug_ErrInvalidLength
  | File_ErrInvalidExpiry | File_ErrEmptySlug | File_ErrNotFound | File_ErrExpired
  | File_ErrAlreadyConsumed | File_ErrWrongPassword | File_ErrBadDeleteSecret
  | Paste_ErrInvalidExpiry | Paste_ErrEmptyContent | Paste_ErrEmptySlug | Paste_ErrNotFound
  | Paste_ErrExpired | Paste_ErrAlreadyConsumed | Paste_ErrWrongPassword
  | Paste_ErrBadDeleteSecret
  | Bucket_ErrInvalidExpiry | Bucket_ErrEmptySlug | Bucket_ErrNotFound | Bucket_ErrExpired
  | Bucket_ErrAlreadyConsumed | Bucket_ErrWrongPassword | Bucket_ErrBadDeleteSecret
  | Os_ErrNotExist | Sql_ErrNoRows

datatype error =
    Sentinel sentinel
  | Wrap string error
  | External string
  | Panic string

fun errors_Is :: "error \<Rightarrow> sentinel \<Rightarrow> bool" where
  "errors_Is (Sentinel s) t = (s = t)"
| "errors_Is (Wrap m e) t = errors_Is e t"
| "errors_Is (External m) t = False"
| "errors_Is (Panic m) t = False"

fun panics :: "error \<Rightarrow> bool" where
  "panics (Wrap m e) = panics e"
| "panics (Panic m) = True"
| "panics (Sentinel s) = False"
| "panics (External m) = False"

type_synonym 'a result = "error + 'a"

lemma errors_Is_unique: "errors_Is e s \<Longrightarrow> errors_Is e t \<longleftrightarrow> s = t"
  by (induction e) auto

lemma errors_Is_no_panic: "errors_Is e s \<Longrightarrow> \<not> panics e"
  by (induction e) auto

text \<open>
  Errors that come from below the domain packages: no panic, and equal to no sentinel of a
  domain package under errors.Is.
\<close>

definition low_error :: "error \<Rightarrow> bool" where
  "low_error e \<longleftrightarrow> \<not> panics e \<and>
     (\<forall>s. errors_Is e s \<longrightarrow> s = Slug_ErrInvalidLength \<or> s = Os_ErrNotExist \<or> s = Sql_ErrNoRows)"

lemma low_error_simps [simp]:
  "low_error (External m)" "low_error (Wrap m e) = low_error e" "\<not> low_error (Panic m)"
  "low_error (Sentinel s) \<longleftrightarrow> s = Slug_ErrInvalidLength \<or> s = Os_ErrNotExist \<or> s = Sql_ErrNoRows"
  by (auto simp: low_error_def)

section \<open>Comparing secrets\<close>

text \<open>subtle.ConstantTimeCompare: 1 for equal contents, 0 otherwise (also for unequal lengths).\<close>

definition ConstantTimeCompare :: "bytes \<Rightarrow> bytes \<Rightarrow> int" where
  "ConstantTimeCompare x y =
     (if length x \<noteq> length y then 0
      else if list_all2 (\<lambda>a b. a = b) x y then 1 else 0)"

lemma ConstantTimeCompare_eq_1 [simp]: "ConstantTimeCompare x y = 1 \<longleftrightarrow> x = y"
  by (auto simp: ConstantTimeCompare_def list.rel_eq)

section \<open>Generic facts about lists\<close>

lemma find_Some_iff_distinct:
  assumes "distinct (map key rows)"
  shows "List.find (\<lambda>r. key r = k) rows = Some r \<longleftrightarrow> r \<in> set rows \<and> key r = k"
  using assms by (induction rows) (auto simp: rev_image_eqI)

lemma find_None_iff_key: "List.find (\<lambda>r. key r = k) rows = None \<longleftrightarrow> k \<notin> key ` set rows"
  by (induction rows) auto

lemma find_append: "List.find P (xs @ ys) = (case List.find P xs of None \<Rightarrow> List.find P ys | Some x \<Rightarrow> Some x)"
  by (induction xs) auto

lemma distinct_map_filter_key: "distinct (map key rows) \<Longrightarrow> distinct (map key (filter P rows))"
  by (induction rows) auto

lemma map_of_rev_zip:
  assumes "distinct ks" and "length ks = length vs" and "i < length ks"
  shows "map_of (rev (zip ks vs)) (ks ! i) = Some (vs ! i)"
proof (rule map_of_is_SomeI)
  show "distinct (map fst (rev (zip ks vs)))" using assms(1,2) by (simp flip: rev_map)
  show "(ks ! i, vs ! i) \<in> set (rev (zip ks vs))" using assms(2,3) by (auto simp: set_zip)
qed

lemma restrict_add_dom: "dom n \<subseteq> K \<Longrightarrow> (m ++ n) |` (- K) = m |` (- K)"
  by (auto simp: fun_eq_iff restrict_map_def map_add_def split: option.splits)

end
