(* ===== verification/Slug.thy ===== *)
theory Slug
  imports Prelude
begin

text \<open>
  Package internal/slug: random URL-safe identifiers.

  The cryptographic random source is the list of bytes it will still deliver; a read from an
  exhausted source is an error. rand.Int(rand.Reader, charsetLen) is the standard library's
  rejection sampling: 55, the greatest value, has six bits, so it reads one byte at a time,
  keeps the six low bits and retries while the value is not below 56.
\<close>

section \<open>The code\<close>

definition charset :: string where
  "charset = ''abcdefghijkmnpqrstuvwxyzABCDEFGHJKLMNPQRSTUVWXYZ23456789''"

definition charsetLen :: nat where
  "charsetLen = length charset"

fun rand_Int :: "8 word list \<Rightarrow> nat result \<times> 8 word list" where
  "rand_Int [] = (Inl (External ''rand.Int''), [])"
| "rand_Int (b # bs) =
     (let v = unat (b AND 63) in if v < charsetLen then (Inr v, bs) else rand_Int bs)"

fun slug_loop :: "nat \<Rightarrow> 8 word list \<Rightarrow> string result \<times> 8 word list" where
  "slug_loop 0 bs = (Inr [], bs)"
| "slug_loop (Suc n) bs =
     (case rand_Int bs of
        (Inl e, bs1) \<Rightarrow> (Inl e, bs1)
      | (Inr i, bs1) \<Rightarrow>
          (case slug_loop n bs1 of
             (Inl e, bs2) \<Rightarrow> (Inl e, bs2)
           | (Inr s, bs2) \<Rightarrow> (Inr (charset ! i # s), bs2)))"

definition slug_New :: "int \<Rightarrow> 8 word list \<Rightarrow> string result \<times> 8 word list" where
  "slug_New n bs =
     (if n \<le> 0 then (Inl (Sentinel Slug_ErrInvalidLength), bs) else slug_loop (nat n) bs)"

definition slug_MustNew :: "int \<Rightarrow> 8 word list \<Rightarrow> string result \<times> 8 word list" where
  "slug_MustNew n bs =
     (case slug_New n bs of
        (Inl e, bs1) \<Rightarrow> (Inl (Panic ''slug.MustNew''), bs1)
      | (Inr s, bs1) \<Rightarrow> (Inr s, bs1))"

section \<open>The alphabet\<close>

text \<open>The class [a-zA-Z0-9], which the file store requires of every key.\<close>

definition alnum :: "char \<Rightarrow> bool" where
  "alnum c \<longleftrightarrow> (CHR ''a'' \<le> c \<and> c \<le> CHR ''z'') \<or> (CHR ''A'' \<le> c \<and> c \<le> CHR ''Z'') \<or>
     (CHR ''0'' \<le> c \<and> c \<le> CHR ''9'')"

lemma charsetLen_eq [simp]: "charsetLen = 56"
  by (simp add: charsetLen_def charset_def)

lemma length_charset [simp]: "length charset = 56"
  using charsetLen_eq unfolding charsetLen_def .

lemma distinct_charset: "distinct charset"
  by (simp add: charset_def)

lemma charset_alnum: "c \<in> set charset \<Longrightarrow> alnum c"
  unfolding charset_def by (auto simp: alnum_def)

lemma charset_unambiguous: "set charset \<inter> set ''0O1lI'' = {}"
  by (simp add: charset_def)

section \<open>What New returns\<close>

lemma rand_Int_bound: "rand_Int bs = (Inr i, bs') \<Longrightarrow> i < charsetLen"
  by (induction bs) (auto simp: Let_def split: if_splits)

lemma rand_Int_no_panic: "rand_Int bs = (Inl e, bs') \<Longrightarrow> e = External ''rand.Int'' \<and> bs' = []"
  by (induction bs) (auto simp: Let_def split: if_splits)

lemma slug_loop_ok:
  "slug_loop n bs = (Inr s, bs') \<Longrightarrow> length s = n \<and> set s \<subseteq> set charset"
proof (induction n arbitrary: bs s bs')
  case 0
  then show ?case by simp
next
  case (Suc n)
  from Suc.prems obtain i bs1 t where i: "rand_Int bs = (Inr i, bs1)"
    and t: "slug_loop n bs1 = (Inr t, bs')" and s: "s = charset ! i # t"
    by (auto split: prod.splits sum.splits)
  from rand_Int_bound [OF i] have "charset ! i \<in> set charset" by simp
  with Suc.IH [OF t] s show ?case by simp
qed

lemma slug_loop_err: "slug_loop n bs = (Inl e, bs') \<Longrightarrow> e = External ''rand.Int''"
  by (induction n arbitrary: bs bs') (auto split: prod.splits sum.splits dest: rand_Int_no_panic)

lemma slug_New_length: "slug_New n bs = (Inr s, bs') \<Longrightarrow> int (length s) = n \<and> 0 < n"
  by (auto simp: slug_New_def split: if_splits dest: slug_loop_ok)

lemma slug_New_charset: "slug_New n bs = (Inr s, bs') \<Longrightarrow> set s \<subseteq> set charset"
  by (auto simp: slug_New_def split: if_splits dest: slug_loop_ok)

lemma slug_New_alnum: "slug_New n bs = (Inr s, bs') \<Longrightarrow> list_all alnum s"
  using slug_New_charset charset_alnum by (fastforce simp: list_all_iff)

lemma slug_New_nonempty: "slug_New n bs = (Inr s, bs') \<Longrightarrow> s \<noteq> []"
  using slug_New_length by fastforce

lemma slug_New_low_error: "slug_New n bs = (Inl e, bs') \<Longrightarrow> low_error e"
  by (auto simp: slug_New_def split: if_splits dest: slug_loop_err)

section \<open>Uniformity\<close>

text \<open>
  Every index below 56 is the outcome of exactly four byte values, so an accepted byte selects
  each character with the same weight (no modulo bias).
\<close>

definition accepts :: "nat \<Rightarrow> 8 word \<Rightarrow> bool" where
  "accepts i b \<longleftrightarrow> rand_Int [b] = (Inr i, [])"

lemma accepts_iff: "accepts i b \<longleftrightarrow> unat (b AND 63) = i \<and> i < 56"
  by (auto simp: accepts_def Let_def)

lemma and_63_mod: "unat (b AND 63) = unat b mod 64" for b :: "8 word"
proof -
  have "b AND 63 = take_bit 6 b"
    by (simp add: take_bit_eq_mask mask_eq_exp_minus_1)
  then have "unat (b AND 63) = take_bit 6 (unat b)"
    by (simp only: unsigned_take_bit_eq)
  then show ?thesis by (simp add: take_bit_eq_mod)
qed

lemma accepting_bytes:
  assumes "i < 56"
  shows "{b. accepts i b} = (\<lambda>k. of_nat (i + 64 * k)) ` {..<4 :: nat}"
proof (intro equalityI subsetI)
  fix b assume "b \<in> {b. accepts i b}"
  then have m: "unat b mod 64 = i" by (simp add: accepts_iff and_63_mod)
  have "unat b < 256" using unsigned_less [of b] by simp
  then have "unat b div 64 < 4" by auto
  moreover have "b = of_nat (i + 64 * (unat b div 64))"
    using m mod_mult_div_eq [of "unat b" 64] by simp
  ultimately show "b \<in> (\<lambda>k. of_nat (i + 64 * k)) ` {..<4 :: nat}" by blast
next
  fix b :: "8 word" assume "b \<in> (\<lambda>k. of_nat (i + 64 * k)) ` {..<4 :: nat}"
  then obtain k :: nat where k: "k < 4" and b: "b = of_nat (i + 64 * k)" by blast
  have "i + 64 * k < 256" using assms k by linarith
  then have "unat b = i + 64 * k" by (simp add: b unat_of_nat del: of_nat_add of_nat_mult)
  then show "b \<in> {b. accepts i b}" using assms by (simp add: accepts_iff and_63_mod)
qed

lemma card_accepting_bytes:
  assumes "i < 56"
  shows "card {b. accepts i b} = 4"
proof -
  have "inj_on (\<lambda>k. of_nat (i + 64 * k) :: 8 word) {..<4 :: nat}"
  proof (rule inj_onI)
    fix j k :: nat assume jk: "j \<in> {..<4}" "k \<in> {..<4}"
      and eq: "of_nat (i + 64 * j) = (of_nat (i + 64 * k) :: 8 word)"
    have "(i + 64 * j) mod 256 = (i + 64 * k) mod 256"
      using arg_cong [OF eq, of unat] unfolding unat_of_nat by simp
    moreover have "i + 64 * j < 256" "i + 64 * k < 256"
      using jk assms by simp_all
    ultimately show "j = k" by simp
  qed
  then show ?thesis
    using assms by (simp only: accepting_bytes card_image) simp
qed

lemma rejected_bytes: "card {b :: 8 word. \<exists>r. rand_Int [b] = (Inl r, [])} = 32"
proof -
  have "{b :: 8 word. \<exists>r. rand_Int [b] = (Inl r, [])} = - (\<Union>i<56. {b. accepts i b})"
    by (auto simp: Let_def accepts_def)
  moreover have "card (\<Union>i<56. {b. accepts i b}) = (\<Sum>i<56. card {b. accepts i b})"
    by (rule card_UN_disjoint) (auto simp: accepts_iff)
  moreover have "(\<Sum>i<56. card {b. accepts i b}) = 224"
    by (simp add: card_accepting_bytes)
  moreover have "card (UNIV :: 8 word set) = 256"
    by (simp add: card_word)
  ultimately show ?thesis
    by (simp add: Compl_eq_Diff_UNIV card_Diff_subset)
qed

text \<open>
  The loop maps index sequences to slugs one to one: with each index uniform, every slug of the
  requested length is equally likely.
\<close>

lemma slugs_bij:
  "bij_betw (map ((!) charset)) {is. length is = n \<and> set is \<subseteq> {..<56}}
     {s. length s = n \<and> set s \<subseteq> set charset}"
proof (rule bij_betw_imageI)
  have inj: "inj_on ((!) charset) {..<56}"
    using distinct_charset by (auto simp: inj_on_def distinct_conv_nth)
  show "inj_on (map ((!) charset)) {is. length is = n \<and> set is \<subseteq> {..<56}}"
  proof (rule inj_onI)
    fix xs ys assume "xs \<in> {is. length is = n \<and> set is \<subseteq> {..<56}}"
      and "ys \<in> {is. length is = n \<and> set is \<subseteq> {..<56}}"
      and "map ((!) charset) xs = map ((!) charset) ys"
    then show "xs = ys"
      using inj by (intro map_inj_on [where f = "(!) charset"]) (auto intro: inj_on_subset)
  qed
  have img: "(!) charset ` {..<56} = set charset"
    by (auto simp: set_conv_nth lessThan_def)
  show "map ((!) charset) ` {is. length is = n \<and> set is \<subseteq> {..<56}}
      = {s. length s = n \<and> set s \<subseteq> set charset}"
  proof (intro equalityI subsetI)
    fix s assume s: "s \<in> {s. length s = n \<and> set s \<subseteq> set charset}"
    then have "s \<in> lists ((!) charset ` {..<56})" by (auto simp: img)
    then obtain xs where "xs \<in> lists {..<56}" and "s = map ((!) charset) xs"
      by (auto simp: lists_image)
    with s show "s \<in> map ((!) charset) ` {is. length is = n \<and> set is \<subseteq> {..<56}}" by auto
  qed (use img in fastforce)
qed

text \<open>The byte sequences that yield a given slug without a rejected byte, counted.\<close>

lemma rand_Int_consumes: "rand_Int bs = (Inr i, bs') \<Longrightarrow> length bs' < length bs"
  by (induction bs) (auto simp: Let_def split: if_splits)

lemma slug_loop_consumes: "slug_loop n bs = (Inr s, bs') \<Longrightarrow> length bs' + n \<le> length bs"
proof (induction n arbitrary: bs s)
  case (Suc n)
  then obtain i bs1 t where i: "rand_Int bs = (Inr i, bs1)" and t: "slug_loop n bs1 = (Inr t, bs')"
    by (auto split: prod.splits sum.splits)
  from rand_Int_consumes [OF i] Suc.IH [OF t] show ?case by simp
qed simp

lemma slug_sources_Cons:
  assumes "i < 56"
  shows "{bs. length bs = Suc (length s) \<and> slug_loop (Suc (length s)) bs = (Inr (charset ! i # s), [])} =
    (\<lambda>(b, bs). b # bs) ` ({b. accepts i b} \<times> {bs. length bs = length s \<and> slug_loop (length s) bs = (Inr s, [])})"
proof (intro equalityI subsetI)
  fix bs :: "8 word list" assume "bs \<in> {bs. length bs = Suc (length s) \<and> slug_loop (Suc (length s)) bs = (Inr (charset ! i # s), [])}"
  then obtain b cs where bs: "bs = b # cs" "length cs = length s"
    and run: "slug_loop (Suc (length s)) (b # cs) = (Inr (charset ! i # s), [])" by (auto simp: length_Suc_conv)
  then obtain j cs1 where j: "rand_Int (b # cs) = (Inr j, cs1)" "charset ! j = charset ! i"
    and t: "slug_loop (length s) cs1 = (Inr s, [])" by (auto split: prod.splits sum.splits)
  have "j = i" using j rand_Int_bound [OF j(1)] assms distinct_charset by (simp add: nth_eq_iff_index_eq)
  moreover have "cs1 = cs"
  proof (rule ccontr)
    assume "cs1 \<noteq> cs"
    with j(1) have "rand_Int cs = (Inr j, cs1)" by (auto simp: Let_def split: if_splits)
    from rand_Int_consumes [OF this] slug_loop_consumes [OF t] bs(2) show False by simp
  qed
  ultimately have "accepts i b" using j(1) by (auto simp: accepts_def Let_def split: if_splits dest: rand_Int_consumes)
  with bs t \<open>cs1 = cs\<close> show "bs \<in> (\<lambda>(b, bs). b # bs) ` ({b. accepts i b} \<times> {bs. length bs = length s \<and> slug_loop (length s) bs = (Inr s, [])})"
    by force
qed (auto simp: accepts_def Let_def split: if_splits)

lemma card_slug_sources:
  "set s \<subseteq> set charset \<Longrightarrow> card {bs. length bs = length s \<and> slug_loop (length s) bs = (Inr s, [])} = 4 ^ length s"
proof (induction s)
  case Nil
  have "{bs :: 8 word list. bs = [] \<and> slug_loop 0 bs = (Inr [], [])} = {[]}" by auto
  then show ?case by simp
next
  case (Cons c s)
  then obtain i where i: "i < 56" "charset ! i = c" by (auto simp: in_set_conv_nth)
  have "inj (\<lambda>(b :: 8 word, bs). b # bs)" by (auto simp: inj_on_def)
  with Cons slug_sources_Cons [OF i(1), of s] show ?case
    by (simp add: i(2) card_image [OF inj_on_subset] card_cartesian_product card_accepting_bytes [OF i(1)])
qed

end
