(* ===== verification/World.thy ===== *)
theory World
  imports Slug
begin

text \<open>
  The state every operation of the program reads and changes: the directory tree of the file
  store, the SQLite database, the clock, the random source and the environment.

  The environment is a list of choices, one natural number per step the program does not
  control. A call that can fail takes the next choice and succeeds exactly when it is 0; an
  exhausted list means success from then on. Every statement quantified over worlds therefore
  covers every pattern of failures of the disk, the database and the client connection, and
  \<open>all_calm\<close> singles out the runs without any.
\<close>

section \<open>The directory tree below the storage root\<close>

text \<open>A path is the list of its segments below the root; the root itself is the empty list.\<close>

type_synonym path = "string list"

record fs =
  fs_files :: "path \<Rightarrow> bytes option"
  fs_dirs :: "path set"

section \<open>The database\<close>

text \<open>The tables of internal/storage/migrations, a column each; NULL is \<^const>\<open>None\<close>.\<close>

record file_row =
  fr_slug :: string
  fr_filename :: string
  fr_size :: int
  fr_mime_type :: string
  fr_password :: "string option"
  fr_one_use :: int
  fr_downloaded_at :: "int option"
  fr_expires_at :: "int option"
  fr_created_at :: int
  fr_delete_secret :: "string option"

record bucket_row =
  br_slug :: string
  br_password :: "string option"
  br_one_use :: int
  br_downloaded_at :: "int option"
  br_expires_at :: "int option"
  br_created_at :: int
  br_delete_secret :: "string option"

record bucket_file_row =
  bfr_id :: int
  bfr_bucket_slug :: string
  bfr_filename :: string
  bfr_size :: int
  bfr_mime_type :: string
  bfr_storage_key :: string

record paste_row =
  pr_slug :: string
  pr_title :: string
  pr_content :: string
  pr_lang :: string
  pr_password :: "string option"
  pr_one_use :: int
  pr_viewed_at :: "int option"
  pr_expires_at :: "int option"
  pr_created_at :: int
  pr_delete_secret :: "string option"

text \<open>
  A table is the list of its rows; \<open>db_bucket_files_seq\<close> is the AUTOINCREMENT counter of
  bucket_files, the greatest id given out so far.
\<close>

record db =
  db_files :: "file_row list"
  db_buckets :: "bucket_row list"
  db_bucket_files :: "bucket_file_row list"
  db_bucket_files_seq :: int
  db_pastes :: "paste_row list"

section \<open>The world\<close>

record world =
  w_now :: instant
  w_rand :: "8 word list"
  w_env :: "nat list"
  w_fs :: fs
  w_db :: db

definition next_choice :: "world \<Rightarrow> nat \<times> world" where
  "next_choice w = (case w_env w of [] \<Rightarrow> (0, w) | c # cs \<Rightarrow> (c, w\<lparr>w_env := cs\<rparr>))"

definition all_calm :: "world \<Rightarrow> bool" where
  "all_calm w \<longleftrightarrow> list_all (\<lambda>c. c = 0) (w_env w)"

text \<open>The operations of slug on the random source of the world.\<close>

definition slug_io :: "int \<Rightarrow> world \<Rightarrow> string result \<times> world" where
  "slug_io n w = (case slug_New n (w_rand w) of (r, bs) \<Rightarrow> (r, w\<lparr>w_rand := bs\<rparr>))"

text \<open>
  \<open>choice\<close> and \<open>rest\<close> are the two components of a step of the environment; proofs rewrite
  \<^const>\<open>next_choice\<close> into them.
\<close>

definition choice :: "world \<Rightarrow> nat" where
  "choice w = (case w_env w of [] \<Rightarrow> 0 | c # cs \<Rightarrow> c)"

definition rest :: "world \<Rightarrow> world" where
  "rest w = w\<lparr>w_env := tl (w_env w)\<rparr>"

lemma next_choice_eq [simp]: "next_choice w = (choice w, rest w)"
  by (cases "w_env w") (simp_all add: next_choice_def choice_def rest_def)

lemma rest_simps [simp]:
  "w_now (rest w) = w_now w" "w_rand (rest w) = w_rand w"
  "w_fs (rest w) = w_fs w" "w_db (rest w) = w_db w"
  by (simp_all add: rest_def)

lemma choice_calm [simp]: "all_calm w \<Longrightarrow> choice w = 0"
  and rest_calm [simp]: "all_calm w \<Longrightarrow> all_calm (rest w)"
  by (cases "w_env w"; simp add: all_calm_def choice_def rest_def)+

lemma all_calm_upd [simp]:
  "all_calm (w\<lparr>w_fs := F\<rparr>) = all_calm w" "all_calm (w\<lparr>w_db := D\<rparr>) = all_calm w"
  "all_calm (w\<lparr>w_rand := R\<rparr>) = all_calm w" "all_calm (w\<lparr>w_now := T\<rparr>) = all_calm w"
  by (simp_all add: all_calm_def)

lemma slug_io_frame:
  assumes "slug_io n w = (r, w')"
  shows "w_now w' = w_now w" "w_env w' = w_env w" "w_fs w' = w_fs w" "w_db w' = w_db w"
    "all_calm w' = all_calm w"
  using assms by (auto simp: slug_io_def all_calm_def split: prod.splits)

lemma slug_io_ok:
  assumes "slug_io n w = (Inr s, w')"
  shows "int (length s) = n" "list_all alnum s" "s \<noteq> []" "set s \<subseteq> set charset"
  using assms slug_New_length slug_New_alnum slug_New_nonempty slug_New_charset
  by (fastforce simp: slug_io_def split: prod.splits)+

lemma slug_io_low_error: "slug_io n w = (Inl e, w') \<Longrightarrow> low_error e"
  by (auto simp: slug_io_def split: prod.splits dest: slug_New_low_error)

section \<open>Frames\<close>

text \<open>
  \<open>same_but_fs\<close>, \<open>same_but_db\<close>: the two worlds agree on everything but the environment
  and the component named. A file store operation keeps the first, a repository operation the
  second.
\<close>

definition same_but_fs :: "world \<Rightarrow> world \<Rightarrow> bool" where
  "same_but_fs w w' \<longleftrightarrow> w_now w' = w_now w \<and> w_rand w' = w_rand w \<and> w_db w' = w_db w \<and>
     (all_calm w \<longrightarrow> all_calm w')"

definition same_but_db :: "world \<Rightarrow> world \<Rightarrow> bool" where
  "same_but_db w w' \<longleftrightarrow> w_now w' = w_now w \<and> w_rand w' = w_rand w \<and> w_fs w' = w_fs w \<and>
     (all_calm w \<longrightarrow> all_calm w')"

definition same_but_env :: "world \<Rightarrow> world \<Rightarrow> bool" where
  "same_but_env w w' \<longleftrightarrow> same_but_fs w w' \<and> w_fs w' = w_fs w"

lemma same_but_fs_refl [simp, intro]: "same_but_fs w w"
  and same_but_db_refl [simp, intro]: "same_but_db w w"
  and same_but_env_refl [simp, intro]: "same_but_env w w"
  by (simp_all add: same_but_fs_def same_but_db_def same_but_env_def)

lemma same_but_fs_trans [trans]: "same_but_fs u v \<Longrightarrow> same_but_fs v w \<Longrightarrow> same_but_fs u w"
  and same_but_db_trans [trans]: "same_but_db u v \<Longrightarrow> same_but_db v w \<Longrightarrow> same_but_db u w"
  and same_but_env_trans [trans]: "same_but_env u v \<Longrightarrow> same_but_env v w \<Longrightarrow> same_but_env u w"
  by (auto simp: same_but_fs_def same_but_db_def same_but_env_def)

lemma same_but_env_fs: "same_but_env w w' \<Longrightarrow> same_but_fs w w'"
  and same_but_env_db: "same_but_env w w' \<Longrightarrow> same_but_db w w'"
  by (auto simp: same_but_fs_def same_but_db_def same_but_env_def)

lemma same_but_fsD:
  assumes "same_but_fs w w'"
  shows "w_now w' = w_now w" "w_rand w' = w_rand w" "w_db w' = w_db w"
    "all_calm w \<Longrightarrow> all_calm w'"
  using assms by (simp_all add: same_but_fs_def)

lemma same_but_dbD:
  assumes "same_but_db w w'"
  shows "w_now w' = w_now w" "w_rand w' = w_rand w" "w_fs w' = w_fs w"
    "all_calm w \<Longrightarrow> all_calm w'"
  using assms by (simp_all add: same_but_db_def)

lemma same_but_envD:
  assumes "same_but_env w w'"
  shows "w_now w' = w_now w" "w_db w' = w_db w" "w_fs w' = w_fs w" "w_rand w' = w_rand w"
    "all_calm w \<Longrightarrow> all_calm w'"
  using assms by (simp_all add: same_but_env_def same_but_fs_def)

lemma same_but_upd [simp]:
  "same_but_fs w (v\<lparr>w_fs := F\<rparr>) = same_but_fs w v"
  "same_but_db w (v\<lparr>w_db := D\<rparr>) = same_but_db w v"
  by (simp_all add: same_but_fs_def same_but_db_def)

lemma same_but_rest [simp]:
  "same_but_fs w v \<Longrightarrow> same_but_fs w (rest v)"
  "same_but_db w v \<Longrightarrow> same_but_db w (rest v)"
  "same_but_env w v \<Longrightarrow> same_but_env w (rest v)"
  by (auto simp: same_but_fs_def same_but_db_def same_but_env_def)

end
