(* ===== verification/FileStore.thy ===== *)
theory FileStore
  imports World
begin

text \<open>
  Package internal/filestore: the Backend interface (store.go) with its contract as the locale
  \<open>file_store\<close>, and LocalFS (local.go), the directory-tree implementation, with the operating
  system calls it makes.
\<close>

section \<open>Operating system calls\<close>

text \<open>
  Each call takes a choice of the environment: 0 lets it run, anything else is an I/O error
  (which for a write leaves a prefix of the data in the file). A reader is the data it delivers
  and whether it fails at the end instead of reporting EOF (a client that disconnects).
\<close>

record reader =
  rd_data :: bytes
  rd_fails :: bool

definition put_file :: "path \<Rightarrow> bytes \<Rightarrow> world \<Rightarrow> world" where
  "put_file p d w = w\<lparr>w_fs := (w_fs w)\<lparr>fs_files := (fs_files (w_fs w))(p \<mapsto> d)\<rparr>\<rparr>"

definition drop_file :: "path \<Rightarrow> world \<Rightarrow> world" where
  "drop_file p w = w\<lparr>w_fs := (w_fs w)\<lparr>fs_files := (fs_files (w_fs w))(p := None)\<rparr>\<rparr>"

definition os_MkdirAll :: "path \<Rightarrow> world \<Rightarrow> unit result \<times> world" where
  "os_MkdirAll dir w =
     (case next_choice w of (c, w1) \<Rightarrow>
        if c \<noteq> 0 then (Inl (External ''mkdir''), w1)
        else if list_ex (\<lambda>p. fs_files (w_fs w1) p \<noteq> None) (prefixes dir)
        then (Inl (External ''mkdir: not a directory''), w1)
        else (Inr (), w1\<lparr>w_fs := (w_fs w1)\<lparr>fs_dirs := set (prefixes dir) \<union> fs_dirs (w_fs w1)\<rparr>\<rparr>))"

fun nat_str :: "nat \<Rightarrow> string" where
  "nat_str n = (if n < 10 then [char_of (48 + n)] else nat_str (n div 10) @ [char_of (48 + n mod 10)])"

declare nat_str.simps [simp del]

text \<open>os.CreateTemp draws random names until one is free, at most 10000 times.\<close>

fun pick_temp :: "nat \<Rightarrow> path \<Rightarrow> string \<Rightarrow> world \<Rightarrow> path result \<times> world" where
  "pick_temp 0 dir pattern w = (Inl (External ''createtemp: file exists''), w)"
| "pick_temp (Suc tries) dir pattern w =
     (case next_choice w of (c, w1) \<Rightarrow>
        let p = dir @ [pattern @ nat_str c] in
        if fs_files (w_fs w1) p \<noteq> None \<or> p \<in> fs_dirs (w_fs w1)
        then pick_temp tries dir pattern w1
        else (Inr p, put_file p [] w1))"

definition os_CreateTemp :: "path \<Rightarrow> string \<Rightarrow> world \<Rightarrow> path result \<times> world" where
  "os_CreateTemp dir pattern w =
     (case next_choice w of (c, w1) \<Rightarrow>
        if c \<noteq> 0 then (Inl (External ''createtemp''), w1)
        else if dir \<notin> fs_dirs (w_fs w1) then (Inl (Sentinel Os_ErrNotExist), w1)
        else pick_temp 10000 dir pattern w1)"

definition io_Copy :: "path \<Rightarrow> reader \<Rightarrow> world \<Rightarrow> unit result \<times> world" where
  "io_Copy p r w =
     (case next_choice w of (c, w1) \<Rightarrow>
        if c \<noteq> 0 then (Inl (External ''write''), put_file p (take (c - 1) (rd_data r)) w1)
        else if rd_fails r then (Inl (External ''read''), put_file p (rd_data r) w1)
        else (Inr (), put_file p (rd_data r) w1))"

definition os_Close :: "world \<Rightarrow> unit result \<times> world" where
  "os_Close w =
     (case next_choice w of (c, w1) \<Rightarrow>
        if c \<noteq> 0 then (Inl (External ''close''), w1) else (Inr (), w1))"

definition os_Rename :: "path \<Rightarrow> path \<Rightarrow> world \<Rightarrow> unit result \<times> world" where
  "os_Rename old new w =
     (case next_choice w of (c, w1) \<Rightarrow>
        if c \<noteq> 0 then (Inl (External ''rename''), w1)
        else case fs_files (w_fs w1) old of
          None \<Rightarrow> (Inl (Sentinel Os_ErrNotExist), w1)
        | Some d \<Rightarrow>
            if new \<in> fs_dirs (w_fs w1) then (Inl (External ''rename: is a directory''), w1)
            else (Inr (), put_file new d (drop_file old w1)))"

definition os_Remove :: "path \<Rightarrow> world \<Rightarrow> unit result \<times> world" where
  "os_Remove p w =
     (case next_choice w of (c, w1) \<Rightarrow>
        if c \<noteq> 0 then (Inl (External ''remove''), w1)
        else if fs_files (w_fs w1) p = None then (Inl (Sentinel Os_ErrNotExist), w1)
        else (Inr (), drop_file p w1))"

definition os_Open :: "path \<Rightarrow> world \<Rightarrow> bytes result \<times> world" where
  "os_Open p w =
     (case next_choice w of (c, w1) \<Rightarrow>
        if c \<noteq> 0 then (Inl (External ''open''), w1)
        else case fs_files (w_fs w1) p of
          None \<Rightarrow> (Inl (Sentinel Os_ErrNotExist), w1)
        | Some d \<Rightarrow> (Inr d, w1))"

definition os_Stat :: "path \<Rightarrow> world \<Rightarrow> unit result \<times> world" where
  "os_Stat p w =
     (case next_choice w of (c, w1) \<Rightarrow>
        if c \<noteq> 0 then (Inl (External ''stat''), w1)
        else if fs_files (w_fs w1) p = None \<and> p \<notin> fs_dirs (w_fs w1)
        then (Inl (Sentinel Os_ErrNotExist), w1)
        else (Inr (), w1))"

section \<open>LocalFS\<close>

text \<open>validKey is the regular expression for one or more letters and digits.\<close>

definition validKey :: "string \<Rightarrow> bool" where
  "validKey key \<longleftrightarrow> key \<noteq> [] \<and> list_all alnum key"

definition NewLocal :: "world \<Rightarrow> unit result \<times> world" where
  "NewLocal w =
     (case os_MkdirAll [] w of
        (Inl e, w1) \<Rightarrow> (Inl (Wrap ''filestore: create root'' e), w1)
      | (Inr u, w1) \<Rightarrow> (Inr (), w1))"

definition keyPath :: "string \<Rightarrow> path result" where
  "keyPath key =
     (if \<not> validKey key then Inl (External ''filestore: invalid key (must be alphanumeric)'')
      else if length key < 2 then Inr [key]
      else Inr [take 2 key, key])"

text \<open>The deferred removal of the temporary file runs on every path after its creation.\<close>

definition write_temp :: "path \<Rightarrow> path \<Rightarrow> reader \<Rightarrow> world \<Rightarrow> unit result \<times> world" where
  "write_temp tmp path r w =
     (case io_Copy tmp r w of
        (Inl e, w1) \<Rightarrow> (Inl (Wrap ''filestore: write'' e), snd (os_Close w1))
      | (Inr u, w1) \<Rightarrow>
          (case os_Close w1 of
             (Inl e, w2) \<Rightarrow> (Inl (Wrap ''filestore: close temp'' e), w2)
           | (Inr u, w2) \<Rightarrow>
               (case os_Rename tmp path w2 of
                  (Inl e, w3) \<Rightarrow> (Inl (Wrap ''filestore: rename'' e), w3)
                | (Inr u, w3) \<Rightarrow> (Inr (), w3))))"

definition LocalFS_Write :: "string \<Rightarrow> reader \<Rightarrow> world \<Rightarrow> unit result \<times> world" where
  "LocalFS_Write key r w =
     (case keyPath key of
        Inl e \<Rightarrow> (Inl e, w)
      | Inr path \<Rightarrow>
          (case os_MkdirAll (butlast path) w of
             (Inl e, w1) \<Rightarrow> (Inl (Wrap ''filestore: mkdir'' e), w1)
           | (Inr u, w1) \<Rightarrow>
               (case os_CreateTemp (butlast path) ''.tmp-'' w1 of
                  (Inl e, w2) \<Rightarrow> (Inl (Wrap ''filestore: create temp'' e), w2)
                | (Inr tmp, w2) \<Rightarrow>
                    (case write_temp tmp path r w2 of
                       (res, w3) \<Rightarrow> (res, snd (os_Remove tmp w3))))))"

definition LocalFS_Read :: "string \<Rightarrow> world \<Rightarrow> bytes result \<times> world" where
  "LocalFS_Read key w =
     (case keyPath key of
        Inl e \<Rightarrow> (Inl e, w)
      | Inr path \<Rightarrow>
          (case os_Open path w of
             (Inl e, w1) \<Rightarrow>
               (if errors_Is e Os_ErrNotExist then (Inl (Sentinel Os_ErrNotExist), w1)
                else (Inl (Wrap ''filestore: read'' e), w1))
           | (Inr d, w1) \<Rightarrow> (Inr d, w1)))"

definition LocalFS_Delete :: "string \<Rightarrow> world \<Rightarrow> unit result \<times> world" where
  "LocalFS_Delete key w =
     (case keyPath key of
        Inl e \<Rightarrow> (Inl e, w)
      | Inr path \<Rightarrow>
          (case os_Remove path w of
             (Inl e, w1) \<Rightarrow>
               (if \<not> errors_Is e Os_ErrNotExist then (Inl (Wrap ''filestore: delete'' e), w1)
                else (Inr (), w1))
           | (Inr u, w1) \<Rightarrow> (Inr (), w1)))"

definition LocalFS_Exists :: "string \<Rightarrow> world \<Rightarrow> bool result \<times> world" where
  "LocalFS_Exists key w =
     (case keyPath key of
        Inl e \<Rightarrow> (Inl e, w)
      | Inr path \<Rightarrow>
          (case os_Stat path w of
             (Inr u, w1) \<Rightarrow> (Inr True, w1)
           | (Inl e, w1) \<Rightarrow>
               (if errors_Is e Os_ErrNotExist then (Inr False, w1)
                else (Inl (Wrap ''filestore: exists'' e), w1))))"

section \<open>The Backend interface\<close>

record backend =
  be_Write :: "string \<Rightarrow> reader \<Rightarrow> world \<Rightarrow> unit result \<times> world"
  be_Read :: "string \<Rightarrow> world \<Rightarrow> bytes result \<times> world"
  be_Delete :: "string \<Rightarrow> world \<Rightarrow> unit result \<times> world"
  be_Exists :: "string \<Rightarrow> world \<Rightarrow> bool result \<times> world"

definition LocalFS :: backend where
  "LocalFS = \<lparr>be_Write = LocalFS_Write, be_Read = LocalFS_Read, be_Delete = LocalFS_Delete,
     be_Exists = LocalFS_Exists\<rparr>"

text \<open>
  The contract of store.go. \<open>content\<close> is what a key holds, \<open>key_ok\<close> the keys the backend
  accepts, \<open>ok\<close> the backend's own invariant and \<open>clean\<close> that no debris of a failed write is in
  the way of the next one.
\<close>

locale file_store =
  fixes B :: backend
    and content :: "fs \<Rightarrow> string \<Rightarrow> bytes option"
    and key_ok :: "string \<Rightarrow> bool"
    and ok :: "fs \<Rightarrow> bool"
    and clean :: "fs \<Rightarrow> bool"
  assumes Write_frame: "be_Write B k r w = (x, w') \<Longrightarrow> same_but_fs w w'"
    and Delete_frame: "be_Delete B k w = (x, w') \<Longrightarrow> same_but_fs w w'"
    and Read_frame: "be_Read B k w = (y, w') \<Longrightarrow> same_but_env w w'"
    and Exists_frame: "be_Exists B k w = (z, w') \<Longrightarrow> same_but_env w w'"
    and Write_inv: "be_Write B k r w = (x, w') \<Longrightarrow> ok (w_fs w) \<Longrightarrow> ok (w_fs w')"
    and Delete_inv: "be_Delete B k w = (x, w') \<Longrightarrow> ok (w_fs w) \<Longrightarrow> ok (w_fs w')"
    and Delete_clean: "be_Delete B k w = (x, w') \<Longrightarrow> clean (w_fs w) \<Longrightarrow> clean (w_fs w')"
    and Write_Inr: "be_Write B k r w = (Inr u, w') \<Longrightarrow>
      key_ok k \<and> \<not> rd_fails r \<and> content (w_fs w') = (content (w_fs w))(k \<mapsto> rd_data r)"
    and Write_Inl: "be_Write B k r w = (Inl e, w') \<Longrightarrow> content (w_fs w') = content (w_fs w)"
    and Read_Inr: "be_Read B k w = (Inr d, w') \<Longrightarrow> content (w_fs w) k = Some d"
    and Delete_Inr: "be_Delete B k w = (Inr u, w') \<Longrightarrow>
      content (w_fs w') = (content (w_fs w))(k := None)"
    and Delete_Inl: "be_Delete B k w = (Inl e, w') \<Longrightarrow> content (w_fs w') = content (w_fs w)"
    and Write_low: "be_Write B k r w = (Inl e, w') \<Longrightarrow> low_error e"
    and Read_low: "be_Read B k w = (Inl e, w') \<Longrightarrow> low_error e"
    and Delete_low: "be_Delete B k w = (Inl e, w') \<Longrightarrow> low_error e"
    and Write_calm: "all_calm w \<Longrightarrow> ok (w_fs w) \<Longrightarrow> clean (w_fs w) \<Longrightarrow> key_ok k \<Longrightarrow> \<not> rd_fails r \<Longrightarrow>
      \<exists>w'. be_Write B k r w = (Inr (), w') \<and> clean (w_fs w')"
    and Read_calm: "all_calm w \<Longrightarrow> key_ok k \<Longrightarrow>
      fst (be_Read B k w) = (case content (w_fs w) k of
        None \<Rightarrow> Inl (Sentinel Os_ErrNotExist) | Some d \<Rightarrow> Inr d)"
    and Delete_calm: "all_calm w \<Longrightarrow> key_ok k \<Longrightarrow> fst (be_Delete B k w) = Inr ()"
    and Exists_calm: "all_calm w \<Longrightarrow> ok (w_fs w) \<Longrightarrow> key_ok k \<Longrightarrow>
      fst (be_Exists B k w) = Inr (content (w_fs w) k \<noteq> None)"
    and content_key_ok: "content F k = Some d \<Longrightarrow> key_ok k"
begin

lemma write_then_read:
  assumes "be_Write B k r w = (Inr u, w1)" and "all_calm w1"
  shows "fst (be_Read B k w1) = Inr (rd_data r)"
  using Write_Inr [OF assms(1)] Read_calm [OF assms(2), of k] by simp

lemma delete_then_read:
  assumes "be_Delete B k w = (Inr u, w1)"
  shows "fst (be_Read B k w1) \<noteq> Inr d"
proof
  assume "fst (be_Read B k w1) = Inr d"
  then obtain w2 where "be_Read B k w1 = (Inr d, w2)"
    by (cases "be_Read B k w1") auto
  from Read_Inr [OF this] Delete_Inr [OF assms] show False by simp
qed

lemma write_then_delete:
  assumes "be_Write B k r w = (Inr u, w1)" and "be_Delete B k w1 = (Inr v, w2)"
    and "content (w_fs w) k = None"
  shows "content (w_fs w2) = content (w_fs w)"
  using Write_Inr [OF assms(1)] Delete_Inr [OF assms(2)] assms(3) by auto

end

section \<open>LocalFS meets the contract\<close>

definition pathOf :: "string \<Rightarrow> path" where
  "pathOf key = (if length key < 2 then [key] else [take 2 key, key])"

definition fs_content :: "fs \<Rightarrow> string \<Rightarrow> bytes option" where
  "fs_content F key = (if validKey key then fs_files F (pathOf key) else None)"

text \<open>
  Directories are the root and two-character prefixes, and no file stands where a prefix
  directory goes. Only \<open>ok\<close> states arise from an empty root. In a \<open>clean\<close> tree every file name
  is alphanumeric, so no temporary file is left over.
\<close>

definition fs_ok :: "fs \<Rightarrow> bool" where
  "fs_ok F \<longleftrightarrow> fs_files F [] = None \<and> (\<forall>d \<in> fs_dirs F. length d \<le> 1 \<and> (d \<noteq> [] \<longrightarrow> length (hd d) = 2)) \<and>
     (\<forall>p. length p = 2 \<longrightarrow> fs_files F [p] = None)"

definition fs_clean :: "fs \<Rightarrow> bool" where
  "fs_clean F \<longleftrightarrow> (\<forall>p. fs_files F p \<noteq> None \<longrightarrow> list_all alnum (last p))"

definition is_temp :: "path \<Rightarrow> bool" where
  "is_temp p \<longleftrightarrow> p \<noteq> [] \<and> (\<exists>s. last p = ''.tmp-'' @ s)"

lemma keyPath_eq: "keyPath key = (if validKey key then Inr (pathOf key)
    else Inl (External ''filestore: invalid key (must be alphanumeric)''))"
  by (simp add: keyPath_def pathOf_def)

lemma pathOf_inj [simp]: "pathOf k = pathOf l \<longleftrightarrow> k = l"
  by (auto simp: pathOf_def)

lemma pathOf_last [simp]: "last (pathOf k) = k" "pathOf k \<noteq> []"
  by (simp_all add: pathOf_def)

lemma temp_not_alnum: "is_temp p \<Longrightarrow> \<not> list_all alnum (last p)"
  by (auto simp: is_temp_def alnum_def)

lemma temp_not_pathOf: "is_temp p \<Longrightarrow> validKey k \<Longrightarrow> p \<noteq> pathOf k"
  using temp_not_alnum [of p] by (auto simp: validKey_def)

lemma pathOf_not_dir: "fs_ok F \<Longrightarrow> pathOf k \<notin> fs_dirs F"
  by (cases "length k < 2") (auto simp: fs_ok_def pathOf_def dest!: bspec)

lemma put_drop_simps [simp]:
  "w_now (put_file p d w) = w_now w" "w_rand (put_file p d w) = w_rand w"
  "w_env (put_file p d w) = w_env w" "w_db (put_file p d w) = w_db w"
  "fs_files (w_fs (put_file p d w)) = (fs_files (w_fs w))(p \<mapsto> d)"
  "fs_dirs (w_fs (put_file p d w)) = fs_dirs (w_fs w)"
  "w_now (drop_file p w) = w_now w" "w_rand (drop_file p w) = w_rand w"
  "w_env (drop_file p w) = w_env w" "w_db (drop_file p w) = w_db w"
  "fs_files (w_fs (drop_file p w)) = (fs_files (w_fs w))(p := None)"
  "fs_dirs (w_fs (drop_file p w)) = fs_dirs (w_fs w)"
  by (simp_all add: put_file_def drop_file_def)

lemma put_drop_same [simp]:
  "same_but_fs w (put_file p d v) = same_but_fs w v"
  "same_but_fs w (drop_file p v) = same_but_fs w v"
  by (simp_all add: same_but_fs_def all_calm_def)

lemma put_drop_calm [simp]:
  "all_calm (put_file p d v) = all_calm v" "all_calm (drop_file p v) = all_calm v"
  by (simp_all add: all_calm_def)

subsection \<open>What each call does\<close>

lemma os_MkdirAll_spec:
  assumes "os_MkdirAll dir w = (x, w')"
  shows "same_but_fs w w'" "fs_files (w_fs w') = fs_files (w_fs w)"
    "fs_dirs (w_fs w') \<subseteq> set (prefixes dir) \<union> fs_dirs (w_fs w)"
    "x = Inr () \<Longrightarrow> dir \<in> fs_dirs (w_fs w')" "x = Inl e \<Longrightarrow> low_error e"
  using assms by (auto simp: os_MkdirAll_def split: if_splits)

lemma pick_temp_spec:
  assumes "pick_temp n dir pre w = (x, w')"
  shows "same_but_fs w w' \<and> fs_dirs (w_fs w') = fs_dirs (w_fs w) \<and>
    (case x of
       Inl e \<Rightarrow> low_error e \<and> fs_files (w_fs w') = fs_files (w_fs w)
     | Inr p \<Rightarrow> (\<exists>c. p = dir @ [pre @ c]) \<and> fs_files (w_fs w) p = None \<and>
         fs_files (w_fs w') = (fs_files (w_fs w))(p \<mapsto> []))"
  using assms
proof (induction n arbitrary: w)
  case (Suc n)
  show ?case
  proof (cases "fs_files (w_fs w) (dir @ [pre @ nat_str (choice w)]) \<noteq> None \<or>
      dir @ [pre @ nat_str (choice w)] \<in> fs_dirs (w_fs w)")
    case True
    with Suc.prems have "pick_temp n dir pre (rest w) = (x, w')" by (simp add: Let_def)
    from Suc.IH [OF this] show ?thesis
      by (auto split: sum.splits intro: same_but_fs_trans [of w "rest w" w'])
  next
    case False
    with Suc.prems show ?thesis by (auto simp: Let_def)
  qed
qed auto

lemma os_CreateTemp_spec:
  assumes "os_CreateTemp dir pre w = (x, w')"
  shows "same_but_fs w w' \<and> fs_dirs (w_fs w') = fs_dirs (w_fs w) \<and>
    (case x of
       Inl e \<Rightarrow> low_error e \<and> fs_files (w_fs w') = fs_files (w_fs w)
     | Inr p \<Rightarrow> (\<exists>c. p = dir @ [pre @ c]) \<and> fs_files (w_fs w) p = None \<and>
         fs_files (w_fs w') = (fs_files (w_fs w))(p \<mapsto> []))"
  using assms pick_temp_spec [of 10000 dir pre "rest w" x w']
  by (auto simp: os_CreateTemp_def simp del: pick_temp.simps split: if_splits sum.splits
      intro: same_but_fs_trans [of w "rest w" w'])

lemma write_temp_spec:
  assumes "write_temp tmp path r w = (x, w')" and "tmp \<noteq> path"
  shows "same_but_fs w w' \<and> fs_dirs (w_fs w') = fs_dirs (w_fs w) \<and>
    (case x of
       Inl e \<Rightarrow> low_error e \<and> (\<forall>p. p \<noteq> tmp \<longrightarrow> fs_files (w_fs w') p = fs_files (w_fs w) p)
     | Inr u \<Rightarrow> \<not> rd_fails r \<and>
         fs_files (w_fs w') = (fs_files (w_fs w))(tmp := None, path \<mapsto> rd_data r))"
  using assms
  by (auto simp: write_temp_def io_Copy_def os_Close_def os_Rename_def split: if_splits)

lemma os_Remove_spec:
  assumes "os_Remove p w = (x, w')"
  shows "same_but_fs w w' \<and> fs_dirs (w_fs w') = fs_dirs (w_fs w) \<and>
    (case x of
       Inl e \<Rightarrow> low_error e \<and> fs_files (w_fs w') = fs_files (w_fs w) \<and>
         (errors_Is e Os_ErrNotExist \<longrightarrow> fs_files (w_fs w) p = None)
     | Inr u \<Rightarrow> fs_files (w_fs w') = (fs_files (w_fs w))(p := None))"
  using assms by (auto simp: os_Remove_def split: if_splits)

subsection \<open>Write\<close>

text \<open>
  The atomicity of Write: whatever fails, the files other than one temporary file of the key's
  directory are those of before, unless the write succeeded, and then exactly the key's file
  has changed, to the reader's data.
\<close>

lemma LocalFS_Write_spec:
  assumes "LocalFS_Write key r w = (x, w')"
  shows "same_but_fs w w' \<and> (\<forall>e. x = Inl e \<longrightarrow> low_error e) \<and>
    (\<forall>u. x = Inr u \<longrightarrow> validKey key \<and> \<not> rd_fails r) \<and>
    fs_dirs (w_fs w') \<subseteq> fs_dirs (w_fs w) \<union> set (prefixes (butlast (pathOf key))) \<and>
    (\<exists>tmp. is_temp tmp \<and> butlast tmp = butlast (pathOf key) \<and> (\<forall>p. p \<noteq> tmp \<longrightarrow>
      fs_files (w_fs w') p =
        (if x = Inr () \<and> p = pathOf key then Some (rd_data r) else fs_files (w_fs w) p)))"
proof (cases "validKey key")
  case False
  have "is_temp (butlast (pathOf key) @ [''.tmp-''])" by (simp add: is_temp_def)
  with False assms show ?thesis by (force simp: LocalFS_Write_def keyPath_eq)
next
  case True
  let ?dir = "butlast (pathOf key)"
  have tmp: "is_temp (?dir @ [''.tmp-'' @ c])" for c by (simp add: is_temp_def)
  obtain y w1 where mk: "os_MkdirAll ?dir w = (y, w1)" by force
  note m = os_MkdirAll_spec [OF mk]
  show ?thesis
  proof (cases y)
    case (Inl e)
    with assms True mk have "x = Inl (Wrap ''filestore: mkdir'' e)" "w' = w1"
      by (simp_all add: LocalFS_Write_def keyPath_eq)
    with m Inl tmp show ?thesis by (intro conjI exI [of _ "?dir @ [''.tmp-'' @ []]"]) auto
  next
    case (Inr u)
    obtain z w2 where ct: "os_CreateTemp ?dir ''.tmp-'' w1 = (z, w2)" by force
    note c = os_CreateTemp_spec [OF ct]
    show ?thesis
    proof (cases z)
      case (Inl e)
      with assms True mk ct \<open>y = Inr u\<close>
      have "x = Inl (Wrap ''filestore: create temp'' e)" "w' = w2"
        by (simp_all add: LocalFS_Write_def keyPath_eq)
      with m c Inl tmp show ?thesis
        by (intro conjI exI [of _ "?dir @ [''.tmp-'' @ []]"])
          (auto intro: same_but_fs_trans)
    next
      case (Inr tf)
      obtain v w3 where wt: "write_temp tf (pathOf key) r w2 = (v, w3)" by force
      obtain v' w4 where rm: "os_Remove tf w3 = (v', w4)" by force
      from c Inr have "\<exists>s. tf = ?dir @ [''.tmp-'' @ s]" by simp
      then obtain s where tf: "tf = ?dir @ [''.tmp-'' @ s]" ..
      have ist: "is_temp tf" using tmp [of s] by (simp add: tf)
      from temp_not_pathOf [OF this True] have "tf \<noteq> pathOf key" .
      note f = write_temp_spec [OF wt this]
      note d = os_Remove_spec [OF rm]
      from assms True mk ct wt rm Inr \<open>y = Inr u\<close> have x: "x = v" "w' = w4"
        by (simp_all add: LocalFS_Write_def keyPath_eq)
      have "same_but_fs w w4"
        using m(1) c f d by (meson same_but_fs_trans)
      moreover have "fs_dirs (w_fs w4) \<subseteq> fs_dirs (w_fs w) \<union> set (prefixes ?dir)"
        using m(3) c f d by auto
      moreover have "\<forall>p. p \<noteq> tf \<longrightarrow> fs_files (w_fs w4) p =
          (if v = Inr () \<and> p = pathOf key then Some (rd_data r) else fs_files (w_fs w) p)"
        using m(2) c f d Inr by (auto split: sum.splits)
      moreover have "is_temp tf \<and> butlast tf = ?dir" using ist by (simp add: tf)
      moreover have "(\<forall>e. v = Inl e \<longrightarrow> low_error e) \<and> (\<forall>u. v = Inr u \<longrightarrow> \<not> rd_fails r)"
        using f by (auto split: sum.splits)
      ultimately show ?thesis using True by (auto simp: x)
    qed
  qed
qed

lemma prefixes_dir:
  "d \<in> set (prefixes (butlast (pathOf key))) \<Longrightarrow> d = [] \<or> d = [take 2 key] \<and> \<not> length key < 2"
  by (cases d) (auto simp: pathOf_def split: if_splits)

lemma temp_name_long: "is_temp [q] \<Longrightarrow> length q \<noteq> 2"
  by (auto simp: is_temp_def)

lemma fs_ok_extend:
  assumes ok: "fs_ok F" and dirs: "fs_dirs F' \<subseteq> fs_dirs F \<union> set (prefixes (butlast (pathOf key)))"
    and files: "\<And>p. p \<noteq> tmp \<Longrightarrow> p \<noteq> pathOf key \<Longrightarrow> fs_files F' p = fs_files F p"
    and tmp: "is_temp tmp"
  shows "fs_ok F'"
proof -
  have "fs_files F' [] = None"
    using ok files [of "[]"] tmp pathOf_last(2) [of key] by (force simp: fs_ok_def is_temp_def)
  moreover have "fs_files F' [q] = None" if "length q = 2" for q
  proof -
    have "[q] \<noteq> tmp" using tmp temp_name_long that by blast
    moreover have "[q] \<noteq> pathOf key" using that by (auto simp: pathOf_def)
    ultimately show ?thesis using files [of "[q]"] ok that by (simp add: fs_ok_def)
  qed
  moreover have "length d \<le> 1 \<and> (d \<noteq> [] \<longrightarrow> length (hd d) = 2)" if "d \<in> fs_dirs F'" for d
  proof (cases "d \<in> fs_dirs F")
    case True
    with ok show ?thesis by (simp add: fs_ok_def)
  next
    case False
    with that dirs have "d \<in> set (prefixes (butlast (pathOf key)))" by blast
    from prefixes_dir [OF this] show ?thesis by auto
  qed
  ultimately show ?thesis by (simp add: fs_ok_def)
qed

lemma LocalFS_Write_inv:
  assumes "LocalFS_Write key r w = (x, w')" and "fs_ok (w_fs w)"
  shows "fs_ok (w_fs w')"
proof -
  from LocalFS_Write_spec [OF assms(1)] obtain tmp where "is_temp tmp"
    and "\<And>p. p \<noteq> tmp \<Longrightarrow> p \<noteq> pathOf key \<Longrightarrow> fs_files (w_fs w') p = fs_files (w_fs w) p"
    and "fs_dirs (w_fs w') \<subseteq> fs_dirs (w_fs w) \<union> set (prefixes (butlast (pathOf key)))"
    by auto
  with assms(2) show ?thesis by (blast intro: fs_ok_extend)
qed

lemma LocalFS_Write_content:
  assumes "LocalFS_Write key r w = (x, w')"
  shows "fs_content (w_fs w') =
    (if x = Inr () then (fs_content (w_fs w))(key \<mapsto> rd_data r) else fs_content (w_fs w))"
proof
  fix k
  from LocalFS_Write_spec [OF assms] obtain tmp where tmp: "is_temp tmp"
    and v: "\<forall>u. x = Inr u \<longrightarrow> validKey key"
    and f: "\<And>p. p \<noteq> tmp \<Longrightarrow> fs_files (w_fs w') p =
        (if x = Inr () \<and> p = pathOf key then Some (rd_data r) else fs_files (w_fs w) p)"
    by auto
  show "fs_content (w_fs w') k =
    (if x = Inr () then (fs_content (w_fs w))(key \<mapsto> rd_data r) else fs_content (w_fs w)) k"
    using f [of "pathOf k"] temp_not_pathOf [OF tmp, of k] v by (auto simp: fs_content_def)
qed

lemma pick_temp_first:
  assumes "all_calm w" and "n \<noteq> 0"
    and "fs_files (w_fs w) (dir @ [pre @ nat_str 0]) = None" and "dir @ [pre @ nat_str 0] \<notin> fs_dirs (w_fs w)"
  shows "pick_temp n dir pre w = (Inr (dir @ [pre @ nat_str 0]), put_file (dir @ [pre @ nat_str 0]) [] (rest w))"
  using assms by (cases n) (simp_all add: Let_def)

lemma LocalFS_Write_calm:
  assumes calm: "all_calm w" and ok: "fs_ok (w_fs w)" and clean: "fs_clean (w_fs w)"
    and key: "validKey key" and r: "\<not> rd_fails r"
  shows "\<exists>w'. LocalFS_Write key r w = (Inr (), w') \<and> fs_clean (w_fs w')"
proof -
  let ?dir = "butlast (pathOf key)"
  let ?tmp = "?dir @ [''.tmp-'' @ nat_str 0]"
  have t: "is_temp ?tmp" by (simp add: is_temp_def)
  have free: "fs_files (w_fs w) ?tmp = None"
    using clean temp_not_alnum [OF t] by (auto simp: fs_clean_def)
  have nodir: "?tmp \<notin> set (prefixes ?dir) \<union> fs_dirs (w_fs w)"
    using ok prefixes_dir [of ?tmp key]
    by (cases "length key < 2") (auto simp: fs_ok_def pathOf_def dest!: bspec)
  have noprefix: "\<not> list_ex (\<lambda>p. fs_files (w_fs w) p \<noteq> None) (prefixes ?dir)"
    using prefixes_dir [of _ key] ok by (fastforce simp: list_ex_iff fs_ok_def simp del: set_prefixes_eq)
  have dir_in: "?dir \<in> set (prefixes ?dir)" by simp
  have path: "pathOf key \<notin> set (prefixes ?dir) \<union> fs_dirs (w_fs w)"
    using pathOf_not_dir [OF ok, of key] prefixes_dir [of "pathOf key" key]
    by (cases "length key < 2") (auto simp: pathOf_def)
  note ne = temp_not_pathOf [OF t key]
  define w1 where "w1 = (rest w)\<lparr>w_fs := (w_fs w)\<lparr>fs_dirs := set (prefixes ?dir) \<union> fs_dirs (w_fs w)\<rparr>\<rparr>"
  have mk: "os_MkdirAll ?dir w = (Inr (), w1)"
    using noprefix calm by (simp add: os_MkdirAll_def w1_def)
  have calm1: "all_calm w1" using calm by (simp add: w1_def)
  have ct: "os_CreateTemp ?dir ''.tmp-'' w1 = (Inr ?tmp, put_file ?tmp [] (rest (rest w1)))"
  proof -
    have "pick_temp 10000 ?dir ''.tmp-'' (rest w1) = (Inr ?tmp, put_file ?tmp [] (rest (rest w1)))"
      using calm1 free nodir by (intro pick_temp_first) (simp_all add: w1_def del: append.simps)
    moreover have "?dir \<in> fs_dirs (w_fs (rest w1))" using dir_in by (simp add: w1_def)
    ultimately show ?thesis using calm1 by (simp add: os_CreateTemp_def)
  qed
  obtain w3 where wt: "write_temp ?tmp (pathOf key) r (put_file ?tmp [] (rest (rest w1))) = (Inr (), w3)"
    using calm1 r path ne
    by (auto simp: write_temp_def io_Copy_def os_Close_def os_Rename_def w1_def)
  obtain v w4 where rm: "os_Remove ?tmp w3 = (v, w4)" by force
  from write_temp_spec [OF wt ne] os_Remove_spec [OF rm]
  have "fs_files (w_fs w4) = (fs_files (w_fs w))(?tmp := None, pathOf key \<mapsto> rd_data r)"
    using free ne by (auto simp: w1_def fun_eq_iff split: sum.splits)
  then have "fs_clean (w_fs w4)"
    using clean key by (auto simp: fs_clean_def validKey_def)
  moreover have "LocalFS_Write key r w = (Inr (), w4)"
    using mk ct wt rm by (simp add: LocalFS_Write_def keyPath_eq key)
  ultimately show ?thesis by blast
qed

subsection \<open>Read, Delete, Exists\<close>

lemma LocalFS_Read_spec:
  assumes "LocalFS_Read key w = (x, w')"
  shows "same_but_env w w'" "x = Inr d \<Longrightarrow> fs_content (w_fs w) key = Some d" "x = Inl e \<Longrightarrow> low_error e"
  using assms
  by (auto simp: LocalFS_Read_def keyPath_eq os_Open_def fs_content_def
      split: if_splits option.splits)

lemma LocalFS_Read_calm:
  assumes "all_calm w" and "validKey key"
  shows "fst (LocalFS_Read key w) = (case fs_content (w_fs w) key of
    None \<Rightarrow> Inl (Sentinel Os_ErrNotExist) | Some d \<Rightarrow> Inr d)"
  using assms by (simp add: LocalFS_Read_def keyPath_eq os_Open_def fs_content_def split: option.split)

lemma LocalFS_Delete_spec:
  assumes "LocalFS_Delete key w = (x, w')"
  shows "same_but_fs w w'" "x = Inl e \<Longrightarrow> low_error e"
    "fs_dirs (w_fs w') = fs_dirs (w_fs w)"
    "fs_files (w_fs w') = (if x = Inr () then (fs_files (w_fs w))(pathOf key := None) else fs_files (w_fs w))"
    "x = Inr u \<Longrightarrow> validKey key"
  using assms
  by (auto simp: LocalFS_Delete_def keyPath_eq os_Remove_def split: if_splits)

lemma LocalFS_Delete_content:
  assumes "LocalFS_Delete key w = (x, w')"
  shows "fs_content (w_fs w') =
    (if x = Inr () then (fs_content (w_fs w))(key := None) else fs_content (w_fs w))"
  by (auto simp: fs_content_def fun_eq_iff LocalFS_Delete_spec(4) [OF assms])

lemma LocalFS_Delete_inv:
  assumes "LocalFS_Delete key w = (x, w')"
  shows "fs_ok (w_fs w) \<Longrightarrow> fs_ok (w_fs w')" and "fs_clean (w_fs w) \<Longrightarrow> fs_clean (w_fs w')"
  using LocalFS_Delete_spec(3,4) [OF assms] by (auto simp: fs_ok_def fs_clean_def)

lemma LocalFS_Delete_calm: "all_calm w \<Longrightarrow> validKey key \<Longrightarrow> fst (LocalFS_Delete key w) = Inr ()"
  by (simp add: LocalFS_Delete_def keyPath_eq os_Remove_def)

lemma LocalFS_Exists_frame: "LocalFS_Exists key w = (x, w') \<Longrightarrow> same_but_env w w'"
  by (auto simp: LocalFS_Exists_def keyPath_eq os_Stat_def split: if_splits)

lemma LocalFS_Exists_calm:
  assumes "all_calm w" and "fs_ok (w_fs w)" and "validKey key"
  shows "fst (LocalFS_Exists key w) = Inr (fs_content (w_fs w) key \<noteq> None)"
  using assms pathOf_not_dir
  by (auto simp: LocalFS_Exists_def keyPath_eq os_Stat_def fs_content_def)

interpretation lfs: file_store LocalFS fs_content validKey fs_ok fs_clean
proof (unfold_locales, goal_cases)
  case (1 k r w x w')
  then show ?case using LocalFS_Write_spec by (simp add: LocalFS_def)
next
  case (8 k r w u w')
  then show ?case
    using LocalFS_Write_spec [of k r w "Inr u" w'] LocalFS_Write_content [of k r w "Inr u" w']
    by (simp add: LocalFS_def)
next
  case (9 k r w e w')
  then show ?case using LocalFS_Write_content [of k r w "Inl e" w'] by (simp add: LocalFS_def)
next
  case (11 k w u w')
  then show ?case using LocalFS_Delete_content [of k w "Inr u" w'] by (simp add: LocalFS_def)
next
  case (12 k w e w')
  then show ?case using LocalFS_Delete_content [of k w "Inl e" w'] by (simp add: LocalFS_def)
next
  case (13 k r w e w')
  then show ?case using LocalFS_Write_spec [of k r w "Inl e" w'] by (simp add: LocalFS_def)
next
  case (20 F k d)
  then show ?case by (simp add: fs_content_def split: if_splits)
qed (auto simp: LocalFS_def LocalFS_Exists_calm intro: LocalFS_Delete_spec(1) LocalFS_Read_spec(1) LocalFS_Exists_frame
    LocalFS_Write_inv LocalFS_Delete_inv LocalFS_Read_spec(2,3) LocalFS_Delete_spec(2)
    LocalFS_Write_calm LocalFS_Read_calm LocalFS_Delete_calm)

lemmas LocalFS_sel [simp] =
  backend.select_convs(1) [of LocalFS_Write LocalFS_Read LocalFS_Delete LocalFS_Exists, folded LocalFS_def]
  backend.select_convs(2) [of LocalFS_Write LocalFS_Read LocalFS_Delete LocalFS_Exists, folded LocalFS_def]
  backend.select_convs(3) [of LocalFS_Write LocalFS_Read LocalFS_Delete LocalFS_Exists, folded LocalFS_def]
  backend.select_convs(4) [of LocalFS_Write LocalFS_Read LocalFS_Delete LocalFS_Exists, folded LocalFS_def]

end
