(* ===== verification/Text.thy ===== *)
theory Text
  imports FileStore
begin

text \<open>
  The text routines the handlers use. From the standard library: the functions of package
  strings on ASCII letters and blanks, html.EscapeString, decoding UTF-8 in a range loop,
  the formatting verbs of package fmt the pages need, time.RFC3339. From the program:
  htmlEscape and humanSize (internal/handler/bucket.go).
\<close>

section \<open>Package strings\<close>

fun TrimLeft :: "char list \<Rightarrow> string \<Rightarrow> string" where
  "TrimLeft cuts s = dropWhile (\<lambda>c. c \<in> set cuts) s"

definition TrimRight :: "char list \<Rightarrow> string \<Rightarrow> string" where
  "TrimRight cuts s = rev (TrimLeft cuts (rev s))"

definition Trim :: "char list \<Rightarrow> string \<Rightarrow> string" where
  "Trim cuts s = TrimRight cuts (TrimLeft cuts s)"

definition blanks :: string where
  "blanks = [CHR 9, CHR 10, CHR 11, CHR 12, CHR 13, CHR '' '']"

definition lower_char :: "char \<Rightarrow> char" where
  "lower_char c = (if CHR ''A'' \<le> c \<and> c \<le> CHR ''Z'' then char_of (of_char c + 32 :: nat) else c)"

definition ToLower :: "string \<Rightarrow> string" where
  "ToLower s = map lower_char s"

definition HasPrefix :: "string \<Rightarrow> string \<Rightarrow> bool" where
  "HasPrefix s p \<longleftrightarrow> prefix p s"

definition TrimPrefix :: "string \<Rightarrow> string \<Rightarrow> string" where
  "TrimPrefix s p = (if prefix p s then drop (length p) s else s)"

text \<open>strings.Split on a one-character separator; strings.Join.\<close>

fun Split :: "char \<Rightarrow> string \<Rightarrow> string list" where
  "Split sep [] = [[]]"
| "Split sep (c # cs) =
     (if c = sep then [] # Split sep cs
      else case Split sep cs of [] \<Rightarrow> [[c]] | w # ws \<Rightarrow> (c # w) # ws)"

fun Join :: "string \<Rightarrow> string list \<Rightarrow> string" where
  "Join sep [] = []"
| "Join sep [w] = w"
| "Join sep (w # v # ws) = w @ sep @ Join sep (v # ws)"

text \<open>strings.Replace(s, old, new, 1) for a one-character old.\<close>

fun replace_first :: "char \<Rightarrow> string \<Rightarrow> string \<Rightarrow> string" where
  "replace_first x y [] = []"
| "replace_first x y (c # cs) = (if c = x then y @ cs else c # replace_first x y cs)"

abbreviation (input) slash :: char where "slash \<equiv> CHR 0x2F"

abbreviation (input) dquote :: char where "dquote \<equiv> CHR 0x22"

abbreviation (input) squote :: char where "squote \<equiv> CHR 0x27"

lemma Split_not_Nil [simp]: "Split sep s \<noteq> []"
  by (induction s) (auto split: list.splits)

lemma Split_plain [simp]: "sep \<notin> set s \<Longrightarrow> Split sep s = [s]"
  by (induction s) auto

lemma Split_append: "sep \<notin> set s \<Longrightarrow> Split sep (s @ sep # t) = s # Split sep t"
  by (induction s) auto

lemma Split_concat: "concat (Split sep s) = filter (\<lambda>c. c \<noteq> sep) s"
  by (induction s) (auto split: list.splits)

lemma set_Split: "w \<in> set (Split sep s) \<Longrightarrow> set w \<subseteq> set s - {sep}"
proof (induction s arbitrary: w)
  case (Cons c cs)
  then show ?case by (cases "Split sep cs"; cases "c = sep") fastforce+
qed simp

lemma Join_Split: "Join [sep] (Split sep s) = s"
proof (induction s)
  case (Cons c cs)
  then show ?case by (cases "([sep], Split sep cs)" rule: Join.cases) auto
qed simp

lemma TrimLeft_id [simp]: "s \<noteq> [] \<Longrightarrow> hd s \<notin> set cuts \<Longrightarrow> TrimLeft cuts s = s"
  by (cases s) simp_all

lemma TrimRight_id [simp]: "s \<noteq> [] \<Longrightarrow> last s \<notin> set cuts \<Longrightarrow> TrimRight cuts s = s"
  using TrimLeft_id [of "rev s" cuts] by (simp add: TrimRight_def hd_rev del: TrimLeft.simps)

lemma TrimRight_Nil [simp]: "TrimRight cuts [] = []"
  by (simp add: TrimRight_def)

lemma TrimRight_all: "set s \<subseteq> set cuts \<Longrightarrow> TrimRight cuts s = []"
  by (auto simp: TrimRight_def dropWhile_eq_Nil_conv)

lemma TrimRight_last: "TrimRight cuts s \<noteq> [] \<Longrightarrow> last (TrimRight cuts s) \<notin> set cuts"
  using hd_dropWhile [of "\<lambda>c. c \<in> set cuts" "rev s"] by (simp add: TrimRight_def last_rev)

section \<open>UTF-8\<close>

text \<open>
  A range loop over a string decodes it: each element is the encoding of one rune, or one byte
  that starts no valid encoding. The admitted second bytes exclude overlong forms, surrogates
  and values above U+10FFFF.
\<close>

definition byte :: "char \<Rightarrow> nat" where
  "byte c = of_char c"

definition cont :: "char \<Rightarrow> bool" where
  "cont c \<longleftrightarrow> 0x80 \<le> byte c \<and> byte c \<le> 0xBF"

definition second_byte :: "char \<Rightarrow> char \<Rightarrow> bool" where
  "second_byte a b \<longleftrightarrow>
     (let x = byte a; y = byte b in
      if x = 0xE0 then 0xA0 \<le> y \<and> y \<le> 0xBF
      else if x = 0xED then 0x80 \<le> y \<and> y \<le> 0x9F
      else if x = 0xF0 then 0x90 \<le> y \<and> y \<le> 0xBF
      else if x = 0xF4 then 0x80 \<le> y \<and> y \<le> 0x8F
      else 0x80 \<le> y \<and> y \<le> 0xBF)"

definition rune_len :: "char \<Rightarrow> nat" where
  "rune_len c =
     (let x = byte c in
      if x < 0x80 then 1
      else if 0xC2 \<le> x \<and> x \<le> 0xDF then 2
      else if 0xE0 \<le> x \<and> x \<le> 0xEF then 3
      else if 0xF0 \<le> x \<and> x \<le> 0xF4 then 4 else 0)"

text \<open>The number of bytes of the valid encoding at the head of a string; 0 when there is none.\<close>

definition rune_at :: "string \<Rightarrow> nat" where
  "rune_at s =
     (case s of
        [] \<Rightarrow> 0
      | a # t \<Rightarrow>
          (let n = rune_len a in
           if n \<le> 1 then n
           else if length t + 1 < n then 0
           else if second_byte a (hd t) \<and> list_all cont (take (n - 2) (tl t)) then n else 0))"

datatype rune = Rune string | Invalid char

function runes :: "string \<Rightarrow> rune list" where
  "runes [] = []"
| "runes (c # cs) =
     (if rune_at (c # cs) = 0 then Invalid c # runes cs
      else Rune (take (rune_at (c # cs)) (c # cs)) # runes (drop (rune_at (c # cs)) (c # cs)))"
  by pat_completeness auto
termination by (relation "measure length") auto

declare runes.simps(2) [simp del]

fun rune_bytes :: "rune \<Rightarrow> string" where
  "rune_bytes (Rune s) = s"
| "rune_bytes (Invalid c) = [c]"

fun is_valid_rune :: "rune \<Rightarrow> bool" where
  "is_valid_rune (Rune s) = True"
| "is_valid_rune (Invalid c) = False"

definition utf8_valid :: "string \<Rightarrow> bool" where
  "utf8_valid s \<longleftrightarrow> list_all is_valid_rune (runes s)"

lemma runes_concat: "concat (map rune_bytes (runes s)) = s"
  by (induction s rule: runes.induct) (simp_all add: runes.simps)

lemma rune_at_ascii [simp]: "byte c < 0x80 \<Longrightarrow> rune_at (c # cs) = Suc 0"
  by (simp add: rune_at_def rune_len_def)

lemma runes_ascii [simp]: "byte c < 0x80 \<Longrightarrow> runes (c # cs) = Rune [c] # runes cs"
  by (simp add: runes.simps)

text \<open>A rune is one ASCII byte or a sequence of bytes none of which is ASCII.\<close>

lemma rune_shape:
  assumes "Rune r \<in> set (runes s)"
  shows "(\<exists>c. r = [c] \<and> byte c < 0x80) \<or> list_all (\<lambda>c. 0x80 \<le> byte c) r \<and> 2 \<le> length r"
  using assms
proof (induction s rule: runes.induct)
  case 1
  then show ?case by simp
next
  case (2 c cs)
  let ?n = "rune_at (c # cs)"
  consider (rest) "?n = 0" "Rune r \<in> set (runes cs)" | (here) "?n \<noteq> 0" "r = take ?n (c # cs)"
    | (later) "?n \<noteq> 0" "Rune r \<in> set (runes (drop ?n (c # cs)))"
    using "2.prems" by (auto simp: runes.simps(2) [of c cs] split: if_splits)
  then show ?case
  proof cases
    case here
    show ?thesis
    proof (cases "byte c < 0x80")
      case True
      with here show ?thesis by simp
    next
      case False
      with here(1) have "?n = rune_len c" "2 \<le> rune_len c" "rune_len c \<le> length cs + 1"
        "second_byte c (hd cs)" "list_all cont (take (rune_len c - 2) (tl cs))"
        by (auto simp: rune_at_def rune_len_def Let_def Suc_le_eq not_less split: if_splits)
      moreover from this(2,3) obtain b ds where "cs = b # ds" by (cases cs) auto
      moreover have "second_byte c b \<Longrightarrow> 0x80 \<le> byte b"
        by (auto simp: second_byte_def Let_def split: if_splits)
      ultimately show ?thesis
        using here(2) False
        by (auto simp: take_Cons numeral_2_eq_2 cont_def list_all_iff split: nat.split)
    qed
  qed (use 2 in blast)+
qed

section \<open>Escaping\<close>

text \<open>html.EscapeString replaces the five characters that mean something in HTML, byte by byte.\<close>

definition escape_char :: "char \<Rightarrow> string" where
  "escape_char c =
     (if c = CHR ''&'' then ''&amp;''
      else if c = squote then ''&#39;''
      else if c = CHR ''<'' then ''&lt;''
      else if c = CHR ''>'' then ''&gt;''
      else if c = dquote then ''&#34;''
      else [c])"

definition EscapeString :: "string \<Rightarrow> string" where
  "EscapeString s = concat (map escape_char s)"

text \<open>The program's own htmlEscape works on runes and writes U+FFFD for an invalid byte.\<close>

definition replacement_char :: string where
  "replacement_char = [CHR 0xEF, CHR 0xBF, CHR 0xBD]"

definition htmlEscape :: "string \<Rightarrow> string" where
  "htmlEscape s = concat (map (\<lambda>r.
     if r = Rune ''&'' then ''&amp;''
     else if r = Rune ''<'' then ''&lt;''
     else if r = Rune ''>'' then ''&gt;''
     else if r = Rune [dquote] then ''&#34;''
     else if r = Rune [squote] then ''&#39;''
     else case r of Rune bs \<Rightarrow> bs | Invalid b \<Rightarrow> replacement_char) (runes s))"

text \<open>The characters that can open or close a tag or an attribute value.\<close>

definition markup :: "char \<Rightarrow> bool" where
  "markup c \<longleftrightarrow> c = CHR ''<'' \<or> c = CHR ''>'' \<or> c = dquote \<or> c = squote"

definition skeleton :: "string \<Rightarrow> string" where
  "skeleton s = filter markup s"

lemma skeleton_append [simp]: "skeleton (s @ t) = skeleton s @ skeleton t"
  by (simp add: skeleton_def)

lemma skeleton_Nil [simp]: "skeleton [] = []"
  by (simp add: skeleton_def)

lemma skeleton_Cons: "skeleton (c # s) = (if markup c then c # skeleton s else skeleton s)"
  by (simp add: skeleton_def)

lemma skeleton_concat [simp]: "skeleton (concat ss) = concat (map skeleton ss)"
  by (simp add: skeleton_def [abs_def] filter_concat)

lemma skeleton_escape_char: "skeleton (escape_char c) = []"
  by (simp add: escape_char_def skeleton_def markup_def)

lemma skeleton_EscapeString [simp]: "skeleton (EscapeString s) = []"
  by (simp add: EscapeString_def skeleton_escape_char)

lemma markup_ascii: "markup c \<Longrightarrow> byte c < 0x80"
  by (auto simp: markup_def byte_def)

lemma skeleton_no_ascii: "list_all (\<lambda>c. 0x80 \<le> byte c) s \<Longrightarrow> skeleton s = []"
  using markup_ascii by (fastforce simp: skeleton_def list_all_iff filter_empty_conv)

lemma skeleton_htmlEscape [simp]: "skeleton (htmlEscape s) = []"
proof -
  have "skeleton (if r = Rune ''&'' then ''&amp;'' else if r = Rune ''<'' then ''&lt;'' else if r = Rune ''>'' then ''&gt;''
      else if r = Rune [dquote] then ''&#34;'' else if r = Rune [squote] then ''&#39;''
      else case r of Rune bs \<Rightarrow> bs | Invalid b \<Rightarrow> replacement_char) = []" if "r \<in> set (runes s)" for r
  proof (cases r)
    case (Rune bs)
    with that rune_shape [of bs s] skeleton_no_ascii [of bs] show ?thesis
      by (auto simp: skeleton_def markup_def)
  qed (simp add: skeleton_def markup_def replacement_char_def)
  then show ?thesis by (simp add: htmlEscape_def)
qed

text \<open>On valid UTF-8 the two escaping functions agree.\<close>

lemma EscapeString_high: "list_all (\<lambda>c. 0x80 \<le> byte c) s \<Longrightarrow> EscapeString s = s"
proof (induction s)
  case (Cons c cs)
  then have "escape_char c = [c]" by (auto simp: escape_char_def byte_def)
  with Cons show ?case by (simp add: EscapeString_def)
qed (simp add: EscapeString_def)

lemma EscapeString_concat: "EscapeString (concat ss) = concat (map EscapeString ss)"
  by (induction ss) (simp_all add: EscapeString_def)

lemma htmlEscape_EscapeString:
  assumes "utf8_valid s"
  shows "htmlEscape s = EscapeString s"
proof -
  have "(if r = Rune ''&'' then ''&amp;'' else if r = Rune ''<'' then ''&lt;'' else if r = Rune ''>'' then ''&gt;''
      else if r = Rune [dquote] then ''&#34;'' else if r = Rune [squote] then ''&#39;''
      else case r of Rune bs \<Rightarrow> bs | Invalid b \<Rightarrow> replacement_char) = EscapeString (rune_bytes r)"
    if r: "r \<in> set (runes s)" for r
  proof (cases r)
    case (Rune bs)
    from rune_shape [OF r [unfolded Rune]] show ?thesis
    proof (elim disjE exE conjE)
      fix c assume "bs = [c]"
      with Rune show ?thesis by (simp add: EscapeString_def escape_char_def)
    next
      assume "list_all (\<lambda>c. 0x80 \<le> byte c) bs" "2 \<le> length bs"
      with Rune EscapeString_high [of bs] show ?thesis by auto
    qed
  next
    case (Invalid c)
    with assms r show ?thesis by (auto simp: utf8_valid_def list_all_iff)
  qed
  then have "htmlEscape s = concat (map (\<lambda>r. EscapeString (rune_bytes r)) (runes s))"
    unfolding htmlEscape_def by (intro arg_cong [of _ _ concat] map_cong refl)
  also have "\<dots> = EscapeString (concat (map rune_bytes (runes s)))"
    by (simp add: EscapeString_concat comp_def)
  finally show ?thesis by (simp add: runes_concat)
qed

text \<open>Escaping loses nothing: different texts stay different.\<close>

lemma escape_char_code: "escape_char c @ s = escape_char d @ t \<Longrightarrow> c = d \<and> s = t"
  by (simp add: escape_char_def split: if_splits)

lemma EscapeString_inj: "EscapeString s = EscapeString t \<Longrightarrow> s = t"
proof (induction s arbitrary: t)
  case Nil
  then show ?case by (cases t) (auto simp: EscapeString_def escape_char_def split: if_splits)
next
  case (Cons c cs)
  then obtain d ds where t: "t = d # ds"
    by (cases t) (auto simp: EscapeString_def escape_char_def split: if_splits)
  with Cons escape_char_code [of c "EscapeString cs" d "EscapeString ds"] show ?case
    by (simp add: EscapeString_def)
qed

section \<open>Numbers and times\<close>

definition int_str :: "int \<Rightarrow> string" where
  "int_str n = (if n < 0 then CHR ''-'' # nat_str (nat (- n)) else nat_str (nat n))"

definition pad0 :: "nat \<Rightarrow> int \<Rightarrow> string" where
  "pad0 width n = replicate (width - length (int_str n)) CHR ''0'' @ int_str n"

text \<open>
  The verb for one decimal on n / unit with unit a power of two: the quotient is exact in a
  float64 as long as n is below 2^53, and the conversion rounds to nearest, ties to even.
\<close>

definition round_tenths :: "int \<Rightarrow> int \<Rightarrow> int" where
  "round_tenths n unit =
     (let q = 10 * n div unit; r = 10 * n mod unit in
      if unit < 2 * r \<or> unit = 2 * r \<and> odd q then q + 1 else q)"

definition one_decimal :: "int \<Rightarrow> int \<Rightarrow> string" where
  "one_decimal n unit =
     (let t = round_tenths n unit in int_str (t div 10) @ ''.'' @ int_str (t mod 10))"

definition KB :: int where "KB = 1024"

definition MB :: int where "MB = 1024 * KB"

definition GB :: int where "GB = 1024 * MB"

definition humanSize :: "int \<Rightarrow> string" where
  "humanSize n =
     (if GB \<le> n then one_decimal n GB @ '' GB''
      else if MB \<le> n then one_decimal n MB @ '' MB''
      else if KB \<le> n then one_decimal n KB @ '' KB''
      else int_str n @ '' B'')"

text \<open>The date of a day number (days since 1970-01-01) in the proleptic Gregorian calendar.\<close>

definition civil_date :: "int \<Rightarrow> int \<times> int \<times> int" where
  "civil_date days =
     (let z = days + 719468;
          era = z div 146097;
          doe = z mod 146097;
          yoe = (doe - doe div 1460 + doe div 36524 - doe div 146096) div 365;
          doy = doe - (365 * yoe + yoe div 4 - yoe div 100);
          mp = (5 * doy + 2) div 153;
          d = doy - (153 * mp + 2) div 5 + 1;
          m = (if mp < 10 then mp + 3 else mp - 9)
      in (yoe + 400 * era + (if m \<le> 2 then 1 else 0), m, d))"

text \<open>UTC().Format with the layouts RFC3339 and \<open>2006-01-02 15:04 UTC\<close>.\<close>

definition date_str :: "instant \<Rightarrow> string" where
  "date_str t = (case civil_date (unix t div 86400) of (y, m, d) \<Rightarrow>
     pad0 4 y @ ''-'' @ pad0 2 m @ ''-'' @ pad0 2 d)"

definition RFC3339 :: "instant \<Rightarrow> string" where
  "RFC3339 t = (let s = unix t mod 86400 in
     date_str t @ ''T'' @ pad0 2 (s div 3600) @ '':'' @ pad0 2 (s div 60 mod 60) @ '':'' @
     pad0 2 (s mod 60) @ ''Z'')"

definition minute_stamp :: "instant \<Rightarrow> string" where
  "minute_stamp t = (let s = unix t mod 86400 in
     date_str t @ '' '' @ pad0 2 (s div 3600) @ '':'' @ pad0 2 (s div 60 mod 60) @ '' UTC'')"

text \<open>The rounding is off by at most half a tenth of the unit.\<close>

lemma round_tenths_error:
  assumes "0 < unit"
  shows "2 * \<bar>round_tenths n unit * unit - 10 * n\<bar> \<le> unit"
proof -
  define q r where "q = 10 * n div unit" and "r = 10 * n mod unit"
  then have eq: "10 * n = q * unit + r" and r: "0 \<le> r" "r < unit"
    using assms by simp_all
  have "round_tenths n unit = (if unit < 2 * r \<or> unit = 2 * r \<and> odd q then q + 1 else q)"
    by (simp add: round_tenths_def Let_def q_def r_def)
  then show ?thesis using r unfolding eq by (auto simp: algebra_simps)
qed

lemma nat_str_digits: "set (nat_str n) \<subseteq> {CHR ''0''..CHR ''9''}"
proof (induction n rule: nat_str.induct)
  case (1 n)
  have d: "char_of (48 + k) \<in> {CHR ''0''..CHR ''9''}" if "k < 10" for k :: nat
    using that by (simp add: less_eq_char_def)
  show ?case
  proof (cases "n < 10")
    case True
    with d [of n] show ?thesis by (subst nat_str.simps) simp
  next
    case False
    with 1 d [of "n mod 10"] show ?thesis by (subst nat_str.simps) simp
  qed
qed

lemma skeleton_digits: "set s \<subseteq> {CHR ''0''..CHR ''9''} \<Longrightarrow> skeleton s = []"
  by (fastforce simp: skeleton_def markup_def filter_empty_conv)

lemma skeleton_int_str [simp]: "skeleton (int_str n) = []"
  by (simp add: int_str_def skeleton_digits [OF nat_str_digits] skeleton_Cons markup_def)

lemma skeleton_pad0 [simp]: "skeleton (pad0 k n) = []"
  by (simp add: pad0_def) (simp add: skeleton_def markup_def)

lemma skeleton_times [simp]: "skeleton (RFC3339 t) = []" "skeleton (minute_stamp t) = []"
  by (simp_all add: RFC3339_def minute_stamp_def date_str_def Let_def skeleton_Cons markup_def split: prod.split)

lemma skeleton_humanSize [simp]: "skeleton (humanSize n) = []"
  by (simp add: humanSize_def one_decimal_def Let_def skeleton_Cons markup_def)

section \<open>Package fmt\<close>

text \<open>
  The verb q: strconv.Quote. Which multi-byte runes are printable is a table of the Unicode
  package, a parameter here; ASCII is written out. The text between the quotes never contains
  a bare quote or a line break.
\<close>

definition hex_digit :: "nat \<Rightarrow> char" where
  "hex_digit n = ''0123456789abcdef'' ! (n mod 16)"

fun hex :: "nat \<Rightarrow> nat \<Rightarrow> string" where
  "hex 0 n = []"
| "hex (Suc w) n = hex w (n div 16) @ [hex_digit n]"

definition rune_value :: "string \<Rightarrow> nat" where
  "rune_value r =
     (case r of
        [] \<Rightarrow> 0
      | a # t \<Rightarrow> foldl (\<lambda>v c. 64 * v + byte c mod 64)
          (if length r = 1 then byte a else if length r = 2 then byte a mod 32
           else if length r = 3 then byte a mod 16 else byte a mod 8) t)"

definition printable :: "(string \<Rightarrow> bool) \<Rightarrow> string \<Rightarrow> bool" where
  "printable isPrint r = (case r of [c] \<Rightarrow> 0x20 \<le> byte c \<and> byte c \<le> 0x7E | _ \<Rightarrow> isPrint r)"

definition quote_rune :: "(string \<Rightarrow> bool) \<Rightarrow> rune \<Rightarrow> string" where
  "quote_rune isPrint q =
     (case q of
        Invalid c \<Rightarrow> CHR 92 # ''x'' @ hex 2 (byte c)
      | Rune r \<Rightarrow>
          (if r = [dquote] \<or> r = [CHR 92] then CHR 92 # r
           else if printable isPrint r then r
           else if r = [CHR 7] then CHR 92 # ''a''
           else if r = [CHR 8] then CHR 92 # ''b''
           else if r = [CHR 12] then CHR 92 # ''f''
           else if r = [CHR 10] then CHR 92 # ''n''
           else if r = [CHR 13] then CHR 92 # ''r''
           else if r = [CHR 9] then CHR 92 # ''t''
           else if r = [CHR 11] then CHR 92 # ''v''
           else if rune_value r < 0x20 \<or> rune_value r = 0x7F then CHR 92 # ''x'' @ hex 2 (rune_value r)
           else if rune_value r < 0x10000 then CHR 92 # ''u'' @ hex 4 (rune_value r)
           else CHR 92 # ''U'' @ hex 8 (rune_value r)))"

definition quote_str :: "(string \<Rightarrow> bool) \<Rightarrow> string \<Rightarrow> string" where
  "quote_str isPrint s = dquote # concat (map (quote_rune isPrint) (runes s)) @ [dquote]"

lemma hex_no_control: "c \<in> set (hex w n) \<Longrightarrow> 0x20 \<le> byte c"
proof (induction w arbitrary: n)
  case (Suc w)
  have "hex_digit n \<in> set ''0123456789abcdef''" unfolding hex_digit_def by (rule nth_mem) simp
  then have "0x20 \<le> byte (hex_digit n)" by (auto simp: byte_def)
  with Suc show ?case by auto
qed simp

lemma quote_rune_set:
  assumes "d \<in> set (quote_rune isPrint (Rune r))"
  shows "d \<in> set r \<and> (printable isPrint r \<or> r = [dquote] \<or> r = [CHR 92]) \<or> d \<in> set (CHR 92 # ''abfnrtvxuU'') \<or>
    (\<exists>w n. d \<in> set (hex w n))"
proof -
  consider "r = [dquote] \<or> r = [CHR 92]" | "\<not> (r = [dquote] \<or> r = [CHR 92])" "printable isPrint r"
    | "\<not> (r = [dquote] \<or> r = [CHR 92])" "\<not> printable isPrint r" by blast
  then show ?thesis
  proof cases
    case 1
    then have "quote_rune isPrint (Rune r) = CHR 92 # r" by (simp add: quote_rune_def)
    with assms 1 show ?thesis by auto
  next
    case 2
    then have "quote_rune isPrint (Rune r) = r" by (simp add: quote_rune_def)
    with assms 2 show ?thesis by simp
  next
    case 3
    then have "quote_rune isPrint (Rune r) \<in> {[CHR 92, c] |c. c \<in> set ''abfnrtv''} \<union>
        {CHR 92 # c # hex w n |c w n. c \<in> set ''xuU''}"
      unfolding quote_rune_def by simp blast
    with assms show ?thesis by auto
  qed
qed

lemma quote_no_control:
  assumes "c \<in> set (quote_str isPrint s)"
  shows "0x20 \<le> byte c"
proof -
  have letters: "d \<in> set (CHR 92 # ''abfnrtvxuU'') \<Longrightarrow> 0x20 \<le> byte d" for d
    by (auto simp: byte_def)
  have "0x20 \<le> byte d" if d: "d \<in> set (quote_rune isPrint q)" and q: "q \<in> set (runes s)" for d q
  proof (cases q)
    case (Invalid x)
    with d letters [of d] hex_no_control [of d 2 "byte x"] show ?thesis
      by (auto simp: quote_rune_def)
  next
    case (Rune r)
    with d consider "d \<in> set r" "printable isPrint r \<or> r = [dquote] \<or> r = [CHR 92]"
      | "d \<in> set (CHR 92 # ''abfnrtvxuU'')" | w n where "d \<in> set (hex w n)"
      using quote_rune_set [of d isPrint r] by blast
    then show ?thesis
    proof cases
      case 1
      from rune_shape [OF q [unfolded Rune]] show ?thesis
      proof (elim disjE exE conjE)
        fix x assume "r = [x]"
        with 1 show ?thesis by (auto simp: printable_def byte_def)
      qed (use 1 in \<open>auto simp: list_all_iff\<close>)
    next
      case 2
      then show ?thesis by (rule letters)
    next
      case 3
      then show ?thesis by (rule hex_no_control)
    qed
  qed
  with assms show ?thesis by (auto simp: quote_str_def byte_def)
qed

text \<open>Sprintf for the verbs s and d and the literal percent sign.\<close>

datatype arg = S string | D int

fun arg_str :: "char \<Rightarrow> arg \<Rightarrow> string" where
  "arg_str v (S s) = (if v = CHR ''s'' then s else ''%!'' @ v # ''(string='' @ s @ '')'')"
| "arg_str v (D n) = (if v = CHR ''d'' then int_str n else ''%!'' @ v # ''(int='' @ int_str n @ '')'')"

fun Sprintf :: "string \<Rightarrow> arg list \<Rightarrow> string" where
  "Sprintf [] as = []"
| "Sprintf [c] as = (if c = CHR ''%'' then ''%!(NOVERB)'' else [c])"
| "Sprintf (c # v # cs) as =
     (if c \<noteq> CHR ''%'' then c # Sprintf (v # cs) as
      else if v = CHR ''%'' then v # Sprintf cs as
      else case as of
        [] \<Rightarrow> ''%!'' @ v # ''(MISSING)'' @ Sprintf cs []
      | a # as' \<Rightarrow> arg_str v a @ Sprintf cs as')"

text \<open>
  Two argument lists with the same markup characters, position by position, give outputs with
  the same markup characters: what is inserted without any never opens or closes a tag.
\<close>

definition same_kind :: "arg \<Rightarrow> arg \<Rightarrow> bool" where
  "same_kind a b \<longleftrightarrow> (case (a, b) of
     (S s, S t) \<Rightarrow> skeleton s = skeleton t | (D m, D n) \<Rightarrow> True | _ \<Rightarrow> False)"

lemma skeleton_arg_str: "same_kind a b \<Longrightarrow> skeleton (arg_str v a) = skeleton (arg_str v b)"
  by (cases a; cases b) (simp_all add: same_kind_def skeleton_Cons)

lemma skeleton_Sprintf:
  assumes "list_all2 same_kind as bs"
  shows "skeleton (Sprintf f as) = skeleton (Sprintf f bs)"
  using assms
proof (induction f as arbitrary: bs rule: Sprintf.induct)
  case (3 c v cs as)
  show ?case
  proof (cases "c = CHR ''%'' \<and> v \<noteq> CHR ''%''")
    case True
    show ?thesis
    proof (cases as)
      case Nil
      with "3.prems" show ?thesis by simp
    next
      case (Cons a as')
      with "3.prems" obtain b bs' where bs: "bs = b # bs'" "same_kind a b" "list_all2 same_kind as' bs'"
        by (auto simp: list_all2_Cons1)
      with True Cons "3.IH"(4) [of a as' bs'] skeleton_arg_str [of a b v] show ?thesis by simp
    qed
  next
    case False
    with "3.prems" "3.IH"(1,2) show ?thesis by (auto simp: skeleton_Cons)
  qed
qed simp_all

end
