(* ===== verification/Templates.thy ===== *)
theory Templates
  imports Text
begin

text \<open>
  The constant texts of package handler (ui.go, html.go and the page literals of file.go,
  paste.go and bucket.go): style sheets, icons, scripts and the formats of the pages, line by
  line as the source has them. A long dash is written as its UTF-8 bytes, a single quote next
  to the end of a literal and a backslash as a one-character list.
\<close>

definition em_dash :: string where
  "em_dash = [CHR 0xE2, CHR 0x80, CHR 0x94]"

fun lines :: "string list \<Rightarrow> string" where
  "lines [] = []"
| "lines [l] = l"
| "lines (l # ls) = l @ CHR 10 # lines ls"

definition picoCSS :: string where
  \<open>picoCSS = ''https://cdn.jsdelivr.net/npm/@picocss/pico@2/css/pico.classless.min.css''\<close>

definition uiCSP :: string where
  \<open>uiCSP = ''default-src 'none'; script-src 'unsafe-inline' https://cdn.jsdelivr.net; style-src 'unsafe-inline' https://cdn.jsdelivr.net; form-action 'self'; connect-src 'self'' @ [squote]\<close>

definition expiryOpts :: string where
  \<open>expiryOpts = lines [
    ''<option value="10m">10 minutes</option>'',
    ''      <option value="1h">1 hour</option>'',
    ''      <option value="6h">6 hours</option>'',
    ''      <option value="1d" selected>1 day</option>'',
    ''      <option value="7d">7 days</option>'',
    ''      <option value="30d">30 days</option>'',
    ''      <option value="90d">90 days</option>'',
    ''      <option value="1y">1 year</option>'',
    ''      <option value="never">Never</option>'']\<close>

definition customCSS :: string where
  \<open>customCSS = lines [
    ''<style>'',
    '':root {'',
    ''  --pbin-radius-lg: 8px;'',
    ''  --pbin-radius-md: 6px;'',
    ''  --pbin-radius-sm: 4px;'',
    ''  --pbin-success-bg: #ecfdf5;'',
    ''  --pbin-success-border: #6ee7b7;'',
    ''  --pbin-success-text: #065f46;'',
    ''  --pbin-error-bg: #fef2f2;'',
    ''  --pbin-error-border: #fca5a5;'',
    ''  --pbin-error-text: #991b1b;'',
    ''  --pbin-drop-border: #cbd5e1;'',
    ''  --pbin-drop-hover-border: #6366f1;'',
    ''  --pbin-drop-hover-bg: #eef2ff;'',
    ''  --pbin-drop-icon: #94a3b8;'',
    ''  --pbin-muted: #64748b;'',
    ''  --pbin-surface: #f8fafc;'',
    ''  --pbin-surface-border: #e2e8f0;'',
    ''}'',
    ''@media(prefers-color-scheme:dark){'',
    '':root {'',
    ''  --pbin-success-bg: #052e16;'',
    ''  --pbin-success-border: #166534;'',
    ''  --pbin-success-text: #86efac;'',
    ''  --pbin-error-bg: #450a0a;'',
    ''  --pbin-error-border: #7f1d1d;'',
    ''  --pbin-error-text: #fca5a5;'',
    ''  --pbin-drop-border: #475569;'',
    ''  --pbin-drop-hover-border: #818cf8;'',
    ''  --pbin-drop-hover-bg: #1e1b4b;'',
    ''  --pbin-drop-icon: #64748b;'',
    ''  --pbin-muted: #94a3b8;'',
    ''  --pbin-surface: #1e293b;'',
    ''  --pbin-surface-border: #334155;'',
    ''}}'',
    ''html,body{margin:0;padding:0;height:100%%}'',
    ''body{display:flex;flex-direction:column;min-height:100vh}'',
    ''.container{max-width:720px;margin:0 auto;padding:0 1.25rem;width:100%%}'',
    ''@media(min-width:1024px){.container{max-width:800px}}'',
    ''@media(max-width:600px){.container{padding:0 1rem}.form-controls{grid-template-columns:1fr}}'',
    ''main.container{flex:1;padding-top:.75rem;padding-bottom:1rem}'',
    ''nav{padding:.5rem 0;border-bottom:1px solid var(--pbin-surface-border)}'',
    ''nav .nav-inner{display:flex;justify-content:space-between;align-items:center;gap:1.5rem;max-width:720px;margin:0 auto;padding:0 1.25rem}'',
    ''@media(min-width:1024px){nav .nav-inner{max-width:800px}}'',
    ''nav .brand{display:flex;align-items:center;gap:.4rem;font-size:1.15rem;font-weight:700;text-decoration:none;color:inherit;letter-spacing:-.02em}'',
    ''nav .brand-logo{width:22px;height:22px}'',
    ''nav .nav-links{display:flex;gap:.25rem;list-style:none;margin:0;padding:0}'',
    ''nav .nav-links a{padding:.35rem .75rem;border-radius:var(--pbin-radius-md);text-decoration:none;font-size:.85rem;font-weight:500;color:var(--pbin-muted);transition:background .15s,color .15s}'',
    ''nav .nav-links a:hover{background:var(--pbin-surface);color:inherit}'',
    ''nav .nav-links a[aria-current="page"]{background:var(--pbin-surface);color:inherit;font-weight:600}'',
    ''footer.site-footer{padding:.75rem 0;border-top:1px solid var(--pbin-surface-border);text-align:center;font-size:.75rem;color:var(--pbin-muted)}'',
    ''h2{font-size:1.15rem;margin:0 0 .75rem}'',
    ''#drop-zone{border:2px dashed var(--pbin-drop-border);border-radius:var(--pbin-radius-lg);padding:1.5rem 1rem;text-align:center;cursor:pointer;transition:border-color .2s,background .2s}'',
    ''#drop-zone:hover{border-color:var(--pbin-drop-hover-border)}'',
    ''#drop-zone.over{border-style:solid;border-color:var(--pbin-drop-hover-border);background:var(--pbin-drop-hover-bg)}'',
    ''#drop-zone .drop-icon{display:block;margin:0 auto .5rem;color:var(--pbin-drop-icon)}'',
    ''#drop-zone .drop-icon svg{width:36px;height:36px}'',
    ''#drop-zone p{margin:0;font-size:.9rem;color:var(--pbin-muted)}'',
    ''#file-list{margin-top:.75rem}'',
    ''#file-list .file-item{display:flex;align-items:center;justify-content:space-between;padding:.4rem .75rem;background:var(--pbin-surface);border:1px solid var(--pbin-surface-border);border-radius:var(--pbin-radius-sm);margin-bottom:.35rem;font-size:.85rem}'',
    ''#file-list .file-item .file-name{font-weight:500;word-break:break-all}'',
    ''#file-list .file-item .file-size{color:var(--pbin-muted);white-space:nowrap;margin-left:.75rem}'',
    ''#file-list .file-item .file-remove{background:none;border:none;color:var(--pbin-error-text);cursor:pointer;padding:0 .25rem;font-size:1.1rem;line-height:1}'',
    ''.form-controls{display:grid;grid-template-columns:1fr 1fr;gap:0 1rem;margin-top:.75rem}'',
    ''.form-controls label{margin-bottom:0;font-size:.9rem}'',
    ''.form-controls .full-width{grid-column:1/-1}'',
    ''button[type=submit]{margin-top:.5rem}'',
    ''.result-card{margin-top:1rem;padding:1rem 1.25rem;background:var(--pbin-success-bg);border:1px solid var(--pbin-success-border);border-radius:var(--pbin-radius-lg)}'',
    ''.result-card .result-title{display:flex;align-items:center;gap:.5rem;margin:0 0 .75rem;font-size:.95rem;color:var(--pbin-success-text);font-weight:600}'',
    ''.result-card .result-title svg{width:18px;height:18px;flex-shrink:0}'',
    ''.url-group{margin-bottom:.5rem}'',
    ''.url-group .url-label{font-size:.75rem;font-weight:600;text-transform:uppercase;letter-spacing:.05em;color:var(--pbin-success-text);margin-bottom:.25rem}'',
    ''.url-row{display:flex;align-items:center;gap:.5rem}'',
    ''.url-row code{flex:1;font-size:.85rem;word-break:break-all;padding:.4rem .6rem;background:rgba(0,0,0,.05);border-radius:var(--pbin-radius-sm);font-family:ui-monospace,monospace}'',
    ''@media(prefers-color-scheme:dark){.url-row code{background:rgba(255,255,255,.08)}}'',
    ''.url-row button[data-copy]{font-size:.75rem;padding:.3rem .65rem;border-radius:var(--pbin-radius-sm);border:1px solid var(--pbin-success-border);background:transparent;color:var(--pbin-success-text);cursor:pointer;white-space:nowrap;font-weight:500;transition:background .15s}'',
    ''.url-row button[data-copy]:hover{background:rgba(0,0,0,.05)}'',
    ''.result-card .result-meta{font-size:.8rem;color:var(--pbin-success-text);margin-top:.5rem}'',
    ''.error-banner{margin-top:1rem;padding:.75rem 1rem;background:var(--pbin-error-bg);border:1px solid var(--pbin-error-border);border-radius:var(--pbin-radius-lg);color:var(--pbin-error-text);display:flex;align-items:center;justify-content:space-between}'',
    ''.error-banner .error-dismiss{background:none;border:none;color:var(--pbin-error-text);cursor:pointer;font-size:1.2rem;padding:0 .25rem;line-height:1;opacity:.7}'',
    ''.error-banner .error-dismiss:hover{opacity:1}'',
    ''.hidden{display:none}'',
    ''</style>'']\<close>

definition serveCSP :: string where
  \<open>serveCSP = ''default-src 'none'; style-src 'unsafe-inline'' @ [squote]\<close>

definition passwordFormCSP :: string where
  \<open>passwordFormCSP = ''default-src 'none'; style-src 'unsafe-inline' https://cdn.jsdelivr.net; form-action 'self'' @ [squote]\<close>

definition infoCSP :: string where
  \<open>infoCSP = ''default-src 'none'; img-src 'self'; style-src 'unsafe-inline' https://cdn.jsdelivr.net; script-src 'unsafe-inline'' @ [squote]\<close>

definition pasteViewCSP_template :: string where
  \<open>pasteViewCSP_template = ''default-src 'none'; script-src 'nonce-%s' https://cdnjs.cloudflare.com; style-src 'unsafe-inline' https://cdn.jsdelivr.net https://cdnjs.cloudflare.com; img-src 'none'' @ [squote]\<close>

definition bucketViewCSP :: string where
  \<open>bucketViewCSP = ''default-src 'none'; style-src 'unsafe-inline' https://cdn.jsdelivr.net; form-action 'self'' @ [squote]\<close>

definition pbinLogo :: string where
  \<open>pbinLogo = ''<svg xmlns="http://www.w3.org/2000/svg" viewBox="0 0 32 32" fill="none" stroke="currentColor" stroke-width="2" stroke-linecap="round" stroke-linejoin="round" class="brand-logo"><rect x="6" y="4" width="20" height="24" rx="3"/><path d="M12 4V2h8v2"/><path d="M12 14h8M12 18h5"/></svg>''\<close>

definition uploadIcon :: string where
  \<open>uploadIcon = ''<span class="drop-icon"><svg xmlns="http://www.w3.org/2000/svg" fill="none" viewBox="0 0 24 24" stroke-width="1.5" stroke="currentColor"><path stroke-linecap="round" stroke-linejoin="round" d="M3 16.5v2.25A2.25 2.25 0 005.25 21h13.5A2.25 2.25 0 0021 18.75V16.5m-13.5-9L12 3m0 0l4.5 4.5M12 3v13.5"/></svg></span>''\<close>

definition checkIcon :: string where
  \<open>checkIcon = ''<svg xmlns="http://www.w3.org/2000/svg" fill="none" viewBox="0 0 24 24" stroke-width="2" stroke="currentColor"><path stroke-linecap="round" stroke-linejoin="round" d="M9 12.75L11.25 15 15 9.75M21 12a9 9 0 11-18 0 9 9 0 0118 0z"/></svg>''\<close>

definition footerHTML :: string where
  \<open>footerHTML = ''<footer class="site-footer"><div class="container">pbin v1.0</div></footer>''\<close>

definition sharedJS :: string where
  \<open>sharedJS = lines [
    [],
    ''function copyText(text){'',
    ''  if(navigator.clipboard&&navigator.clipboard.writeText){'',
    ''    navigator.clipboard.writeText(text).catch(function(){fallbackCopy(text);});'',
    ''  } else {fallbackCopy(text);}'',
    ''}'',
    ''function fallbackCopy(text){'',
    ''  var ta=document.createElement('textarea');'',
    ''  ta.value=text;ta.style.position='fixed';ta.style.opacity='0';'',
    ''  document.body.appendChild(ta);ta.select();'',
    ''  try{document.execCommand('copy');}catch(e){}'',
    ''  document.body.removeChild(ta);'',
    ''}'',
    ''function initCopyButtons(){'',
    ''  document.querySelectorAll('[data-copy]').forEach(function(btn){'',
    ''    if(btn._copyBound) return;'',
    ''    btn._copyBound=true;'',
    ''    btn.addEventListener('click', function(){'',
    ''      copyText(btn.getAttribute('data-copy'));'',
    ''      var orig=btn.textContent;'',
    ''      btn.textContent='Copied!';'',
    ''      setTimeout(function(){btn.textContent=orig;},1500);'',
    ''    });'',
    ''  });'',
    ''}'',
    []]\<close>

definition pageHead_template :: string where
  \<open>pageHead_template = lines [
    ''<!DOCTYPE html>'',
    ''<html lang="en">'',
    ''<head>'',
    ''<meta charset="utf-8">'',
    ''<meta name="viewport" content="width=device-width, initial-scale=1">'',
    ''<meta name="theme-color" content="#6366f1">'',
    ''<title>%s</title>'',
    ''<meta http-equiv="Content-Security-Policy" content="%s">'',
    ''<link rel="stylesheet" href="%s">'',
    ''%s'',
    ''%s'',
    ''</head>'']\<close>

definition navBar_template :: string where
  \<open>navBar_template = lines [
    ''<nav>'',
    ''  <div class="nav-inner">'',
    ''    <a class="brand" href="/">%spbin</a>'',
    ''    <ul class="nav-links">'',
    ''      <li><a href="/"%s>Upload</a></li>'',
    ''      <li><a href="/paste"%s>Paste</a></li>'',
    ''    </ul>'',
    ''  </div>'',
    ''</nav>'']\<close>

definition home_markup :: string where
  \<open>home_markup = lines [
    ''<!DOCTYPE html>'',
    ''<html lang="en">'',
    ''<head>'',
    ''<meta charset="utf-8">'',
    ''<meta name="viewport" content="width=device-width, initial-scale=1">'',
    ''<title>pbin '' @ em_dash @ '' Upload</title>'',
    ''<link rel="stylesheet" href="%s">'',
    ''%s'',
    ''</head>'',
    ''<body>'',
    ''%s'',
    ''<main class="container">'',
    ''<form id="upload-form">'',
    ''  <div id="drop-zone">'',
    ''    %s'',
    ''    <p>Drop files here or click to select</p>'',
    ''    <input type="file" id="file-input" name="file" multiple style="display:none">'',
    ''  </div>'',
    ''  <div id="file-list"></div>'',
    ''  <div class="form-controls">'',
    ''    <label for="expiry">Expiry'',
    ''      <select id="expiry" name="expiry">%s</select>'',
    ''    </label>'',
    ''    <label for="password">Password (optional)'',
    ''      <input type="password" id="password" name="password" placeholder="Leave blank for no password">'',
    ''    </label>'',
    ''    <label class="full-width">'',
    ''      <input type="checkbox" id="one-use" name="one_use" value="1">'',
    ''      One-use (disappears after first download)'',
    ''    </label>'',
    ''  </div>'',
    ''  <button type="submit">Upload</button>'',
    ''</form>'',
    ''<div id="result" class="result-card hidden">'',
    ''  <p class="result-title">%s<span id="result-heading">Uploaded!</span></p>'',
    ''  <div class="result-meta" id="file-count-info" style="display:none"></div>'',
    ''  <div class="url-group">'',
    ''    <div class="url-label">Share URL</div>'',
    ''    <div class="url-row"><code id="share-url"></code><button data-copy="">Copy</button></div>'',
    ''  </div>'',
    ''  <div id="embed-codes" style="display:none">'',
    ''    <div class="url-group"><div class="url-label">HTML</div><div class="url-row"><code id="embed-html"></code><button data-copy="">Copy</button></div></div>'',
    ''    <div class="url-group"><div class="url-label">BBCode</div><div class="url-row"><code id="embed-bbcode"></code><button data-copy="">Copy</button></div></div>'',
    ''    <div class="url-group"><div class="url-label">Markdown</div><div class="url-row"><code id="embed-md"></code><button data-copy="">Copy</button></div></div>'',
    ''    <div class="url-group"><div class="url-label">Direct Link</div><div class="url-row"><code id="embed-direct"></code><button data-copy="">Copy</button></div></div>'',
    ''  </div>'',
    ''  <div class="url-group">'',
    ''    <div class="url-label">Delete URL</div>'',
    ''    <div class="url-row"><code id="delete-url"></code><button data-copy="">Copy</button></div>'',
    ''  </div>'',
    ''  <div class="result-meta" id="expiry-info"></div>'',
    ''</div>'',
    ''<div id="error-msg" class="error-banner hidden"><span></span><button class="error-dismiss" onclick="this.parentElement.classList.add('hidden')">&times;</button></div>'',
    ''</main>'',
    ''%s'']\<close>

definition home_script :: string where
  \<open>home_script = lines [
    ''<script>'',
    ''(function(){'',
    ''  var dropZone = document.getElementById('drop-zone');'',
    ''  var fileInput = document.getElementById('file-input');'',
    ''  var fileList = document.getElementById('file-list');'',
    ''  var selectedFiles = [];'',
    [],
    ''  dropZone.addEventListener('click', function(){ fileInput.click(); });'',
    ''  dropZone.addEventListener('dragover', function(e){ e.preventDefault(); dropZone.classList.add('over'); });'',
    ''  dropZone.addEventListener('dragleave', function(){ dropZone.classList.remove('over'); });'',
    ''  dropZone.addEventListener('drop', function(e){'',
    ''    e.preventDefault();'',
    ''    dropZone.classList.remove('over');'',
    ''    selectedFiles = Array.from(e.dataTransfer.files);'',
    ''    renderFileList();'',
    ''  });'',
    ''  fileInput.addEventListener('change', function(){'',
    ''    selectedFiles = Array.from(fileInput.files);'',
    ''    renderFileList();'',
    ''  });'',
    [],
    ''  function renderFileList(){'',
    ''    if(selectedFiles.length === 0){ fileList.innerHTML = '' @ [squote, squote] @ ''; return; }'',
    ''    var html = '' @ [squote, squote] @ '';'',
    ''    selectedFiles.forEach(function(f, i){'',
    ''      html += '<div class="file-item"><span class="file-name">'+escapeHtml(f.name)+'</span><span class="file-size">'+humanSize(f.size)+'</span><button class="file-remove" data-idx="'+i+'" type="button">&times;</button></div>';'',
    ''    });'',
    ''    fileList.innerHTML = html;'',
    ''    fileList.querySelectorAll('.file-remove').forEach(function(btn){'',
    ''      btn.addEventListener('click', function(){'',
    ''        selectedFiles.splice(parseInt(btn.getAttribute('data-idx')),1);'',
    ''        renderFileList();'',
    ''      });'',
    ''    });'',
    ''  }'',
    [],
    ''  function escapeHtml(s){return s.replace(/&/g,'&amp;').replace(/</g,'&lt;').replace(/>/g,'&gt;').replace(/"/g,'&quot;');}'',
    ''  function humanSize(n){'',
    ''    if(n>=1073741824) return (n/1073741824).toFixed(1)+' GB';'',
    ''    if(n>=1048576) return (n/1048576).toFixed(1)+' MB';'',
    ''    if(n>=1024) return (n/1024).toFixed(1)+' KB';'',
    ''    return n+' B';'',
    ''  }'',
    [],
    ''  document.getElementById('upload-form').addEventListener('submit', function(e){'',
    ''    e.preventDefault();'',
    ''    var form = e.target;'',
    ''    if(selectedFiles.length === 0){'',
    ''      showError('Please select at least one file.');'',
    ''      return;'',
    ''    }'',
    [],
    ''    var isBucket = selectedFiles.length > 1;'',
    ''    var fd = new FormData();'',
    ''    if(isBucket){'',
    ''      selectedFiles.forEach(function(f){ fd.append('file', f); });'',
    ''    } else {'',
    ''      fd.append('file', selectedFiles[0]);'',
    ''    }'',
    ''    fd.append('expiry', form.expiry.value);'',
    ''    fd.append('password', form.password.value);'',
    ''    fd.append('one_use', form['one_use'].checked ? '1' : '0');'',
    [],
    ''    var btn = form.querySelector('button[type=submit]');'',
    ''    btn.setAttribute('aria-busy','true');'',
    ''    btn.disabled = true;'',
    [],
    ''    var url = isBucket ? '/api/upload?type=bucket' : '/api/upload';'',
    ''    fetch(url, {method:'POST', body: fd})'',
    ''      .then(function(resp){ return resp.json().then(function(data){ return {status: resp.status, data: data}; }); })'',
    ''      .then(function(r){'',
    ''        btn.removeAttribute('aria-busy');'',
    ''        btn.disabled = false;'',
    ''        if(r.status === 201){'',
    ''          showResult(r.data, isBucket);'',
    ''        } else {'',
    ''          showError(r.data.error || 'Upload failed.');'',
    ''        }'',
    ''      })'',
    ''      .catch(function(){'',
    ''        btn.removeAttribute('aria-busy');'',
    ''        btn.disabled = false;'',
    ''        showError('Network error. Please try again.');'',
    ''      });'',
    ''  });'',
    [],
    ''  function showResult(data, isBucket){'',
    ''    document.getElementById('error-msg').classList.add('hidden');'',
    ''    document.getElementById('result-heading').textContent = isBucket'',
    ''      ? 'Bucket uploaded!'' @ [squote],
    ''      : 'File uploaded!';'',
    ''    var shareEl = document.getElementById('share-url');'',
    ''    var deleteEl = document.getElementById('delete-url');'',
    ''    shareEl.textContent = data.url;'',
    ''    shareEl.nextElementSibling.setAttribute('data-copy', data.url);'',
    ''    deleteEl.textContent = data.delete_url;'',
    ''    deleteEl.nextElementSibling.setAttribute('data-copy', data.delete_url);'',
    ''    document.getElementById('expiry-info').textContent = data.expires_at ? 'Expires: ' + data.expires_at : 'Never expires';'',
    ''    // Bucket: show file count'',
    ''    var countEl = document.getElementById('file-count-info');'',
    ''    if(isBucket && data.file_count){'',
    ''      countEl.textContent = data.file_count + ' file(s) uploaded';'',
    ''      countEl.style.display = '' @ [squote, squote] @ '';'',
    ''    } else {'',
    ''      countEl.style.display = 'none';'',
    ''    }'',
    ''    // Single file image: show embed codes'',
    ''    var embedCodes = document.getElementById('embed-codes');'',
    ''    if(!isBucket && data.is_image){'',
    ''      var fileURL = data.download_url;'',
    ''      var htmlCode = '<img src="' + fileURL + '" alt="image">';'',
    ''      var bbCode = '[img]' + fileURL + '[/img]';'',
    ''      var mdCode = '![](' + fileURL + ')';'',
    ''      setEmbed('embed-html', htmlCode);'',
    ''      setEmbed('embed-bbcode', bbCode);'',
    ''      setEmbed('embed-md', mdCode);'',
    ''      setEmbed('embed-direct', fileURL);'',
    ''      embedCodes.style.display = '' @ [squote, squote] @ '';'',
    ''    } else {'',
    ''      embedCodes.style.display = 'none';'',
    ''    }'',
    ''    document.getElementById('result').classList.remove('hidden');'',
    ''    initCopyButtons();'',
    ''  }'',
    ''  function showError(msg){'',
    ''    document.getElementById('result').classList.add('hidden');'',
    ''    var el = document.getElementById('error-msg');'',
    ''    el.querySelector('span').textContent = msg;'',
    ''    el.classList.remove('hidden');'',
    ''  }'',
    ''  function setEmbed(id, val){'',
    ''    var el = document.getElementById(id);'',
    ''    el.textContent = val;'',
    ''    el.nextElementSibling.setAttribute('data-copy', val);'',
    ''  }'',
    ''  function copyText(text){'',
    ''    if(navigator.clipboard&&navigator.clipboard.writeText){'',
    ''      navigator.clipboard.writeText(text).catch(function(){fallbackCopy(text);});'',
    ''    } else {'',
    ''      fallbackCopy(text);'',
    ''    }'',
    ''  }'',
    ''  function fallbackCopy(text){'',
    ''    var ta=document.createElement('textarea');'',
    ''    ta.value=text;ta.style.position='fixed';ta.style.opacity='0';'',
    ''    document.body.appendChild(ta);ta.select();'',
    ''    try{document.execCommand('copy');}catch(e){}'',
    ''    document.body.removeChild(ta);'',
    ''  }'',
    ''  function initCopyButtons(){'',
    ''    document.querySelectorAll('[data-copy]').forEach(function(btn){'',
    ''      btn.onclick = function(){'',
    ''        copyText(btn.getAttribute('data-copy'));'',
    ''        var orig = btn.textContent;'',
    ''        btn.textContent = 'Copied!';'',
    ''        setTimeout(function(){ btn.textContent = orig; }, 1500);'',
    ''      };'',
    ''    });'',
    ''  }'',
    ''})();'',
    ''</script>'',
    ''</body>'',
    ''</html>'']\<close>

definition home_template :: string where
  \<open>home_template = home_markup @ [CHR 10] @ home_script\<close>

definition newPaste_template :: string where
  \<open>newPaste_template = lines [
    ''<!DOCTYPE html>'',
    ''<html lang="en">'',
    ''<head>'',
    ''<meta charset="utf-8">'',
    ''<meta name="viewport" content="width=device-width, initial-scale=1">'',
    ''<title>pbin '' @ em_dash @ '' New Paste</title>'',
    ''<link rel="stylesheet" href="%s">'',
    ''%s'',
    ''<style>'',
    ''#content{font-family:ui-monospace,SFMono-Regular,Menlo,Monaco,Consolas,monospace;font-size:.85rem;resize:vertical}'',
    ''</style>'',
    ''</head>'',
    ''<body>'',
    ''%s'',
    ''<main class="container">'',
    ''<form id="paste-form">'',
    ''  <textarea id="content" name="content" rows="12" required placeholder="Paste your text here..."></textarea>'',
    ''  <div class="form-controls">'',
    ''    <label for="title">Title (optional)'',
    ''      <input type="text" id="title" name="title" placeholder="Untitled">'',
    ''    </label>'',
    ''    <label for="lang">Language'',
    ''      <select id="lang" name="lang">'',
    ''        <option value="plaintext">Plaintext</option>'',
    ''        <option value="bash">Bash</option>'',
    ''        <option value="c">C</option>'',
    ''        <option value="cpp">C++</option>'',
    ''        <option value="css">CSS</option>'',
    ''        <option value="go">Go</option>'',
    ''        <option value="html">HTML</option>'',
    ''        <option value="java">Java</option>'',
    ''        <option value="javascript">JavaScript</option>'',
    ''        <option value="json">JSON</option>'',
    ''        <option value="markdown">Markdown</option>'',
    ''        <option value="python">Python</option>'',
    ''        <option value="ruby">Ruby</option>'',
    ''        <option value="rust">Rust</option>'',
    ''        <option value="sql">SQL</option>'',
    ''        <option value="typescript">TypeScript</option>'',
    ''        <option value="yaml">YAML</option>'',
    ''      </select>'',
    ''    </label>'',
    ''    <label for="paste-expiry">Expiry'',
    ''      <select id="paste-expiry" name="expiry">%s</select>'',
    ''    </label>'',
    ''    <label for="paste-password">Password (optional)'',
    ''      <input type="password" id="paste-password" name="password" placeholder="Leave blank for no password">'',
    ''    </label>'',
    ''    <label class="full-width">'',
    ''      <input type="checkbox" id="paste-one-use" name="one_use">'',
    ''      One-use (paste disappears after first view)'',
    ''    </label>'',
    ''  </div>'',
    ''  <button type="submit">Create Paste</button>'',
    ''</form>'',
    ''<div id="result" class="result-card hidden">'',
    ''  <p class="result-title">%sPaste created!</p>'',
    ''  <div class="url-group">'',
    ''    <div class="url-label">Share URL</div>'',
    ''    <div class="url-row"><code id="share-url"></code><button data-copy="">Copy</button></div>'',
    ''  </div>'',
    ''  <div class="url-group">'',
    ''    <div class="url-label">Delete URL</div>'',
    ''    <div class="url-row"><code id="delete-url"></code><button data-copy="">Copy</button></div>'',
    ''  </div>'',
    ''  <div class="result-meta" id="expiry-info"></div>'',
    ''</div>'',
    ''<div id="error-msg" class="error-banner hidden"><span></span><button class="error-dismiss" onclick="this.parentElement.classList.add('hidden')">&times;</button></div>'',
    ''</main>'',
    ''%s'',
    ''<script>'',
    ''(function(){'',
    ''  document.getElementById('paste-form').addEventListener('submit', function(e){'',
    ''    e.preventDefault();'',
    ''    var form = e.target;'',
    ''    var payload = {'',
    ''      content: form.content.value,'',
    ''      title: form.title.value,'',
    ''      lang: form.lang.value,'',
    ''      expiry: form.expiry.value,'',
    ''      password: form.password.value,'',
    ''      one_use: form['one_use'].checked'',
    ''    };'',
    ''    var btn = form.querySelector('button[type=submit]');'',
    ''    btn.setAttribute('aria-busy','true');'',
    ''    btn.disabled = true;'',
    [],
    ''    fetch('/api/paste', {'',
    ''      method: 'POST','',
    ''      headers: {'Content-Type': 'application/json'},'',
    ''      body: JSON.stringify(payload)'',
    ''    })'',
    ''      .then(function(resp){ return resp.json().then(function(data){ return {status: resp.status, data: data}; }); })'',
    ''      .then(function(r){'',
    ''        btn.removeAttribute('aria-busy');'',
    ''        btn.disabled = false;'',
    ''        if(r.status === 201){'',
    ''          showResult(r.data);'',
    ''        } else {'',
    ''          showError(r.data.error || 'Paste creation failed.');'',
    ''        }'',
    ''      })'',
    ''      .catch(function(){'',
    ''        btn.removeAttribute('aria-busy');'',
    ''        btn.disabled = false;'',
    ''        showError('Network error. Please try again.');'',
    ''      });'',
    ''  });'',
    [],
    ''  function showResult(data){'',
    ''    document.getElementById('error-msg').classList.add('hidden');'',
    ''    var shareEl = document.getElementById('share-url');'',
    ''    var deleteEl = document.getElementById('delete-url');'',
    ''    shareEl.textContent = data.url;'',
    ''    shareEl.nextElementSibling.setAttribute('data-copy', data.url);'',
    ''    deleteEl.textContent = data.delete_url;'',
    ''    deleteEl.nextElementSibling.setAttribute('data-copy', data.delete_url);'',
    ''    document.getElementById('expiry-info').textContent = data.expires_at ? 'Expires: ' + data.expires_at : 'Never expires';'',
    ''    document.getElementById('result').classList.remove('hidden');'',
    ''    initCopyButtons();'',
    ''  }'',
    ''  function showError(msg){'',
    ''    document.getElementById('result').classList.add('hidden');'',
    ''    var el = document.getElementById('error-msg');'',
    ''    el.querySelector('span').textContent = msg;'',
    ''    el.classList.remove('hidden');'',
    ''  }'',
    ''  function copyText(text){'',
    ''    if(navigator.clipboard&&navigator.clipboard.writeText){'',
    ''      navigator.clipboard.writeText(text).catch(function(){fallbackCopy(text);});'',
    ''    } else {'',
    ''      fallbackCopy(text);'',
    ''    }'',
    ''  }'',
    ''  function fallbackCopy(text){'',
    ''    var ta=document.createElement('textarea');'',
    ''    ta.value=text;ta.style.position='fixed';ta.style.opacity='0';'',
    ''    document.body.appendChild(ta);ta.select();'',
    ''    try{document.execCommand('copy');}catch(e){}'',
    ''    document.body.removeChild(ta);'',
    ''  }'',
    ''  function initCopyButtons(){'',
    ''    document.querySelectorAll('[data-copy]').forEach(function(btn){'',
    ''      btn.onclick = function(){'',
    ''        copyText(btn.getAttribute('data-copy'));'',
    ''        var orig = btn.textContent;'',
    ''        btn.textContent = 'Copied!';'',
    ''        setTimeout(function(){ btn.textContent = orig; }, 1500);'',
    ''      };'',
    ''    });'',
    ''  }'',
    ''})();'',
    ''</script>'',
    ''</body>'',
    ''</html>'']\<close>

definition passwordForm_template :: string where
  \<open>passwordForm_template = lines [
    ''<!DOCTYPE html>'',
    ''<html lang="en">'',
    ''<head>'',
    ''<meta charset="utf-8">'',
    ''<meta name="viewport" content="width=device-width, initial-scale=1">'',
    ''<title>Password Required '' @ em_dash @ '' pbin</title>'',
    ''<link rel="stylesheet" href="%s">'',
    ''%s'',
    ''<style>'',
    ''.pw-card{max-width:420px;margin:3rem auto;padding:2rem;background:var(--pbin-surface);border:1px solid var(--pbin-surface-border);border-radius:var(--pbin-radius-lg)}'',
    ''.pw-card h2{margin-top:0;font-size:1.25rem}'',
    ''.pw-card p{color:var(--pbin-muted);font-size:.9rem}'',
    ''.pw-icon{display:block;margin:0 auto 1rem;text-align:center;color:var(--pbin-muted)}'',
    ''.pw-icon svg{width:40px;height:40px}'',
    ''</style>'',
    ''</head>'',
    ''<body>'',
    ''%s'',
    ''<main class="container">'',
    ''<div class="pw-card">'',
    ''  <div class="pw-icon"><svg xmlns="http://www.w3.org/2000/svg" fill="none" viewBox="0 0 24 24" stroke-width="1.5" stroke="currentColor"><path stroke-linecap="round" stroke-linejoin="round" d="M16.5 10.5V6.75a4.5 4.5 0 10-9 0v3.75m-.75 11.25h10.5a2.25 2.25 0 002.25-2.25v-6.75a2.25 2.25 0 00-2.25-2.25H6.75a2.25 2.25 0 00-2.25 2.25v6.75a2.25 2.25 0 002.25 2.25z"/></svg></div>'',
    ''  <h2>Password Required</h2>'',
    ''  <p>This content is password protected. Enter the password to continue.</p>'',
    ''  <form method="GET" action="/%s">'',
    ''    <label for="pw">Password'',
    ''      <input id="pw" type="password" name="password" required autofocus placeholder="Enter password">'',
    ''    </label>'',
    ''    <button type="submit">Continue</button>'',
    ''  </form>'',
    ''</div>'',
    ''</main>'',
    ''%s'',
    ''</body>'',
    ''</html>'']\<close>

definition info_template :: string where
  \<open>info_template = lines [
    ''<!DOCTYPE html>'',
    ''<html lang="en">'',
    ''<head>'',
    ''<meta charset="utf-8">'',
    ''<meta name="viewport" content="width=device-width, initial-scale=1">'',
    ''<title>%s '' @ em_dash @ '' pbin</title>'',
    ''<link rel="stylesheet" href="%s">'',
    ''%s'',
    ''<style>'',
    ''.preview-img{max-width:100%%;border:1px solid var(--pbin-surface-border);border-radius:var(--pbin-radius-lg);margin-bottom:1.5rem}'',
    ''.file-title{word-break:break-all}'',
    ''.file-meta{display:flex;flex-wrap:wrap;align-items:center;gap:.5rem 1rem;padding:.6rem 1rem;background:var(--pbin-surface);border:1px solid var(--pbin-surface-border);border-radius:var(--pbin-radius-md);font-size:.85rem;color:var(--pbin-muted);margin-bottom:1.5rem}'',
    ''.file-meta .meta-sep{width:1px;height:1rem;background:var(--pbin-surface-border)}'',
    ''.btn-download{display:inline-flex;align-items:center;gap:.5rem;padding:.65rem 1.5rem;border-radius:var(--pbin-radius-md);font-size:.95rem;font-weight:500;text-decoration:none;margin-bottom:2rem}'',
    ''.btn-download svg{width:18px;height:18px}'',
    ''.embed-group{margin-bottom:1rem}'',
    ''.embed-group .embed-label{font-size:.75rem;font-weight:600;text-transform:uppercase;letter-spacing:.05em;color:var(--pbin-muted);margin-bottom:.35rem}'',
    ''.embed-group .embed-row{display:flex;align-items:center;gap:.5rem}'',
    ''.embed-group code{flex:1;display:block;background:var(--pbin-surface);border:1px solid var(--pbin-surface-border);padding:.5rem .75rem;border-radius:var(--pbin-radius-sm);font-size:.85rem;word-break:break-all;font-family:ui-monospace,monospace;cursor:pointer}'',
    ''.embed-group button[data-copy]{font-size:.75rem;padding:.35rem .7rem;border-radius:var(--pbin-radius-sm);border:1px solid var(--pbin-surface-border);background:var(--pbin-surface);cursor:pointer;white-space:nowrap;font-weight:500;transition:background .15s;color:inherit}'',
    ''.embed-group button[data-copy]:hover{background:var(--pbin-drop-hover-bg)}'',
    ''</style>'',
    ''</head>'',
    ''<body>'',
    ''%s'',
    ''<main class="container">'',
    ''<h2 class="file-title">%s</h2>'',
    ''%s'',
    ''<div class="file-meta">%s</div>'',
    ''<a href="/%s" class="btn-download contrast" role="button"%s><svg xmlns="http://www.w3.org/2000/svg" fill="none" viewBox="0 0 24 24" stroke-width="2" stroke="currentColor"><path stroke-linecap="round" stroke-linejoin="round" d="M3 16.5v2.25A2.25 2.25 0 005.25 21h13.5A2.25 2.25 0 0021 18.75V16.5M16.5 12L12 16.5m0 0L7.5 12m4.5 4.5V3"/></svg>Download</a>'',
    ''%s'',
    ''</main>'',
    ''%s'',
    ''<script>'',
    ''%s'',
    ''initCopyButtons();'',
    ''</script>'',
    ''</body>'',
    ''</html>'']\<close>

definition pasteView_template :: string where
  \<open>pasteView_template = lines [
    ''<!DOCTYPE html>'',
    ''<html lang="en">'',
    ''<head>'',
    ''<meta charset="utf-8">'',
    ''<meta name="viewport" content="width=device-width, initial-scale=1">'',
    ''<title>%s '' @ em_dash @ '' pbin</title>'',
    ''<link rel="stylesheet" href="%s">'',
    ''<link rel="stylesheet" media="(prefers-color-scheme: light)"'',
    ''      href="https://cdnjs.cloudflare.com/ajax/libs/highlight.js/11.11.1/styles/github.min.css">'',
    ''<link rel="stylesheet" media="(prefers-color-scheme: dark)"'',
    ''      href="https://cdnjs.cloudflare.com/ajax/libs/highlight.js/11.11.1/styles/atom-one-dark.min.css">'',
    ''%s'',
    ''<style nonce="%s">'',
    ''.meta-bar{display:flex;flex-wrap:wrap;gap:.75rem;align-items:center;font-size:.85rem;color:var(--pbin-muted);margin-bottom:.75rem;padding:.6rem 1rem;background:var(--pbin-surface);border-radius:var(--pbin-radius-md);border:1px solid var(--pbin-surface-border)}'',
    ''.meta-item{white-space:nowrap}'',
    ''.meta-lang{font-weight:600;text-transform:uppercase;font-size:.75rem;letter-spacing:.05em}'',
    ''.meta-oneuse{color:#d73a49;font-weight:600}'',
    ''@media(prefers-color-scheme:dark){.meta-oneuse{color:#e06c75}}'',
    ''.actions{display:flex;gap:.5rem;margin-left:auto}'',
    ''.actions a,.actions button{padding:.3rem .7rem;font-size:.8rem;text-decoration:none;border:1px solid var(--pbin-surface-border);border-radius:var(--pbin-radius-sm);background:transparent;color:inherit;cursor:pointer;font-family:inherit;font-weight:500;transition:background .15s}'',
    ''.actions a:hover,.actions button:hover{background:var(--pbin-drop-hover-bg)}'',
    ''.code-wrap{position:relative}'',
    ''pre{margin:0;padding:0;border-radius:var(--pbin-radius-lg);overflow:auto;border:1px solid var(--pbin-surface-border);counter-reset:line;background:transparent !important}'',
    ''pre code.hljs{padding:1rem 1rem 1rem 3.5rem;display:block;line-height:1.6;white-space:pre;font-size:.875rem}'',
    ''code{background:transparent !important}'',
    ''pre code.hljs .line{display:block;position:relative}'',
    ''pre code.hljs .line::before{counter-increment:line;content:counter(line);position:absolute;left:-3rem;width:2.5rem;text-align:right;color:var(--pbin-muted);user-select:none;font-size:.85em}'',
    ''</style>'',
    ''</head>'',
    ''<body>'',
    ''%s'',
    ''<main class="container">'',
    ''%s'',
    ''<div class="meta-bar">'',
    ''  <span class="meta-item meta-lang">%s</span>'',
    ''  <span class="meta-item">%s</span>'',
    ''  %s'',
    ''  <div class="actions">'',
    ''    <button id="copy-btn">Copy</button>'',
    ''    <a href="/%s/raw">Raw</a>'',
    ''  </div>'',
    ''</div>'',
    ''<div class="code-wrap">'',
    ''<pre><code class="language-%s">%s</code></pre>'',
    ''</div>'',
    ''</main>'',
    ''%s'',
    ''<script src="https://cdnjs.cloudflare.com/ajax/libs/highlight.js/11.11.1/highlight.min.js"></script>'',
    ''<script nonce="%s">'',
    ''(function(){'',
    ''  var code = document.querySelector('pre code');'',
    ''  if(code){'',
    ''    var lines = code.textContent.split('' @ [squote] @ [CHR 92] @ ''n');'',
    ''    // Remove trailing empty line from final newline'',
    ''    if(lines.length > 0 && lines[lines.length-1] === '' @ [squote, squote] @ ''){lines.pop();}'',
    ''    code.innerHTML = lines.map(function(l){'',
    ''      return '<span class="line">'+hljs.highlight(l,{language:code.className.replace('language-','' @ [squote, squote] @ '').replace('hljs ','' @ [squote, squote] @ '').split(' ')[0]||'plaintext',ignoreIllegals:true}).value+'</span>';'',
    ''    }).join('' @ [squote] @ [CHR 92] @ ''n');'',
    ''  }'',
    ''  function copyText(text){'',
    ''    if(navigator.clipboard&&navigator.clipboard.writeText){'',
    ''      navigator.clipboard.writeText(text).catch(function(){fallbackCopy(text);});'',
    ''    } else {fallbackCopy(text);}'',
    ''  }'',
    ''  function fallbackCopy(text){'',
    ''    var ta=document.createElement('textarea');'',
    ''    ta.value=text;ta.style.position='fixed';ta.style.opacity='0';'',
    ''    document.body.appendChild(ta);ta.select();'',
    ''    try{document.execCommand('copy');}catch(e){}'',
    ''    document.body.removeChild(ta);'',
    ''  }'',
    ''  var copyBtn = document.getElementById('copy-btn');'',
    ''  if(copyBtn){'',
    ''    copyBtn.addEventListener('click', function(){'',
    ''      copyText(document.querySelector('pre code').textContent);'',
    ''      copyBtn.textContent = 'Copied!';'',
    ''      setTimeout(function(){ copyBtn.textContent = 'Copy'; }, 1500);'',
    ''    });'',
    ''  }'',
    ''})();'',
    ''</script>'',
    ''</body>'',
    ''</html>'']\<close>

definition bucketView_template :: string where
  \<open>bucketView_template = lines [
    ''<!DOCTYPE html>'',
    ''<html lang="en">'',
    ''<head>'',
    ''<meta charset="utf-8">'',
    ''<meta name="viewport" content="width=device-width, initial-scale=1">'',
    ''<title>Bucket %s '' @ em_dash @ '' pbin</title>'',
    ''<link rel="stylesheet" href="%s">'',
    ''%s'',
    ''<style>'',
    ''.bucket-meta{display:flex;align-items:center;gap:1rem;padding:.6rem 1rem;background:var(--pbin-surface);border:1px solid var(--pbin-surface-border);border-radius:var(--pbin-radius-md);font-size:.85rem;color:var(--pbin-muted);margin-bottom:1.5rem}'',
    ''.bucket-meta .meta-sep{width:1px;height:1rem;background:var(--pbin-surface-border)}'',
    ''table{width:100%%;border-collapse:collapse;margin-bottom:1.5rem}'',
    ''thead th{text-align:left;font-size:.8rem;font-weight:600;text-transform:uppercase;letter-spacing:.04em;color:var(--pbin-muted);padding:.6rem .75rem;border-bottom:2px solid var(--pbin-surface-border)}'',
    ''tbody td{padding:.65rem .75rem;border-bottom:1px solid var(--pbin-surface-border);font-size:.9rem;word-break:break-all}'',
    ''.size-cell{white-space:nowrap;color:var(--pbin-muted);width:100px}'',
    ''.action-cell{white-space:nowrap;text-align:right;width:100px}'',
    ''.action-cell a{font-size:.8rem;font-weight:500;text-decoration:none}'',
    ''.btn-zip{display:inline-flex;align-items:center;gap:.5rem;padding:.65rem 1.5rem;border-radius:var(--pbin-radius-md);font-size:.95rem;font-weight:500;text-decoration:none;cursor:pointer}'',
    ''.btn-zip svg{width:18px;height:18px}'',
    ''</style>'',
    ''</head>'',
    ''<body>'',
    ''%s'',
    ''<main class="container">'',
    ''<h2>Bucket <code style="font-size:.85em">%s</code></h2>'',
    ''<div class="bucket-meta">'',
    ''  <span>%d file(s)</span>'',
    ''  <span class="meta-sep"></span>'',
    ''  <span>%s</span>'',
    ''</div>'',
    ''<table>'',
    ''<thead><tr><th>Filename</th><th>Size</th><th></th></tr></thead>'',
    ''<tbody>%s</tbody>'',
    ''</table>'',
    ''<a href="%s" class="btn-zip contrast" role="button"><svg xmlns="http://www.w3.org/2000/svg" fill="none" viewBox="0 0 24 24" stroke-width="2" stroke="currentColor"><path stroke-linecap="round" stroke-linejoin="round" d="M3 16.5v2.25A2.25 2.25 0 005.25 21h13.5A2.25 2.25 0 0021 18.75V16.5M16.5 12L12 16.5m0 0L7.5 12m4.5 4.5V3"/></svg>Download all as ZIP</a>'',
    ''</main>'',
    ''%s'',
    ''</body>'',
    ''</html>'']\<close>

end
