(* ===== verification/Sql.thy ===== *)
theory Sql
  imports World
begin

text \<open>
  The statements the repositories run (package internal/storage), on tables as lists of rows.

  A statement takes one choice of the environment: anything but 0 is a driver error that leaves
  the database unchanged, SQLite rolling a failed statement back. unixepoch() is the clock in
  whole seconds. Rows without ORDER BY come in table order here; no property of the development
  depends on that order.
\<close>

section \<open>Statements\<close>

definition sql_Exec :: "(int \<Rightarrow> db \<Rightarrow> ('a \<times> db) result) \<Rightarrow> world \<Rightarrow> 'a result \<times> world" where
  "sql_Exec stmt w =
     (case next_choice w of (c, w1) \<Rightarrow>
        if c \<noteq> 0 then (Inl (External ''sqlite: exec''), w1)
        else case stmt (unix (w_now w1)) (w_db w1) of
          Inl e \<Rightarrow> (Inl e, w1)
        | Inr (a, d) \<Rightarrow> (Inr a, w1\<lparr>w_db := d\<rparr>))"

definition sql_Query :: "(int \<Rightarrow> db \<Rightarrow> 'a) \<Rightarrow> world \<Rightarrow> 'a result \<times> world" where
  "sql_Query q w =
     (case next_choice w of (c, w1) \<Rightarrow>
        if c \<noteq> 0 then (Inl (External ''sqlite: query''), w1)
        else (Inr (q (unix (w_now w1)) (w_db w1)), w1))"

text \<open>One Scan per row, then Err of the cursor; each can fail, and then no row is returned.\<close>

fun sql_Scan :: "('r \<Rightarrow> 'e) \<Rightarrow> string \<Rightarrow> string \<Rightarrow> 'r list \<Rightarrow> world \<Rightarrow> 'e list result \<times> world" where
  "sql_Scan f scan_ctx rows_ctx [] w =
     (case next_choice w of (c, w1) \<Rightarrow>
        if c \<noteq> 0 then (Inl (Wrap rows_ctx (External ''sqlite: rows'')), w1) else (Inr [], w1))"
| "sql_Scan f scan_ctx rows_ctx (r # rs) w =
     (case next_choice w of (c, w1) \<Rightarrow>
        if c \<noteq> 0 then (Inl (Wrap scan_ctx (External ''sqlite: scan'')), w1)
        else case sql_Scan f scan_ctx rows_ctx rs w1 of
          (Inl e, w2) \<Rightarrow> (Inl e, w2)
        | (Inr es, w2) \<Rightarrow> (Inr (f r # es), w2))"

definition sql_RowsAffected :: "nat \<Rightarrow> world \<Rightarrow> nat result \<times> world" where
  "sql_RowsAffected n w =
     (case next_choice w of (c, w1) \<Rightarrow>
        if c \<noteq> 0 then (Inl (External ''sqlite: rows affected''), w1) else (Inr n, w1))"

section \<open>Table operations\<close>

definition tbl_select :: "('r \<Rightarrow> string) \<Rightarrow> string \<Rightarrow> 'r list \<Rightarrow> 'r option" where
  "tbl_select key k rows = List.find (\<lambda>r. key r = k) rows"

definition tbl_insert :: "('r \<Rightarrow> string) \<Rightarrow> 'r \<Rightarrow> 'r list \<Rightarrow> 'r list result" where
  "tbl_insert key r rows =
     (if list_ex (\<lambda>q. key q = key r) rows
      then Inl (External ''sqlite: UNIQUE constraint failed'') else Inr (rows @ [r]))"

definition tbl_update :: "('r \<Rightarrow> bool) \<Rightarrow> ('r \<Rightarrow> 'r) \<Rightarrow> 'r list \<Rightarrow> nat \<times> 'r list" where
  "tbl_update cond f rows = (length (filter cond rows), map (\<lambda>r. if cond r then f r else r) rows)"

definition tbl_delete :: "('r \<Rightarrow> bool) \<Rightarrow> 'r list \<Rightarrow> 'r list" where
  "tbl_delete cond rows = filter (\<lambda>r. \<not> cond r) rows"

text \<open>The condition of the three ListExpired queries: a value that is not NULL and below the clock.\<close>

definition expired_col :: "int \<Rightarrow> int option \<Rightarrow> bool" where
  "expired_col now c = (case c of None \<Rightarrow> False | Some t \<Rightarrow> t < now)"

lemma expired_col_iff: "expired_col now c \<longleftrightarrow> (\<exists>t. c = Some t \<and> t < now)"
  by (simp add: expired_col_def split: option.split)

section \<open>Tables as maps\<close>

text \<open>
  With a primary key, a table is a finite map from keys to rows, and each statement is the
  corresponding map operation.
\<close>

definition keyed :: "('r \<Rightarrow> string) \<Rightarrow> 'r list \<Rightarrow> bool" where
  "keyed key rows \<longleftrightarrow> distinct (map key rows)"

lemma tbl_select_Some: "keyed key rows \<Longrightarrow> tbl_select key k rows = Some r \<longleftrightarrow> r \<in> set rows \<and> key r = k"
  by (simp add: tbl_select_def keyed_def find_Some_iff_distinct)

lemma tbl_select_None: "tbl_select key k rows = None \<longleftrightarrow> k \<notin> key ` set rows"
  by (simp add: tbl_select_def find_None_iff_key)

lemma tbl_select_key: "tbl_select key k rows = Some r \<Longrightarrow> key r = k"
  by (auto simp: tbl_select_def find_Some_iff)

lemma tbl_insert_Inr:
  assumes "tbl_insert key r rows = Inr rows'"
  shows "tbl_select key (key r) rows = None"
    and "tbl_select key k rows' = (if k = key r then Some r else tbl_select key k rows)"
    and "keyed key rows \<Longrightarrow> keyed key rows'"
proof -
  from assms have new: "key r \<notin> key ` set rows" and rows': "rows' = rows @ [r]"
    by (fastforce simp: tbl_insert_def list_ex_iff split: if_splits)+
  from new show "tbl_select key (key r) rows = None" by (simp add: tbl_select_None)
  with rows' show "tbl_select key k rows' = (if k = key r then Some r else tbl_select key k rows)"
    by (auto simp: tbl_select_def find_append split: option.split)
  from new rows' show "keyed key rows \<Longrightarrow> keyed key rows'" by (auto simp: keyed_def)
qed

lemma tbl_insert_fresh:
  "tbl_select key (key r) rows = None \<Longrightarrow> tbl_insert key r rows = Inr (rows @ [r])"
  by (auto simp: tbl_insert_def tbl_select_None list_ex_iff image_iff)

lemma tbl_insert_Inl: "tbl_insert key r rows = Inl e \<Longrightarrow> low_error e"
  by (auto simp: tbl_insert_def split: if_splits)

lemma tbl_update_select:
  assumes "\<And>r. key (f r) = key r"
  shows "tbl_select key k (snd (tbl_update cond f rows)) =
    map_option (\<lambda>r. if cond r then f r else r) (tbl_select key k rows)"
  using assms by (induction rows) (auto simp: tbl_select_def tbl_update_def)

lemma tbl_update_view:
  assumes "\<And>r. key (f r) = key r" and "\<And>r. v (f r) = v r"
  shows "map_option v (tbl_select key k (snd (tbl_update cond f rows))) =
    map_option v (tbl_select key k rows)"
  using assms by (cases "tbl_select key k rows") (simp_all add: tbl_update_select)

lemma tbl_update_keyed:
  assumes "\<And>r. key (f r) = key r"
  shows "keyed key (snd (tbl_update cond f rows)) = keyed key rows"
proof -
  have "map key (snd (tbl_update cond f rows)) = map key rows"
    using assms by (simp add: tbl_update_def)
  then show ?thesis by (simp add: keyed_def)
qed

lemma tbl_update_count:
  assumes "keyed key rows" and "\<And>r. cond r \<Longrightarrow> key r = k"
  shows "fst (tbl_update cond f rows) =
    (case tbl_select key k rows of None \<Rightarrow> 0 | Some r \<Rightarrow> if cond r then 1 else 0)"
  using assms(1)
proof (induction rows)
  case Nil
  then show ?case by (simp add: tbl_update_def tbl_select_def)
next
  case (Cons r rows)
  have "\<not> cond q" if "key r = k" and "q \<in> set rows" for q
  proof
    assume "cond q"
    with that assms(2) [of q] have "key r \<in> key ` set rows" by (simp add: image_iff) metis
    with Cons.prems show False by (simp add: keyed_def)
  qed
  then have "filter cond rows = []" if "key r = k"
    using that by (simp add: filter_empty_conv)
  moreover have "cond r \<Longrightarrow> key r = k" by (rule assms(2))
  ultimately show ?case
    using Cons by (auto simp: tbl_update_def tbl_select_def keyed_def split: option.splits)
qed

lemma tbl_delete_select:
  "tbl_select key k (tbl_delete (\<lambda>r. key r = s) rows) = (if k = s then None else tbl_select key k rows)"
  by (induction rows) (auto simp: tbl_select_def tbl_delete_def)

lemma tbl_delete_keyed: "keyed key rows \<Longrightarrow> keyed key (tbl_delete cond rows)"
  by (simp add: keyed_def tbl_delete_def distinct_map_filter_key)

section \<open>Statements in the world\<close>

lemma sql_Exec_frame: "sql_Exec stmt w = (x, w') \<Longrightarrow> same_but_db w w'"
  by (auto simp: sql_Exec_def split: if_splits sum.splits)

lemma sql_Query_frame: "sql_Query q w = (x, w') \<Longrightarrow> same_but_env w w'"
  by (auto simp: sql_Query_def split: if_splits)

lemma sql_Query_Inr: "sql_Query q w = (Inr a, w') \<Longrightarrow> a = q (unix (w_now w)) (w_db w)"
  by (auto simp: sql_Query_def split: if_splits)

lemma sql_Query_low: "sql_Query q w = (Inl e, w') \<Longrightarrow> low_error e"
  by (auto simp: sql_Query_def split: if_splits)

lemma sql_Query_calm: "all_calm w \<Longrightarrow> sql_Query q w = (Inr (q (unix (w_now w)) (w_db w)), rest w)"
  by (simp add: sql_Query_def)

lemma sql_Scan_spec:
  "sql_Scan f c1 c2 rs w = (x, w') \<Longrightarrow> same_but_env w w' \<and>
     (case x of Inl e \<Rightarrow> low_error e | Inr es \<Rightarrow> es = map f rs)"
proof (induction rs arbitrary: w w' x)
  case Nil
  then show ?case by (auto split: if_splits)
next
  case (Cons r rs)
  show ?case
  proof (cases "choice w = 0")
    case False
    with Cons.prems show ?thesis by auto
  next
    case True
    obtain y w2 where y: "sql_Scan f c1 c2 rs (rest w) = (y, w2)" by force
    from Cons.IH [OF y] True y Cons.prems show ?thesis
      by (auto split: sum.splits intro: same_but_env_trans [of w "rest w"])
  qed
qed

lemma sql_Scan_calm: "all_calm w \<Longrightarrow> \<exists>w'. sql_Scan f c1 c2 rs w = (Inr (map f rs), w')"
proof (induction rs arbitrary: w)
  case (Cons r rs)
  then obtain w' where "sql_Scan f c1 c2 rs (rest w) = (Inr (map f rs), w')"
    using rest_calm by blast
  with Cons.prems show ?case by simp
qed simp

end
