(* ===== verification/Repository.thy ===== *)
theory Repository
  imports Sql
begin

text \<open>
  The Repository interfaces of the three domain packages share their shape: Create, GetBySlug,
  a Mark that consumes a one-use entity (MarkDownloaded, MarkViewed), Delete and ListExpired.
  They are the record \<open>repository\<close>, and the locale of the same name states what the comments of
  the interfaces promise. bucket.Repository adds AddFile (theory \<open>Bucket_Repo\<close>).
\<close>

record 'e repo =
  rp_Create :: "'e \<Rightarrow> instant option \<Rightarrow> world \<Rightarrow> unit result \<times> world"
  rp_GetBySlug :: "string \<Rightarrow> world \<Rightarrow> 'e result \<times> world"
  rp_Mark :: "string \<Rightarrow> world \<Rightarrow> bool result \<times> world"
  rp_Delete :: "string \<Rightarrow> world \<Rightarrow> unit result \<times> world"
  rp_ListExpired :: "world \<Rightarrow> 'e list result \<times> world"

text \<open>
  \<open>view\<close> is the table as GetBySlug reports it, \<open>used\<close> whether the one-use mark of a row is set,
  \<open>stored\<close> what an entity created with an expiry instant comes back as, \<open>other\<close> the rest of
  the database, which the repository does not touch.
\<close>

locale repository =
  fixes R :: "('e, 'm) repo_scheme"
    and view :: "db \<Rightarrow> string \<Rightarrow> 'e option"
    and used :: "db \<Rightarrow> string \<Rightarrow> bool"
    and slug_of :: "'e \<Rightarrow> string"
    and expires :: "'e \<Rightarrow> instant option"
    and stored :: "'e \<Rightarrow> instant option \<Rightarrow> 'e"
    and ok :: "db \<Rightarrow> bool"
    and other :: "db \<Rightarrow> 'o"
    and NotFound :: sentinel
  assumes Create_frame: "rp_Create R e t w = (x, w') \<Longrightarrow> same_but_db w w' \<and> other (w_db w') = other (w_db w)"
    and Get_frame: "rp_GetBySlug R s w = (y, w') \<Longrightarrow> same_but_env w w'"
    and Mark_frame: "rp_Mark R s w = (b, w') \<Longrightarrow> same_but_db w w' \<and> other (w_db w') = other (w_db w)"
    and Delete_frame: "rp_Delete R s w = (x, w') \<Longrightarrow> same_but_db w w' \<and> other (w_db w') = other (w_db w)"
    and List_frame: "rp_ListExpired R w = (l, w') \<Longrightarrow> same_but_env w w'"
    and Create_inv: "rp_Create R e t w = (x, w') \<Longrightarrow> ok (w_db w) \<Longrightarrow> ok (w_db w')"
    and Mark_inv: "rp_Mark R s w = (b, w') \<Longrightarrow> ok (w_db w) \<Longrightarrow> ok (w_db w')"
    and Delete_inv: "rp_Delete R s w = (x, w') \<Longrightarrow> ok (w_db w) \<Longrightarrow> ok (w_db w')"
    and Create_Inr: "rp_Create R e t w = (Inr u, w') \<Longrightarrow> ok (w_db w) \<Longrightarrow>
      view (w_db w) (slug_of e) = None \<and>
      view (w_db w') = (view (w_db w))(slug_of e \<mapsto> stored e t) \<and>
      used (w_db w') = (used (w_db w))(slug_of e := False)"
    and Create_Inl: "rp_Create R e t w = (Inl er, w') \<Longrightarrow> w_db w' = w_db w \<and> low_error er"
    and Create_calm: "all_calm w \<Longrightarrow> view (w_db w) (slug_of e) = None \<Longrightarrow>
      fst (rp_Create R e t w) = Inr ()"
    and Get_Inr: "rp_GetBySlug R s w = (Inr e, w') \<Longrightarrow> view (w_db w) s = Some e"
    and Get_Inl: "rp_GetBySlug R s w = (Inl er, w') \<Longrightarrow>
      er = Sentinel NotFound \<and> view (w_db w) s = None \<or> low_error er"
    and Get_calm: "all_calm w \<Longrightarrow> fst (rp_GetBySlug R s w) =
      (case view (w_db w) s of None \<Rightarrow> Inl (Sentinel NotFound) | Some e \<Rightarrow> Inr e)"
    and Mark_view: "rp_Mark R s w = (b, w') \<Longrightarrow> view (w_db w') = view (w_db w)"
    and Mark_Inr: "rp_Mark R s w = (Inr c, w') \<Longrightarrow> ok (w_db w) \<Longrightarrow>
      c = (view (w_db w) s \<noteq> None \<and> \<not> used (w_db w) s) \<and>
      used (w_db w') = (used (w_db w))(s := view (w_db w) s \<noteq> None)"
    and Mark_Inl: "rp_Mark R s w = (Inl er, w') \<Longrightarrow> low_error er \<and>
      (used (w_db w') = used (w_db w) \<or> used (w_db w') = (used (w_db w))(s := view (w_db w) s \<noteq> None))"
    and Mark_calm: "all_calm w \<Longrightarrow> ok (w_db w) \<Longrightarrow>
      fst (rp_Mark R s w) = Inr (view (w_db w) s \<noteq> None \<and> \<not> used (w_db w) s)"
    and Delete_Inr: "rp_Delete R s w = (Inr u, w') \<Longrightarrow>
      view (w_db w') = (view (w_db w))(s := None) \<and> used (w_db w') = (used (w_db w))(s := False)"
    and Delete_Inl: "rp_Delete R s w = (Inl er, w') \<Longrightarrow> w_db w' = w_db w \<and> low_error er"
    and Delete_calm: "all_calm w \<Longrightarrow> fst (rp_Delete R s w) = Inr ()"
    and List_Inr: "rp_ListExpired R w = (Inr es, w') \<Longrightarrow> ok (w_db w) \<Longrightarrow>
      distinct (map slug_of es) \<and>
      set es = {e. \<exists>s t. view (w_db w) s = Some e \<and> expires e = Some t \<and> unix t < unix (w_now w)}"
    and List_Inl: "rp_ListExpired R w = (Inl er, w') \<Longrightarrow> low_error er"
    and List_calm: "all_calm w \<Longrightarrow> \<exists>es. fst (rp_ListExpired R w) = Inr es"
    and view_slug: "view d s = Some e \<Longrightarrow> slug_of e = s"
    and view_seconds: "view d s = Some e \<Longrightarrow> expires e = Some i \<Longrightarrow> time_Unix (unix i) = i"
    and used_view: "used d s \<Longrightarrow> view d s \<noteq> None"
    and NotFound_high: "\<not> low_error (Sentinel NotFound)"
begin

lemma create_then_get:
  assumes "rp_Create R e t w = (Inr u, w1)" and "ok (w_db w)" and "all_calm w1"
  shows "fst (rp_GetBySlug R (slug_of e) w1) = Inr (stored e t)"
  using Create_Inr [OF assms(1,2)] Get_calm [OF assms(3), of "slug_of e"] by simp

lemma delete_then_get:
  assumes "rp_Delete R s w = (Inr u, w1)" and "all_calm w1"
  shows "fst (rp_GetBySlug R s w1) = Inl (Sentinel NotFound)"
  using Delete_Inr [OF assms(1)] Get_calm [OF assms(2), of s] by simp

text \<open>
  The contract of Mark: true means the caller set the mark, and from then on, as long as the row
  is not deleted and created again, every further call answers false.
\<close>

lemma mark_sets:
  assumes "rp_Mark R s w = (Inr True, w1)" and "ok (w_db w)"
  shows "\<not> used (w_db w) s \<and> used (w_db w1) s"
  using Mark_Inr [OF assms] by simp

lemma mark_after_used:
  assumes "used (w_db w) s" and "rp_Mark R s w = (Inr c, w1)" and "ok (w_db w)"
  shows "\<not> c"
  using Mark_Inr [OF assms(2,3)] assms(1) by simp

lemma mark_used_mono:
  assumes "rp_Mark R s w = (b, w1)" and "ok (w_db w)" and "used (w_db w) k"
  shows "used (w_db w1) k"
proof (cases b)
  case (Inl e)
  with assms Mark_Inl [of s w e w1] used_view [OF assms(3)] show ?thesis by auto
next
  case (Inr c)
  with assms Mark_Inr [of s w c w1] used_view [OF assms(3)] show ?thesis by auto
qed

lemma create_used_mono:
  assumes "rp_Create R e t w = (x, w1)" and "ok (w_db w)" and "used (w_db w) k"
  shows "used (w_db w1) k"
proof (cases x)
  case (Inl er)
  with assms Create_Inl [of e t w er w1] show ?thesis by simp
next
  case (Inr u)
  with assms Create_Inr [of e t w u w1] used_view [OF assms(3)] show ?thesis by auto
qed

text \<open>
  What ListExpired returns has expired for a reader, too: the reader's test compares the
  stored second with the clock in nanoseconds.
\<close>

lemma listed_is_expired:
  assumes "rp_ListExpired R w = (Inr es, w')" and "ok (w_db w)" and "e \<in> set es"
  shows "\<exists>t. expires e = Some t \<and> time_After (w_now w) t"
proof -
  from List_Inr [OF assms(1,2)] assms(3) obtain s t where "view (w_db w) s = Some e"
    and t: "expires e = Some t" "unix t < unix (w_now w)" by auto
  with view_seconds have "time_Unix (unix t) = t" by blast
  with t unix_less_time_Unix [of "unix t" "w_now w"] show ?thesis
    by (auto simp: time_After_def)
qed

end

section \<open>Columns\<close>

text \<open>nullableString, boolToInt (file_repo.go) and the conversions of the scan.\<close>

definition nullableString :: "string \<Rightarrow> string option" where
  "nullableString s = (if s = [] then None else Some s)"

definition boolToInt :: "bool \<Rightarrow> int" where
  "boolToInt b = (if b then 1 else 0)"

definition coalesce :: "string option \<Rightarrow> string" where
  "coalesce c = (case c of None \<Rightarrow> [] | Some s \<Rightarrow> s)"

lemma coalesce_nullableString [simp]: "coalesce (nullableString s) = s"
  by (simp add: coalesce_def nullableString_def)

lemma boolToInt_eq_1 [simp]: "boolToInt b = 1 \<longleftrightarrow> b"
  by (simp add: boolToInt_def)

text \<open>An instant as the repositories store and report it: cut to the second.\<close>

definition to_second :: "instant \<Rightarrow> instant" where
  "to_second t = time_Unix (unix t)"

lemma to_second_idem [simp]: "to_second (to_second t) = to_second t"
  "to_second (time_Unix u) = time_Unix u"
  by (simp_all add: to_second_def)

lemma to_second_bounds: "t - second < to_second t" "to_second t \<le> t"
  by (simp_all add: to_second_def time_Unix_unix_gt time_Unix_unix_le)

end
