(* ===== verification/Service_Common.thy ===== *)
theory Service_Common
  imports FileStore Repository
begin

text \<open>
  What the three domain services share: how Go code threads errors through a sequence of calls,
  and password hashing with the third-party package golang.org/x/crypto/bcrypt, which is a
  parameter of the model.
\<close>

section \<open>Sequences of fallible calls\<close>

type_synonym 'a io = "world \<Rightarrow> 'a result \<times> world"

text \<open>
  \<open>wrap ctx m k\<close> is the pattern \<open>a, err := m; if err != nil { return fmt.Errorf(ctx, err) }; k(a)\<close>,
  \<open>pure_result\<close> a call that computes a value or an error without touching the world.
\<close>

definition wrap :: "string \<Rightarrow> 'a io \<Rightarrow> ('a \<Rightarrow> 'b io) \<Rightarrow> 'b io" where
  "wrap ctx m k w =
     (case m w of (Inl e, w1) \<Rightarrow> (Inl (Wrap ctx e), w1) | (Inr a, w1) \<Rightarrow> k a w1)"

definition pure_result :: "'a result \<Rightarrow> 'a io" where
  "pure_result r w = (r, w)"

text \<open>\<open>wrap_undo\<close> runs a best-effort cleanup, whose own error is ignored, before it returns the error.\<close>

definition wrap_undo :: "string \<Rightarrow> 'a io \<Rightarrow> (world \<Rightarrow> world) \<Rightarrow> ('a \<Rightarrow> 'b io) \<Rightarrow> 'b io" where
  "wrap_undo ctx m undo k w =
     (case m w of (Inl e, w1) \<Rightarrow> (Inl (Wrap ctx e), undo w1) | (Inr a, w1) \<Rightarrow> k a w1)"

text \<open>The lookup at the start of every read: the sentinel is passed on bare, other errors wrapped.\<close>

definition lookup :: "sentinel \<Rightarrow> string \<Rightarrow> 'a io \<Rightarrow> ('a \<Rightarrow> 'b io) \<Rightarrow> 'b io" where
  "lookup notFound ctx m k w =
     (case m w of
        (Inl e, w1) \<Rightarrow> (if errors_Is e notFound then (Inl (Sentinel notFound), w1) else (Inl (Wrap ctx e), w1))
      | (Inr a, w1) \<Rightarrow> k a w1)"

lemma wrap_eq:
  "wrap c m k w = (x, w') \<longleftrightarrow>
     (\<exists>e. m w = (Inl e, w') \<and> x = Inl (Wrap c e)) \<or> (\<exists>a w1. m w = (Inr a, w1) \<and> k a w1 = (x, w'))"
  by (auto simp: wrap_def split: prod.split sum.split)

lemma wrap_Inr: "wrap c m k w = (Inr b, w') \<longleftrightarrow> (\<exists>a w1. m w = (Inr a, w1) \<and> k a w1 = (Inr b, w'))"
  by (auto simp: wrap_eq)

lemma wrap_Inl: "wrap c m k w = (Inl er, w') \<longleftrightarrow>
    (\<exists>e. m w = (Inl e, w') \<and> er = Wrap c e) \<or> (\<exists>a w1. m w = (Inr a, w1) \<and> k a w1 = (Inl er, w'))"
  by (auto simp: wrap_eq)

lemma wrap_step [simp]:
  "m w = (Inr a, w1) \<Longrightarrow> wrap c m k w = k a w1"
  "m w = (Inl e, w1) \<Longrightarrow> wrap c m k w = (Inl (Wrap c e), w1)"
  by (simp_all add: wrap_def)

lemma wrap_pure [simp]:
  "wrap c (pure_result (Inr a)) k = k a"
  "wrap c (pure_result (Inl e)) k = pure_result (Inl (Wrap c e))"
  by (simp_all add: fun_eq_iff wrap_def pure_result_def)

lemma wrap_undo_eq:
  "wrap_undo c m undo k w = (x, w') \<longleftrightarrow>
     (\<exists>e w1. m w = (Inl e, w1) \<and> x = Inl (Wrap c e) \<and> w' = undo w1) \<or>
     (\<exists>a w1. m w = (Inr a, w1) \<and> k a w1 = (x, w'))"
  by (auto simp: wrap_undo_def split: prod.split sum.split)

lemma wrap_undo_step [simp]:
  "m w = (Inr a, w1) \<Longrightarrow> wrap_undo c m undo k w = k a w1"
  "m w = (Inl e, w1) \<Longrightarrow> wrap_undo c m undo k w = (Inl (Wrap c e), undo w1)"
  by (simp_all add: wrap_undo_def)

lemma pure_result_eq [simp]: "pure_result r w = (x, w') \<longleftrightarrow> x = r \<and> w' = w"
  by (auto simp: pure_result_def)

lemma fst_pure_result [simp]: "fst (pure_result r w) = r" "snd (pure_result r w) = w"
  by (simp_all add: pure_result_def)

lemma lookup_eq:
  "lookup nf c m k w = (x, w') \<longleftrightarrow>
     (\<exists>e. m w = (Inl e, w') \<and> x = Inl (if errors_Is e nf then Sentinel nf else Wrap c e)) \<or>
     (\<exists>a w1. m w = (Inr a, w1) \<and> k a w1 = (x, w'))"
  by (auto simp: lookup_def split: prod.split sum.split)

lemma lookup_step [simp]:
  "m w = (Inr a, w1) \<Longrightarrow> lookup nf c m k w = k a w1"
  "m w = (Inl (Sentinel nf), w1) \<Longrightarrow> lookup nf c m k w = (Inl (Sentinel nf), w1)"
  by (simp_all add: lookup_def)

text \<open>
  \<open>keeps P m\<close>: whatever m returns, the worlds before and after it are related by P. For a
  preorder P this passes through sequences of calls.
\<close>

definition keeps :: "(world \<Rightarrow> world \<Rightarrow> bool) \<Rightarrow> 'a io \<Rightarrow> bool" where
  "keeps P m \<longleftrightarrow> (\<forall>w x w'. m w = (x, w') \<longrightarrow> P w w')"

lemma keepsD: "keeps P m \<Longrightarrow> m w = (x, w') \<Longrightarrow> P w w'"
  by (simp add: keeps_def)

lemma keepsI: "(\<And>w x w'. m w = (x, w') \<Longrightarrow> P w w') \<Longrightarrow> keeps P m"
  by (simp add: keeps_def)

locale preorder_on_worlds =
  fixes P :: "world \<Rightarrow> world \<Rightarrow> bool"
  assumes refl: "P w w" and trans: "P u v \<Longrightarrow> P v w \<Longrightarrow> P u w"
begin

lemma keeps_pure [frame]: "keeps P (pure_result r)"
  by (simp add: keeps_def refl)

lemma keeps_wrap [frame]:
  assumes "keeps P m" and "\<And>a. keeps P (k a)"
  shows "keeps P (wrap c m k)"
  using assms trans unfolding keeps_def wrap_eq by blast

lemma keeps_wrap_undo [frame]:
  assumes "keeps P m" and "\<And>a. keeps P (k a)" and "\<And>w. P w (undo w)"
  shows "keeps P (wrap_undo c m undo k)"
  using assms trans unfolding keeps_def wrap_undo_eq by blast

lemma keeps_lookup [frame]:
  assumes "keeps P m" and "\<And>a. keeps P (k a)"
  shows "keeps P (lookup nf c m k)"
  using assms trans unfolding keeps_def lookup_eq by blast

lemma keeps_if [frame]: "keeps P m \<Longrightarrow> keeps P n \<Longrightarrow> keeps P (\<lambda>w. if b w then m w else n w)"
  by (simp add: keeps_def)

lemma keeps_const [frame]: "keeps P (\<lambda>w. (f w, w))"
  by (simp add: keeps_def refl)

end

text \<open>
  The frame of a service: time stands still, no failure is added, the invariants of its two
  layers are kept and the rest of the database is untouched.
\<close>

definition svc_frame :: "(db \<Rightarrow> 'o) \<Rightarrow> (db \<Rightarrow> bool) \<Rightarrow> (fs \<Rightarrow> bool) \<Rightarrow> world \<Rightarrow> world \<Rightarrow> bool" where
  "svc_frame other dok fok w w' \<longleftrightarrow> w_now w' = w_now w \<and> (all_calm w \<longrightarrow> all_calm w') \<and>
     other (w_db w') = other (w_db w) \<and> (dok (w_db w) \<longrightarrow> dok (w_db w')) \<and> (fok (w_fs w) \<longrightarrow> fok (w_fs w'))"

interpretation svc_frame: preorder_on_worlds "svc_frame other dok fok" for other dok fok
  by unfold_locales (auto simp: svc_frame_def)

lemma svc_frame_env: "same_but_env w w' \<Longrightarrow> svc_frame other dok fok w w'"
  by (auto simp: svc_frame_def dest: same_but_envD)

lemma svc_frame_fs: "same_but_fs w w' \<Longrightarrow> (fok (w_fs w) \<Longrightarrow> fok (w_fs w')) \<Longrightarrow> svc_frame other dok fok w w'"
  by (simp add: svc_frame_def same_but_fs_def)

lemma svc_frame_db:
  "same_but_db w w' \<and> other (w_db w') = other (w_db w) \<Longrightarrow> (dok (w_db w) \<Longrightarrow> dok (w_db w')) \<Longrightarrow>
    svc_frame other dok fok w w'"
  by (simp add: svc_frame_def same_but_db_def)

lemma svc_frame_slug [frame]: "keeps (svc_frame other dok fok) (slug_io n)"
  by (auto simp: keeps_def svc_frame_def dest: slug_io_frame)

text \<open>The lookup on a repository that meets its contract.\<close>

context repository begin

lemma low_not_NotFound: "low_error e \<Longrightarrow> \<not> errors_Is e NotFound"
  using NotFound_high by (auto simp: low_error_def)

lemma lookup_cases:
  assumes "lookup NotFound c (rp_GetBySlug R s) k w = (x, w')"
  obtains (absent) "x = Inl (Sentinel NotFound)" "view (w_db w) s = None" "same_but_env w w'"
  | (failed) er where "x = Inl er" "low_error er" "same_but_env w w'"
  | (found) e w1 where "view (w_db w) s = Some e" "same_but_env w w1" "k e w1 = (x, w')"
proof (cases "rp_GetBySlug R s w")
  case (Pair y w1)
  note env = Get_frame [OF Pair]
  show thesis
  proof (cases y)
    case (Inl er)
    with assms Pair have w': "w' = w1" and x: "x = Inl (if errors_Is er NotFound then Sentinel NotFound else Wrap c er)"
      by (auto simp: lookup_eq)
    from Get_Inl [OF Pair [unfolded Inl]] show thesis
      using absent failed env w' x low_not_NotFound by auto
  next
    case (Inr e)
    with assms Pair env Get_Inr show thesis by (auto simp: lookup_eq intro: found)
  qed
qed

lemma lookup_calm_None:
  assumes "all_calm w" and "view (w_db w) s = None"
  shows "fst (lookup NotFound c (rp_GetBySlug R s) k w) = Inl (Sentinel NotFound)"
  using Get_calm [OF assms(1), of s] assms(2) by (cases "rp_GetBySlug R s w") auto

lemma lookup_calm_Some:
  assumes "all_calm w" and "view (w_db w) s = Some e"
  obtains w1 where "same_but_env w w1" "\<And>c k. lookup NotFound c (rp_GetBySlug R s) k w = k e w1"
  using Get_calm [OF assms(1), of s] Get_frame [of s w] assms(2)
  by (cases "rp_GetBySlug R s w") auto

lemma repo_frames [frame]:
  "keeps (svc_frame other ok fok) (rp_Create R e t)" "keeps (svc_frame other ok fok) (rp_GetBySlug R k)"
  "keeps (svc_frame other ok fok) (rp_Mark R k)" "keeps (svc_frame other ok fok) (rp_Delete R k)"
  "keeps (svc_frame other ok fok) (rp_ListExpired R)"
  by (rule keepsI, ((rule svc_frame_db, erule Create_frame Mark_frame Delete_frame,
      erule (1) Create_inv Mark_inv Delete_inv) | (rule svc_frame_env, erule Get_frame List_frame)))+

text \<open>Consuming: after a successful mark, and whatever else the call reports.\<close>

lemma mark_effect:
  assumes "rp_Mark R s w = (b, w')" and "ok (w_db w)"
  shows "used (w_db w') = used (w_db w) \<or> used (w_db w') = (used (w_db w))(s := view (w_db w) s \<noteq> None)"
  using assms Mark_Inl [of s w _ w'] Mark_Inr [of s w _ w'] by (cases b) auto

end

context file_store begin

lemma store_frames [frame]:
  "keeps (svc_frame other dok ok) (be_Write B k r)" "keeps (svc_frame other dok ok) (be_Delete B k)"
  "keeps (svc_frame other dok ok) (be_Read B k)"
  by (rule keepsI, ((rule svc_frame_fs, erule Write_frame Delete_frame, erule (1) Write_inv Delete_inv)
      | (rule svc_frame_env, erule Read_frame)))+

lemma delete_undo [frame]: "svc_frame other dok ok w (snd (be_Delete B k w))"
  by (rule keepsD [OF store_frames(2) surjective_pairing])

end

section \<open>Constants and times\<close>

definition slugLength :: int where
  "slugLength = 12"

definition deleteSecretLength :: int where
  "deleteSecretLength = 24"

definition bcryptCost :: int where
  "bcryptCost = 12"

text \<open>The absolute expiry of a preset duration: none for 0 (never).\<close>

definition expiry_instant :: "duration \<Rightarrow> instant \<Rightarrow> instant option" where
  "expiry_instant d now = (if 0 < d then Some (now + d) else None)"

text \<open>The test every read makes on the stored expiry.\<close>

definition is_expired :: "instant \<Rightarrow> instant option \<Rightarrow> bool" where
  "is_expired now expiresAt = (case expiresAt of None \<Rightarrow> False | Some t \<Rightarrow> time_After now t)"

lemma is_expired_mono: "is_expired now t \<Longrightarrow> now \<le> later \<Longrightarrow> is_expired later t"
  by (auto simp: is_expired_def time_After_def split: option.splits)

text \<open>
  The stored instant is the computed one cut to the second: from the preset's end on the entity
  is expired, and up to one second before its end it is not.
\<close>

lemma is_expired_stored:
  assumes "0 < d"
  shows "now + d < t \<Longrightarrow> is_expired t (map_option to_second (expiry_instant d now))"
    and "t \<le> now + d - second \<Longrightarrow> \<not> is_expired t (map_option to_second (expiry_instant d now))"
  using assms to_second_bounds [of "now + d"]
  by (auto simp: is_expired_def expiry_instant_def time_After_def)

lemma is_expired_never: "\<not> is_expired t (map_option to_second (expiry_instant 0 now))"
  by (simp add: is_expired_def expiry_instant_def)

section \<open>Passwords\<close>

text \<open>
  GenerateFromPassword takes password, cost and the random source; CompareHashAndPassword takes
  hash and password, and None is its nil error.
\<close>

record bcrypt =
  bc_Generate :: "bytes \<Rightarrow> int \<Rightarrow> 8 word list \<Rightarrow> bytes result \<times> 8 word list"
  bc_Compare :: "bytes \<Rightarrow> bytes \<Rightarrow> error option"

text \<open>
  What the package documents: a generated hash is not empty and compares with its password;
  passwords of at most 72 bytes are accepted as long as 16 random bytes can be read for the
  salt, longer ones are refused; errors are its own.
\<close>

definition bcrypt_ok :: "bcrypt \<Rightarrow> bool" where
  "bcrypt_ok bc \<longleftrightarrow>
     (\<forall>p c bs h bs'. bc_Generate bc p c bs = (Inr h, bs') \<longrightarrow> h \<noteq> [] \<and> bc_Compare bc h p = None) \<and>
     (\<forall>p bs. length p \<le> 72 \<longrightarrow> 16 \<le> length bs \<longrightarrow>
        (\<exists>h. bc_Generate bc p bcryptCost bs = (Inr h, drop 16 bs))) \<and>
     (\<forall>p c bs. 72 < length p \<longrightarrow> (\<exists>e. bc_Generate bc p c bs = (Inl e, bs))) \<and>
     (\<forall>p c bs e bs'. bc_Generate bc p c bs = (Inl e, bs') \<longrightarrow> low_error e)"

definition hash_password :: "bcrypt \<Rightarrow> string \<Rightarrow> string io" where
  "hash_password bc password w =
     (if password = [] then (Inr [], w)
      else case bc_Generate bc password bcryptCost (w_rand w) of
        (r, bs) \<Rightarrow> (r, w\<lparr>w_rand := bs\<rparr>))"

definition check_password :: "bcrypt \<Rightarrow> string \<Rightarrow> string \<Rightarrow> bool" where
  "check_password bc passwordHash passwordAttempt \<longleftrightarrow>
     (if passwordHash \<noteq> [] then
        (if passwordAttempt = [] then False else bc_Compare bc passwordHash passwordAttempt = None)
      else True)"

lemma hash_password_frame:
  assumes "hash_password bc p w = (x, w')"
  shows "w_now w' = w_now w" "w_env w' = w_env w" "w_fs w' = w_fs w" "w_db w' = w_db w"
    "all_calm w' = all_calm w"
  using assms by (auto simp: hash_password_def all_calm_def split: if_splits prod.splits)

lemma bcrypt_okD:
  assumes "bcrypt_ok bc"
  shows "bc_Generate bc p c bs = (Inr h, bs') \<Longrightarrow> h \<noteq> [] \<and> bc_Compare bc h p = None"
    and "length p \<le> 72 \<Longrightarrow> 16 \<le> length bs \<Longrightarrow>
      \<exists>h. bc_Generate bc p bcryptCost bs = (Inr h, drop 16 bs)"
    and "72 < length p \<Longrightarrow> \<exists>e. bc_Generate bc p c bs = (Inl e, bs)"
    and "bc_Generate bc p c bs = (Inl e, bs') \<Longrightarrow> low_error e"
  using assms unfolding bcrypt_ok_def by blast+

lemma hash_password_check:
  assumes ok: "bcrypt_ok bc" and "hash_password bc p w = (Inr h, w')"
  shows "check_password bc h p" "h = [] \<longleftrightarrow> p = []"
  using assms(2) bcrypt_okD(1) [OF ok, of p bcryptCost "w_rand w" h]
  by (auto simp: hash_password_def check_password_def split: if_splits prod.splits)

lemma hash_password_low: "bcrypt_ok bc \<Longrightarrow> hash_password bc p w = (Inl e, w') \<Longrightarrow> low_error e"
  using bcrypt_okD(4) [of bc p bcryptCost "w_rand w" e]
  by (auto simp: hash_password_def split: if_splits prod.splits)

lemma hash_password_Inr:
  assumes "bcrypt_ok bc" and "length p \<le> 72" and "16 \<le> length (w_rand w)"
  shows "\<exists>h w'. hash_password bc p w = (Inr h, w')"
  using bcrypt_okD(2) [OF assms(1,2,3)] by (auto simp: hash_password_def)

lemma hash_password_long:
  assumes "bcrypt_ok bc" and "72 < length p"
  shows "\<exists>e w'. hash_password bc p w = (Inl e, w')"
  using bcrypt_okD(3) [OF assms, of bcryptCost "w_rand w"] assms(2) by (auto simp: hash_password_def)

lemma svc_frame_hash [frame]: "keeps (svc_frame other dok fok) (hash_password bc p)"
  by (auto simp: keeps_def svc_frame_def dest: hash_password_frame)

text \<open>A concrete function with the documented properties, for the witnesses.\<close>

definition plain_bcrypt :: bcrypt where
  "plain_bcrypt = \<lparr>
     bc_Generate = (\<lambda>p c bs.
       if 72 < length p then (Inl (External ''bcrypt: password length exceeds 72 bytes''), bs)
       else if length bs < 16 then (Inl (External ''unexpected EOF''), [])
       else (Inr (''$2a$12$'' @ p), drop 16 bs)),
     bc_Compare = (\<lambda>h p. if h = ''$2a$12$'' @ p then None
       else Some (External ''bcrypt: hashedPassword is not the hash of the given password''))\<rparr>"

lemma plain_bcrypt_ok [simp]: "bcrypt_ok plain_bcrypt"
  by (auto simp: bcrypt_ok_def plain_bcrypt_def split: if_splits)

end
