(* ===== verification/Http.thy ===== *)
theory Http
  imports Text Service_Common "HOL-Library.AList"
begin

text \<open>
  HTTP as the handlers see it: the request after net/http has parsed it, the ResponseWriter,
  and the parts of package handler and middleware that every handler uses (securityHeaders,
  writeJSON, writeError, WithBaseURL, baseURL, absURL, BasicAuth, Health).

  Decoding is the library's: a request carries its query and form as lists of pairs in the
  order they came, its Basic credentials decoded, and its body as what the multipart or JSON
  parser makes of it. JSON bodies of responses are kept as values, not as text.
\<close>

section \<open>Requests\<close>

datatype json = JNull | JBool bool | JInt int | JString string | JList "json list" | JObject "(string \<times> json) list"

text \<open>
  A file part: its name, its size, its content and whether it can be opened. A form: its values
  and file parts by field name. \<open>bd_Read\<close> is the number of bytes the multipart parser reads
  until it is done or gives up, \<open>bd_Form\<close> the form when the body is one, \<open>bd_Json\<close> the first
  JSON value of the body when there is one.
\<close>

record part =
  pt_Filename :: string
  pt_Size :: int
  pt_Content :: reader
  pt_opens :: bool

record form =
  fm_Value :: "(string \<times> string) list"
  fm_File :: "(string \<times> part) list"

record body =
  bd_Read :: int
  bd_Form :: "form option"
  bd_Json :: "json option"

record request =
  rq_Method :: string
  rq_Path :: string
  rq_Query :: "(string \<times> string) list"
  rq_Header :: "(string \<times> string) list"
  rq_Host :: string
  rq_TLS :: bool
  rq_BasicAuth :: "(string \<times> string) option"
  rq_Body :: body
  rq_BaseURL :: "string option"
  rq_PathValue :: "(string \<times> string) list"

text \<open>Get of url.Values, of http.Header and PathValue: the first value, or the empty string.\<close>

definition first_value :: "(string \<times> string) list \<Rightarrow> string \<Rightarrow> string" where
  "first_value kvs k = (case map_of kvs k of None \<Rightarrow> [] | Some v \<Rightarrow> v)"

definition Query_Get :: "request \<Rightarrow> string \<Rightarrow> string" where
  "Query_Get r k = first_value (rq_Query r) k"

definition Header_Get :: "request \<Rightarrow> string \<Rightarrow> string" where
  "Header_Get r k = first_value (rq_Header r) k"

definition PathValue :: "request \<Rightarrow> string \<Rightarrow> string" where
  "PathValue r k = first_value (rq_PathValue r) k"

definition SetPathValue :: "string \<Rightarrow> string \<Rightarrow> request \<Rightarrow> request" where
  "SetPathValue k v r = r\<lparr>rq_PathValue := AList.update k v (rq_PathValue r)\<rparr>"

text \<open>FormValue after ParseMultipartForm: the query comes before the form.\<close>

definition FormValue :: "request \<Rightarrow> form \<Rightarrow> string \<Rightarrow> string" where
  "FormValue r f k = first_value (rq_Query r @ fm_Value f) k"

text \<open>
  http.MaxBytesReader followed by ParseMultipartForm: a parser that wants more bytes than the
  limit fails with MaxBytesError, otherwise the body is a form or it is not.
\<close>

datatype parse_error = MaxBytesError | BadForm

definition ParseMultipartForm :: "int \<Rightarrow> request \<Rightarrow> parse_error + form" where
  "ParseMultipartForm maxBytes r =
     (if max 0 maxBytes < bd_Read (rq_Body r) then Inl MaxBytesError
      else case bd_Form (rq_Body r) of None \<Rightarrow> Inl BadForm | Some f \<Rightarrow> Inr f)"

text \<open>FormFile: the first file part of the field, if it can be opened.\<close>

definition FormFile :: "form \<Rightarrow> string \<Rightarrow> part option" where
  "FormFile f k = (case map_of (fm_File f) k of
     None \<Rightarrow> None | Some p \<Rightarrow> if pt_opens p then Some p else None)"

section \<open>Responses\<close>

text \<open>
  The ResponseWriter: the header map under construction, the status and header as sent by the
  first WriteHeader, and the body. Later changes of the header and later calls of WriteHeader
  have no effect; the first Write sends status 200 if nothing was sent.
\<close>

datatype chunk =
    Bytes bytes
  | Json json
  | Archive "(string \<times> bytes) list" bool

record writer =
  rw_Header :: "string \<Rightarrow> string option"
  rw_Sent :: "(int \<times> (string \<Rightarrow> string option)) option"
  rw_Body :: "chunk list"

definition new_writer :: writer where
  "new_writer = \<lparr>rw_Header = Map.empty, rw_Sent = None, rw_Body = []\<rparr>"

definition Header_Set :: "string \<Rightarrow> string \<Rightarrow> writer \<Rightarrow> writer" where
  "Header_Set k v w = w\<lparr>rw_Header := (rw_Header w)(k \<mapsto> v)\<rparr>"

definition WriteHeader :: "int \<Rightarrow> writer \<Rightarrow> writer" where
  "WriteHeader status w = (case rw_Sent w of
     None \<Rightarrow> w\<lparr>rw_Sent := Some (status, rw_Header w)\<rparr> | Some x \<Rightarrow> w)"

definition Write :: "chunk \<Rightarrow> writer \<Rightarrow> writer" where
  "Write c w = (let w1 = WriteHeader 200 w in w1\<lparr>rw_Body := rw_Body w1 @ [c]\<rparr>)"

text \<open>What the client sees when the handler has returned.\<close>

definition response_status :: "writer \<Rightarrow> int" where
  "response_status w = (case rw_Sent w of None \<Rightarrow> 200 | Some (status, h) \<Rightarrow> status)"

definition response_header :: "writer \<Rightarrow> string \<Rightarrow> string option" where
  "response_header w = (case rw_Sent w of None \<Rightarrow> rw_Header w | Some (status, h) \<Rightarrow> h)"

type_synonym handler = "request \<Rightarrow> writer \<Rightarrow> world \<Rightarrow> writer \<times> world"

section \<open>Helpers of package handler\<close>

definition securityHeaders :: "writer \<Rightarrow> writer" where
  "securityHeaders w = Header_Set ''X-Frame-Options'' ''DENY'' (Header_Set ''X-Content-Type-Options'' ''nosniff'' w)"

definition writeJSON :: "int \<Rightarrow> json \<Rightarrow> writer \<Rightarrow> writer" where
  "writeJSON status v w =
     Write (Json v) (WriteHeader status (Header_Set ''Content-Type'' ''application/json'' w))"

definition writeError :: "int \<Rightarrow> string \<Rightarrow> writer \<Rightarrow> writer" where
  "writeError status msg w = writeJSON status (JObject [(''error'', JString msg)]) w"

definition Health :: handler where
  "Health r w v =
     (Write (Json (JObject [(''status'', JString ''ok'')]))
        (WriteHeader 200 (Header_Set ''Content-Type'' ''application/json'' (securityHeaders w))), v)"

text \<open>http.NotFound and http.Redirect (with status 301, the only one used) of the standard library.\<close>

definition http_NotFound :: handler where
  "http_NotFound r w v =
     (Write (Bytes (''404 page not found'' @ [CHR 10]))
        (WriteHeader 404 (Header_Set ''X-Content-Type-Options'' ''nosniff''
          (Header_Set ''Content-Type'' ''text/plain; charset=utf-8'' w))), v)"

definition http_Redirect :: "string \<Rightarrow> int \<Rightarrow> handler" where
  "http_Redirect url code r w v =
     (let w1 = Header_Set ''Location'' url w in
      if rw_Header w ''Content-Type'' = None \<and> (rq_Method r = ''GET'' \<or> rq_Method r = ''HEAD'')
      then (let w2 = WriteHeader code (Header_Set ''Content-Type'' ''text/html; charset=utf-8'' w1) in
        if rq_Method r = ''GET''
        then Write (Bytes (''<a href='' @ [dquote] @ EscapeString url @ [dquote] @ ''>Moved Permanently</a>.'' @ [CHR 10, CHR 10])) w2
        else w2, v)
      else (WriteHeader code w1, v))"

section \<open>baseurl.go\<close>

definition WithBaseURL :: "string \<Rightarrow> handler \<Rightarrow> handler" where
  "WithBaseURL publicURL next =
     (let publicURL = TrimRight [slash] publicURL in
      if publicURL = [] then next
      else (\<lambda>r. next (r\<lparr>rq_BaseURL := Some publicURL\<rparr>)))"

definition baseURL :: "request \<Rightarrow> string" where
  "baseURL r =
     (case rq_BaseURL r of
        Some (c # u) \<Rightarrow> c # u
      | _ \<Rightarrow>
          (let scheme = (if rq_TLS r then ''https'' else ''http'');
               proto = Header_Get r ''X-Forwarded-Proto'';
               proto1 = ToLower (TrimRight blanks (TrimLeft blanks (hd (Split CHR '','' proto))));
               scheme1 = (if proto \<noteq> [] \<and> (proto1 = ''http'' \<or> proto1 = ''https'') then proto1 else scheme)
           in scheme1 @ ''://'' @ rq_Host r))"

definition absURL :: "request \<Rightarrow> string \<Rightarrow> string" where
  "absURL r path = (if \<not> HasPrefix path [slash] then path else baseURL r @ path)"

section \<open>middleware/auth.go\<close>

record auth_config =
  ac_Enabled :: bool
  ac_Username :: string
  ac_Password :: string

definition writeUnauthorized :: "writer \<Rightarrow> writer" where
  "writeUnauthorized w =
     Write (Json (JObject [(''error'', JString ''authentication required'')]))
       (WriteHeader 401 (Header_Set ''Content-Type'' ''application/json''
         (Header_Set ''WWW-Authenticate'' (''Basic realm='' @ [dquote] @ ''pbin'' @ [dquote]) w)))"

definition BasicAuth :: "auth_config \<Rightarrow> handler \<Rightarrow> handler" where
  "BasicAuth cfg next =
     (if \<not> ac_Enabled cfg then next
      else (\<lambda>r w v.
        let w1 = Header_Set ''X-Frame-Options'' ''DENY'' (Header_Set ''X-Content-Type-Options'' ''nosniff'' w) in
        case rq_BasicAuth r of
          None \<Rightarrow> (writeUnauthorized w1, v)
        | Some (username, password) \<Rightarrow>
            if ConstantTimeCompare username (ac_Username cfg) \<noteq> 1 \<or>
               ConstantTimeCompare password (ac_Password cfg) \<noteq> 1
            then (writeUnauthorized w1, v)
            else next r w1 v))"

section \<open>What the writers do\<close>

lemma Header_Set_sel [simp]:
  "rw_Header (Header_Set k v w) = (rw_Header w)(k \<mapsto> v)" "rw_Sent (Header_Set k v w) = rw_Sent w"
  "rw_Body (Header_Set k v w) = rw_Body w"
  by (simp_all add: Header_Set_def)

lemma securityHeaders_sel [simp]:
  "rw_Header (securityHeaders w) = (rw_Header w)(''X-Content-Type-Options'' \<mapsto> ''nosniff'', ''X-Frame-Options'' \<mapsto> ''DENY'')"
  "rw_Sent (securityHeaders w) = rw_Sent w" "rw_Body (securityHeaders w) = rw_Body w"
  by (simp_all add: securityHeaders_def)

lemma WriteHeader_sel [simp]:
  "rw_Header (WriteHeader c w) = rw_Header w" "rw_Body (WriteHeader c w) = rw_Body w"
  "rw_Sent (WriteHeader c w) = (case rw_Sent w of None \<Rightarrow> Some (c, rw_Header w) | Some x \<Rightarrow> Some x)"
  by (simp_all add: WriteHeader_def split: option.split)

lemma Write_sel [simp]:
  "rw_Header (Write x w) = rw_Header w" "rw_Body (Write x w) = rw_Body w @ [x]"
  "rw_Sent (Write x w) = (case rw_Sent w of None \<Rightarrow> Some (200, rw_Header w) | Some y \<Rightarrow> Some y)"
  by (simp_all add: Write_def Let_def)

lemma new_writer_sel [simp]:
  "rw_Header new_writer = Map.empty" "rw_Sent new_writer = None" "rw_Body new_writer = []"
  by (simp_all add: new_writer_def)

lemma writeJSON_fresh [simp]:
  assumes "rw_Sent w = None"
  shows "rw_Sent (writeJSON s v w) = Some (s, (rw_Header w)(''Content-Type'' \<mapsto> ''application/json''))"
    and "rw_Body (writeJSON s v w) = rw_Body w @ [Json v]"
  using assms by (simp_all add: writeJSON_def)

lemma writeError_fresh [simp]:
  assumes "rw_Sent w = None"
  shows "rw_Sent (writeError s msg w) = Some (s, (rw_Header w)(''Content-Type'' \<mapsto> ''application/json''))"
    and "rw_Body (writeError s msg w) = rw_Body w @ [Json (JObject [(''error'', JString msg)])]"
  using assms by (simp_all add: writeError_def)

lemma response_sent [simp]:
  "rw_Sent w = Some (s, h) \<Longrightarrow> response_status w = s" "rw_Sent w = Some (s, h) \<Longrightarrow> response_header w = h"
  by (simp_all add: response_status_def response_header_def)

text \<open>The two headers securityHeaders sets, as the client receives them.\<close>

definition secured :: "writer \<Rightarrow> bool" where
  "secured w \<longleftrightarrow> response_header w ''X-Content-Type-Options'' = Some ''nosniff'' \<and>
     response_header w ''X-Frame-Options'' = Some ''DENY''"

definition headers_set :: "writer \<Rightarrow> bool" where
  "headers_set w \<longleftrightarrow> rw_Header w ''X-Content-Type-Options'' = Some ''nosniff'' \<and>
     rw_Header w ''X-Frame-Options'' = Some ''DENY'' \<and> (rw_Sent w \<noteq> None \<longrightarrow> secured w)"

lemma headers_set_secured: "headers_set w \<Longrightarrow> secured w"
  by (cases "rw_Sent w") (auto simp: headers_set_def secured_def response_header_def)

lemma headers_set_security [intro]: "rw_Sent w = None \<Longrightarrow> headers_set (securityHeaders w)"
  by (simp add: headers_set_def)

lemma headers_set_steps [intro]:
  "headers_set w \<Longrightarrow> k \<noteq> ''X-Content-Type-Options'' \<Longrightarrow> k \<noteq> ''X-Frame-Options'' \<Longrightarrow> headers_set (Header_Set k v w)"
  "headers_set w \<Longrightarrow> headers_set (WriteHeader s w)"
  "headers_set w \<Longrightarrow> headers_set (Write x w)"
  by (auto simp: headers_set_def secured_def response_header_def split: option.splits)

lemma headers_set_write [intro]:
  "headers_set w \<Longrightarrow> headers_set (writeJSON s v w)" "headers_set w \<Longrightarrow> headers_set (writeError s msg w)"
  by (auto simp: writeJSON_def writeError_def intro!: headers_set_steps)

text \<open>With authentication on, only the configured credentials get through, and nothing runs before.\<close>

definition authorized :: "auth_config \<Rightarrow> request \<Rightarrow> bool" where
  "authorized cfg r \<longleftrightarrow> ac_Enabled cfg \<longrightarrow> rq_BasicAuth r = Some (ac_Username cfg, ac_Password cfg)"

lemma BasicAuth_denied:
  assumes "\<not> authorized cfg r"
  shows "BasicAuth cfg next r w v =
    (writeUnauthorized (Header_Set ''X-Frame-Options'' ''DENY'' (Header_Set ''X-Content-Type-Options'' ''nosniff'' w)), v)"
  using assms by (auto simp: BasicAuth_def authorized_def Let_def split: option.split)

lemma BasicAuth_granted:
  assumes "authorized cfg r"
  shows "BasicAuth cfg next r w v =
    next r (if ac_Enabled cfg then Header_Set ''X-Frame-Options'' ''DENY'' (Header_Set ''X-Content-Type-Options'' ''nosniff'' w) else w) v"
  using assms by (simp add: BasicAuth_def authorized_def)

lemma writeUnauthorized_status: "rw_Sent w = None \<Longrightarrow> response_status (writeUnauthorized w) = 401"
  by (simp add: writeUnauthorized_def)

section \<open>Base URLs\<close>

lemma first_value_update [simp]: "first_value (AList.update k v kvs) j = (if j = k then v else first_value kvs j)"
  by (simp add: first_value_def update_conv)

lemma PathValue_SetPathValue [simp]:
  "PathValue (SetPathValue k v r) j = (if j = k then v else PathValue r j)"
  by (simp add: PathValue_def SetPathValue_def)

lemma SetPathValue_sel [simp]:
  "rq_Query (SetPathValue k v r) = rq_Query r" "rq_Header (SetPathValue k v r) = rq_Header r"
  "rq_Host (SetPathValue k v r) = rq_Host r" "rq_TLS (SetPathValue k v r) = rq_TLS r"
  "rq_Body (SetPathValue k v r) = rq_Body r" "rq_BaseURL (SetPathValue k v r) = rq_BaseURL r"
  "rq_Method (SetPathValue k v r) = rq_Method r" "rq_BasicAuth (SetPathValue k v r) = rq_BasicAuth r"
  by (simp_all add: SetPathValue_def)

text \<open>
  A configured public URL wins over everything the client sends, and the result never ends in a
  slash; without one, the scheme is http or https whatever the X-Forwarded-Proto header says.
\<close>

lemma baseURL_configured:
  assumes "TrimRight [slash] url \<noteq> []"
  shows "baseURL (r\<lparr>rq_BaseURL := Some (TrimRight [slash] url)\<rparr>) = TrimRight [slash] url"
    and "last (TrimRight [slash] url) \<noteq> slash"
  using assms TrimRight_last [of "[slash]" url] by (auto simp: baseURL_def neq_Nil_conv)

lemma baseURL_derived:
  assumes "rq_BaseURL r = None"
  shows "baseURL r = ''http://'' @ rq_Host r \<or> baseURL r = ''https://'' @ rq_Host r"
  using assms by (auto simp: baseURL_def Let_def)

lemma absURL_slash [simp]: "absURL r (slash # p) = baseURL r @ slash # p"
  by (simp add: absURL_def HasPrefix_def)

end
