(* ===== verification/File_Entity.thy ===== *)
theory File_Entity
  imports Prelude
begin

text \<open>Package internal/domain/file, file.go: the File entity, its constructor and its presets.\<close>

definition file_validExpiries :: "(string \<times> duration) list" where
  "file_validExpiries =
     [(''10m'', 10 * minute), (''1h'', hour), (''6h'', 6 * hour), (''1d'', 24 * hour),
      (''7d'', 7 * 24 * hour), (''30d'', 30 * 24 * hour), (''90d'', 90 * 24 * hour),
      (''1y'', 365 * 24 * hour), (''never'', 0)]"

definition SupportedImageMIMETypes :: "string list" where
  "SupportedImageMIMETypes =
     [''image/png'', ''image/jpeg'', ''image/gif'', ''image/webp'', ''image/bmp'']"

definition IsImage :: "string \<Rightarrow> bool" where
  "IsImage mimeType = List.member SupportedImageMIMETypes mimeType"

record file_ent =
  f_Slug :: string
  f_Filename :: string
  f_Size :: int
  f_MimeType :: string
  f_PasswordHash :: string
  f_OneUse :: bool
  f_Expiry :: string
  f_DeleteSecret :: string
  f_ExpiresAt :: "instant option"

definition file_New :: "string \<Rightarrow> string \<Rightarrow> string \<Rightarrow> string \<Rightarrow> string \<Rightarrow> int \<Rightarrow> string \<Rightarrow> bool \<Rightarrow> file_ent result" where
  "file_New slug filename mimeType expiry deleteSecret fsize passwordHash oneUse =
     (if slug = [] then Inl (Sentinel File_ErrEmptySlug)
      else if map_of file_validExpiries expiry = None then Inl (Sentinel File_ErrInvalidExpiry)
      else Inr \<lparr>f_Slug = slug, f_Filename = filename, f_Size = fsize, f_MimeType = mimeType,
                f_PasswordHash = passwordHash, f_OneUse = oneUse, f_Expiry = expiry,
                f_DeleteSecret = deleteSecret, f_ExpiresAt = None\<rparr>)"

definition file_ExpiryDuration :: "string \<Rightarrow> duration result" where
  "file_ExpiryDuration expiry =
     (case map_of file_validExpiries expiry of
        None \<Rightarrow> Inl (Panic ''file.ExpiryDuration: invalid expiry preset'')
      | Some d \<Rightarrow> Inr d)"

section \<open>The constructor and the presets agree\<close>

lemma file_New_Inr:
  assumes "file_New s n m x d z h u = Inr f"
  shows "s \<noteq> []" "map_of file_validExpiries x \<noteq> None"
    "f = \<lparr>f_Slug = s, f_Filename = n, f_Size = z, f_MimeType = m, f_PasswordHash = h, f_OneUse = u,
          f_Expiry = x, f_DeleteSecret = d, f_ExpiresAt = None\<rparr>"
  using assms by (auto simp: file_New_def split: if_splits)

lemma file_New_Inl:
  assumes "file_New s n m x d z h u = Inl e"
  shows "e = Sentinel File_ErrEmptySlug \<or> e = Sentinel File_ErrInvalidExpiry"
  using assms by (auto simp: file_New_def split: if_splits)

lemma file_preset_range: "map_of file_validExpiries x = Some d \<Longrightarrow> 0 \<le> d \<and> d \<le> 365 * 24 * hour"
  by (auto simp: file_validExpiries_def time_units split: if_splits)

lemma file_preset_never: "map_of file_validExpiries x = Some d \<Longrightarrow> d = 0 \<longleftrightarrow> x = ''never''"
  by (auto simp: file_validExpiries_def time_units split: if_splits)

lemma IsImage_iff: "IsImage m \<longleftrightarrow> m \<in> set SupportedImageMIMETypes"
  by (simp add: IsImage_def)

lemma not_IsImage_svg: "\<not> IsImage ''image/svg+xml''" "\<not> IsImage ''application/octet-stream''"
  by (simp_all add: IsImage_iff SupportedImageMIMETypes_def)

end
