(* ===== verification/Paste_Entity.thy ===== *)
theory Paste_Entity
  imports Prelude
begin

text \<open>Package internal/domain/paste, paste.go: the Paste entity, its constructor and its presets.\<close>

definition paste_validExpiries :: "(string \<times> duration) list" where
  "paste_validExpiries =
     [(''10m'', 10 * minute), (''1h'', hour), (''6h'', 6 * hour), (''1d'', 24 * hour),
      (''7d'', 7 * 24 * hour), (''30d'', 30 * 24 * hour), (''90d'', 90 * 24 * hour),
      (''1y'', 365 * 24 * hour), (''never'', 0)]"

record paste_ent =
  p_Slug :: string
  p_Title :: string
  p_Content :: string
  p_Lang :: string
  p_PasswordHash :: string
  p_OneUse :: bool
  p_Expiry :: string
  p_DeleteSecret :: string
  p_ExpiresAt :: "instant option"

definition paste_New :: "string \<Rightarrow> string \<Rightarrow> string \<Rightarrow> string \<Rightarrow> string \<Rightarrow> string \<Rightarrow> bool \<Rightarrow> paste_ent result" where
  "paste_New slug title content lang expiry passwordHash oneUse =
     (if slug = [] then Inl (Sentinel Paste_ErrEmptySlug)
      else if content = [] then Inl (Sentinel Paste_ErrEmptyContent)
      else if map_of paste_validExpiries expiry = None then Inl (Sentinel Paste_ErrInvalidExpiry)
      else Inr \<lparr>p_Slug = slug, p_Title = title, p_Content = content,
                p_Lang = (if lang = [] then ''text'' else lang), p_PasswordHash = passwordHash,
                p_OneUse = oneUse, p_Expiry = expiry, p_DeleteSecret = [], p_ExpiresAt = None\<rparr>)"

definition paste_ExpiryDuration :: "string \<Rightarrow> duration result" where
  "paste_ExpiryDuration expiry =
     (case map_of paste_validExpiries expiry of
        None \<Rightarrow> Inl (Panic ''paste.ExpiryDuration: invalid expiry preset'')
      | Some d \<Rightarrow> Inr d)"

section \<open>The constructor and the presets agree\<close>

lemma paste_New_Inr:
  assumes "paste_New s t c l x h u = Inr p"
  shows "s \<noteq> []" "c \<noteq> []" "map_of paste_validExpiries x \<noteq> None"
    "p = \<lparr>p_Slug = s, p_Title = t, p_Content = c, p_Lang = (if l = [] then ''text'' else l),
          p_PasswordHash = h, p_OneUse = u, p_Expiry = x, p_DeleteSecret = [], p_ExpiresAt = None\<rparr>"
  using assms by (auto simp: paste_New_def split: if_splits)

lemma paste_New_Inl:
  assumes "paste_New s t c l x h u = Inl e"
  shows "e = Sentinel Paste_ErrEmptySlug \<or> e = Sentinel Paste_ErrEmptyContent \<or>
    e = Sentinel Paste_ErrInvalidExpiry"
  using assms by (auto simp: paste_New_def split: if_splits)

lemma paste_preset_range: "map_of paste_validExpiries x = Some d \<Longrightarrow> 0 \<le> d \<and> d \<le> 365 * 24 * hour"
  by (auto simp: paste_validExpiries_def time_units split: if_splits)

lemma paste_preset_never: "map_of paste_validExpiries x = Some d \<Longrightarrow> d = 0 \<longleftrightarrow> x = ''never''"
  by (auto simp: paste_validExpiries_def time_units split: if_splits)

end
