(* ===== verification/Bucket_Entity.thy ===== *)
theory Bucket_Entity
  imports Prelude
begin

text \<open>Package internal/domain/bucket, bucket.go: the Bucket entity with its files.\<close>

definition bucket_validExpiries :: "(string \<times> duration) list" where
  "bucket_validExpiries =
     [(''10m'', 10 * minute), (''1h'', hour), (''6h'', 6 * hour), (''1d'', 24 * hour),
      (''7d'', 7 * 24 * hour), (''30d'', 30 * 24 * hour), (''90d'', 90 * 24 * hour),
      (''1y'', 365 * 24 * hour), (''never'', 0)]"

record bucket_file_ent =
  bf_ID :: int
  bf_BucketSlug :: string
  bf_Filename :: string
  bf_Size :: int
  bf_MimeType :: string
  bf_StorageKey :: string

record bucket_ent =
  b_Slug :: string
  b_PasswordHash :: string
  b_OneUse :: bool
  b_Expiry :: string
  b_DeleteSecret :: string
  b_ExpiresAt :: "instant option"
  b_Files :: "bucket_file_ent list"

definition bucket_New :: "string \<Rightarrow> string \<Rightarrow> string \<Rightarrow> string \<Rightarrow> bool \<Rightarrow> bucket_ent result" where
  "bucket_New slug deleteSecret passwordHash expiry oneUse =
     (if slug = [] then Inl (Sentinel Bucket_ErrEmptySlug)
      else if map_of bucket_validExpiries expiry = None then Inl (Sentinel Bucket_ErrInvalidExpiry)
      else Inr \<lparr>b_Slug = slug, b_PasswordHash = passwordHash, b_OneUse = oneUse,
                b_Expiry = expiry, b_DeleteSecret = deleteSecret, b_ExpiresAt = None,
                b_Files = []\<rparr>)"

definition bucket_ExpiryDuration :: "string \<Rightarrow> duration result" where
  "bucket_ExpiryDuration expiry =
     (case map_of bucket_validExpiries expiry of
        None \<Rightarrow> Inl (Panic ''bucket.ExpiryDuration: invalid expiry preset'')
      | Some d \<Rightarrow> Inr d)"

section \<open>The constructor and the presets agree\<close>

lemma bucket_New_Inr:
  assumes "bucket_New s d h x u = Inr b"
  shows "s \<noteq> []" "map_of bucket_validExpiries x \<noteq> None"
    "b = \<lparr>b_Slug = s, b_PasswordHash = h, b_OneUse = u, b_Expiry = x, b_DeleteSecret = d,
          b_ExpiresAt = None, b_Files = []\<rparr>"
  using assms by (auto simp: bucket_New_def split: if_splits)

lemma bucket_New_Inl:
  assumes "bucket_New s d h x u = Inl e"
  shows "e = Sentinel Bucket_ErrEmptySlug \<or> e = Sentinel Bucket_ErrInvalidExpiry"
  using assms by (auto simp: bucket_New_def split: if_splits)

lemma bucket_preset_range: "map_of bucket_validExpiries x = Some d \<Longrightarrow> 0 \<le> d \<and> d \<le> 365 * 24 * hour"
  by (auto simp: bucket_validExpiries_def time_units split: if_splits)

lemma bucket_preset_never: "map_of bucket_validExpiries x = Some d \<Longrightarrow> d = 0 \<longleftrightarrow> x = ''never''"
  by (auto simp: bucket_validExpiries_def time_units split: if_splits)

end
