(* ===== verification/Pages.thy ===== *)
theory Pages
  imports Templates Http File_Entity Paste_Entity Bucket_Entity
begin

text \<open>
  The HTML pages of package handler: html.go, ui.go, the password form and the three view
  pages, each as the text it writes, and what their markup can depend on. The \<open>skeleton\<close> of
  a text is the sequence of its characters that can open or close a tag or an attribute.
\<close>

section \<open>html.go and the shared parts of ui.go\<close>

definition pageHead :: "string \<Rightarrow> string \<Rightarrow> string list \<Rightarrow> string" where
  "pageHead title csp extraHead =
     Sprintf pageHead_template [S title, S csp, S picoCSS, S customCSS, S (concat extraHead)]"

definition navBarHTML :: "string \<Rightarrow> string" where
  "navBarHTML activePage =
     (let current = '' aria-current='' @ [dquote] @ ''page'' @ [dquote];
          uploadAttr = (if activePage = ''upload'' then current else []);
          pasteAttr = (if activePage = ''upload'' then [] else if activePage = ''paste'' then current else [])
      in Sprintf navBar_template [S pbinLogo, S uploadAttr, S pasteAttr])"

definition viewNavBarHTML :: string where
  "viewNavBarHTML = navBarHTML []"

definition pageOpen :: "string \<Rightarrow> string" where
  "pageOpen activePage =
     Sprintf (lines [''<body>'', ''%s'', ''<main class='' @ [dquote] @ ''container'' @ [dquote] @ ''>'']) [S (navBarHTML activePage)]"

definition pageClose :: "string list \<Rightarrow> string" where
  "pageClose scripts =
     ''</main>'' @ CHR 10 # footerHTML @ concat (map (\<lambda>sc. CHR 10 # sc) scripts) @
     CHR 10 # ''</body>'' @ CHR 10 # ''</html>''"

definition scriptTag :: "string \<Rightarrow> string \<Rightarrow> string" where
  "scriptTag content nonce =
     (if nonce \<noteq> []
      then Sprintf (lines [''<script nonce='' @ [dquote] @ ''%s'' @ [dquote] @ ''>'', ''%s'', ''</script>'']) [S nonce, S content]
      else Sprintf (lines [''<script>'', ''%s'', ''</script>'']) [S content])"

section \<open>The form pages\<close>

definition html_type :: string where
  "html_type = ''text/html; charset=utf-8''"

definition UI_Home :: handler where
  "UI_Home r w v =
     (Write (Bytes (Sprintf home_template
        [S picoCSS, S customCSS, S (navBarHTML ''upload''), S uploadIcon, S expiryOpts, S checkIcon, S footerHTML]))
      (Header_Set ''Content-Security-Policy'' uiCSP (Header_Set ''Content-Type'' html_type (securityHeaders w))), v)"

definition UI_Paste :: handler where
  "UI_Paste r w v =
     (Write (Bytes (Sprintf newPaste_template
        [S picoCSS, S customCSS, S (navBarHTML ''paste''), S expiryOpts, S checkIcon, S footerHTML]))
      (Header_Set ''Content-Security-Policy'' uiCSP (Header_Set ''Content-Type'' html_type (securityHeaders w))), v)"

definition UI_Bucket :: handler where
  "UI_Bucket r w v = http_Redirect [slash] 301 r w v"

text \<open>servePasswordForm (file.go): the slug goes into the action of the form as it is.\<close>

definition password_form :: "string \<Rightarrow> string" where
  "password_form slug = Sprintf passwordForm_template
     [S picoCSS, S customCSS, S viewNavBarHTML, S slug, S footerHTML]"

definition servePasswordForm :: "string \<Rightarrow> writer \<Rightarrow> writer" where
  "servePasswordForm slug w =
     Write (Bytes (password_form slug))
       (WriteHeader 401
         (Header_Set ''Content-Security-Policy'' passwordFormCSP
           (Header_Set ''Content-Type'' html_type w)))"

section \<open>The paste page (PasteHandler.View)\<close>

text \<open>The text of the page for a paste found under a slug, with the nonce of its script.\<close>

definition paste_page :: "paste_ent \<Rightarrow> instant option \<Rightarrow> string \<Rightarrow> string \<Rightarrow> string" where
  "paste_page p expiresAt slug nonce =
     (let title = p_Title p; lang = p_Lang p;
          expiryInfo = (case expiresAt of None \<Rightarrow> ''Never expires'' | Some t \<Rightarrow> ''Expires: '' @ RFC3339 t);
          oneUseInfo = (if p_OneUse p
            then ''<span class='' @ [dquote] @ ''meta-item meta-oneuse'' @ [dquote] @ ''>One-use</span>'' else []);
          titleHTML = (if title \<noteq> []
            then Sprintf (''<h2 style='' @ [dquote] @ ''margin-bottom:.5rem'' @ [dquote] @ ''>%s</h2>'') [S (EscapeString title)]
            else []);
          escapedContent = EscapeString (p_Content p)
      in Sprintf pasteView_template
        [S (EscapeString (if title \<noteq> [] then title else slug)), S picoCSS, S customCSS, S nonce, S viewNavBarHTML,
         S titleHTML, S (EscapeString lang), S (EscapeString expiryInfo), S oneUseInfo, S (EscapeString slug),
         S (EscapeString lang), S escapedContent, S footerHTML, S nonce])"

section \<open>The file page (FileHandler.Info)\<close>

definition embedRow :: "string \<Rightarrow> string \<Rightarrow> string" where
  "embedRow label value =
     (let v = EscapeString value in
      Sprintf (''<div class='' @ [dquote] @ ''embed-group'' @ [dquote] @ ''><div class='' @ [dquote] @ ''embed-label'' @ [dquote] @
          ''>%s</div><div class='' @ [dquote] @ ''embed-row'' @ [dquote] @ ''><code>%s</code><button data-copy='' @ [dquote] @
          ''%s'' @ [dquote] @ ''>Copy</button></div></div>'')
        [S label, S v, S v])"

definition img_tag :: string where
  "img_tag = ''<img src='' @ [dquote] @ ''%s'' @ [dquote] @ '' alt='' @ [dquote] @ ''%s'' @ [dquote] @ ''>''"

definition info_filename :: "file_ent \<Rightarrow> string \<Rightarrow> string" where
  "info_filename f slug = (if f_Filename f = [] then slug else f_Filename f)"

text \<open>Only an image that is neither protected nor one-use is previewed inline.\<close>

definition info_preview :: "file_ent \<Rightarrow> string \<Rightarrow> string" where
  "info_preview f slug =
     (if IsImage (f_MimeType f) \<and> \<not> f_PasswordHash f \<noteq> [] \<and> \<not> f_OneUse f
      then Sprintf (''<img class='' @ [dquote] @ ''preview-img'' @ [dquote] @ '' src='' @ [dquote] @ ''/%s'' @ [dquote] @
             '' alt='' @ [dquote] @ ''%s'' @ [dquote] @ ''>'') [S slug, S (EscapeString (info_filename f slug))]
      else [])"

definition info_meta :: "file_ent \<Rightarrow> string" where
  "info_meta f =
     (let mimeType = (if f_MimeType f = [] then ''application/octet-stream'' else f_MimeType f);
          meta = [humanSize (f_Size f), EscapeString mimeType] @
            [case f_ExpiresAt f of None \<Rightarrow> ''Never expires'' | Some t \<Rightarrow> ''Expires '' @ minute_stamp t] @
            (if f_PasswordHash f \<noteq> [] then [''Password protected''] else []) @
            (if f_OneUse f then [''Can be downloaded only once''] else [])
      in ''<span>'' @ Join (''</span><span class='' @ [dquote] @ ''meta-sep'' @ [dquote] @ ''></span><span>'') meta @ ''</span>'')"

definition info_links :: "file_ent \<Rightarrow> string \<Rightarrow> string \<Rightarrow> string" where
  "info_links f slug fileURL =
     embedRow ''Share Page'' (fileURL @ ''/info'') @ embedRow ''Direct Link'' fileURL @
     (if IsImage (f_MimeType f)
      then embedRow ''HTML'' (Sprintf img_tag [S fileURL, S (info_filename f slug)]) @
           embedRow ''BBCode'' (Sprintf ''[img]%s[/img]'' [S fileURL]) @
           embedRow ''Markdown'' (Sprintf ''![%s](%s)'' [S (info_filename f slug), S fileURL])
      else [])"

definition info_download :: "file_ent \<Rightarrow> string \<Rightarrow> string" where
  "info_download f slug =
     (if \<not> IsImage (f_MimeType f)
      then Sprintf ('' download='' @ [dquote] @ ''%s'' @ [dquote]) [S (EscapeString (info_filename f slug))] else [])"

definition info_page :: "file_ent \<Rightarrow> string \<Rightarrow> string \<Rightarrow> string" where
  "info_page f slug fileURL =
     Sprintf info_template
       [S (EscapeString (info_filename f slug)), S picoCSS, S customCSS, S viewNavBarHTML,
        S (EscapeString (info_filename f slug)), S (info_preview f slug), S (info_meta f), S slug,
        S (info_download f slug), S (info_links f slug fileURL), S footerHTML, S sharedJS]"

section \<open>The bucket page (BucketHandler.View)\<close>

text \<open>The password of the request goes into the links as it is.\<close>

definition password_query :: "string \<Rightarrow> string" where
  "password_query password = (if password \<noteq> [] then ''?password='' @ password else [])"

definition bucket_row_format :: string where
  "bucket_row_format =
     ''<tr><td>%s</td><td class='' @ [dquote] @ ''size-cell'' @ [dquote] @ ''>%s</td><td class='' @ [dquote] @ ''action-cell'' @
     [dquote] @ ''><a href='' @ [dquote] @ ''%s'' @ [dquote] @ '' download='' @ [dquote] @ ''%s'' @ [dquote] @
     ''>Download</a></td></tr>''"

definition bucket_row_html :: "string \<Rightarrow> string \<Rightarrow> bucket_file_ent \<Rightarrow> string" where
  "bucket_row_html slug passwordQuery bf =
     (let fileURL = Sprintf ''/b/%s/file/%s%s'' [S slug, S (bf_StorageKey bf), S passwordQuery] in
      Sprintf bucket_row_format
        [S (htmlEscape (bf_Filename bf)), S (humanSize (bf_Size bf)), S fileURL, S (htmlEscape (bf_Filename bf))])"

definition bucket_page :: "bucket_ent \<Rightarrow> instant option \<Rightarrow> string \<Rightarrow> string \<Rightarrow> string" where
  "bucket_page b expiresAt slug password =
     (let expiryInfo = (case expiresAt of None \<Rightarrow> ''Never expires'' | Some t \<Rightarrow> ''Expires '' @ minute_stamp t);
          zipURL = Sprintf ''/b/%s/zip%s'' [S slug, S (password_query password)];
          fileRows = concat (map (bucket_row_html slug (password_query password)) (b_Files b))
      in Sprintf bucketView_template
        [S slug, S picoCSS, S customCSS, S viewNavBarHTML, S slug, D (int (length (b_Files b))), S expiryInfo,
         S fileRows, S zipURL, S footerHTML])"

section \<open>Markup\<close>

text \<open>
  What users choose never adds markup: the skeleton of a page is determined by the shape of the
  entity (which optional parts it has), whatever its texts are.
\<close>

lemma same_kind_simps [simp]:
  "same_kind (S s) (S t) \<longleftrightarrow> skeleton s = skeleton t" "same_kind (D m) (D n)"
  by (simp_all add: same_kind_def)

lemma skeleton_list_all2: "list_all2 (\<lambda>s t. skeleton s = skeleton t) ss ts \<Longrightarrow> skeleton (concat ss) = skeleton (concat ts)"
  by (induction rule: list_all2_induct) simp_all

lemma skeleton_alnum: "list_all alnum s \<Longrightarrow> skeleton s = []"
  by (fastforce simp: skeleton_def filter_empty_conv list_all_iff markup_def alnum_def)

lemma skeleton_validKey: "validKey s \<Longrightarrow> skeleton s = []"
  by (simp add: validKey_def skeleton_alnum)

lemma paste_page_skeleton:
  assumes "p_Title p = [] \<longleftrightarrow> p_Title q = []" and "p_OneUse p = p_OneUse q"
    and "skeleton n = []" and "skeleton m = []"
  shows "skeleton (paste_page p t s n) = skeleton (paste_page q u r m)"
proof -
  have title: "skeleton (if p_Title p \<noteq> [] then Sprintf f [S (EscapeString (p_Title p))] else []) =
      skeleton (if p_Title q \<noteq> [] then Sprintf f [S (EscapeString (p_Title q))] else [])" for f
    using assms(1) by (auto intro!: skeleton_Sprintf)
  show ?thesis
    unfolding paste_page_def Let_def by (intro skeleton_Sprintf) (use assms title in simp)
qed

lemma embedRow_skeleton: "skeleton (embedRow l v) = skeleton (embedRow l w)"
  unfolding embedRow_def Let_def by (intro skeleton_Sprintf) simp

definition same_file_shape :: "file_ent \<Rightarrow> file_ent \<Rightarrow> bool" where
  "same_file_shape f g \<longleftrightarrow> IsImage (f_MimeType f) = IsImage (f_MimeType g) \<and>
     (f_PasswordHash f = [] \<longleftrightarrow> f_PasswordHash g = []) \<and> f_OneUse f = f_OneUse g"

lemma info_meta_skeleton:
  assumes "same_file_shape f g"
  shows "skeleton (info_meta f) = skeleton (info_meta g)"
proof -
  have join: "skeleton (Join s ws) = skeleton (Join s vs)"
    if "list_all2 (\<lambda>w v. skeleton w = skeleton v) ws vs" for s ws vs
    using that
  proof (induction s ws arbitrary: vs rule: Join.induct)
    case (3 s w v ws)
    then show ?case by (auto simp: list_all2_Cons1)
  qed (auto simp: list_all2_Cons1)
  show ?thesis
    unfolding info_meta_def Let_def skeleton_append
    by (intro arg_cong2 [where f = "(@)"] join refl)
      (use assms in \<open>auto simp: same_file_shape_def skeleton_Cons markup_def split: option.split\<close>)
qed

lemma info_page_skeleton:
  assumes shape: "same_file_shape f g" and "skeleton s = []" and "skeleton r = []"
  shows "skeleton (info_page f s url) = skeleton (info_page g r url')"
proof -
  have "skeleton (info_preview f s) = skeleton (info_preview g r)"
    using assms unfolding info_preview_def same_file_shape_def by (auto simp: skeleton_Cons)
  moreover have "skeleton (info_links f s url) = skeleton (info_links g r url')"
    using shape embedRow_skeleton unfolding info_links_def same_file_shape_def by (auto intro!: arg_cong2 [where f = "(@)"])
  moreover have "skeleton (info_download f s) = skeleton (info_download g r)"
    using shape unfolding info_download_def same_file_shape_def by (auto simp: skeleton_Cons)
  ultimately show ?thesis
    unfolding info_page_def by (intro skeleton_Sprintf) (use assms info_meta_skeleton [OF shape] in simp)
qed

lemma password_form_skeleton: "skeleton s = [] \<Longrightarrow> skeleton r = [] \<Longrightarrow> skeleton (password_form s) = skeleton (password_form r)"
  unfolding password_form_def by (intro skeleton_Sprintf) simp

text \<open>On the bucket page this needs the password of the request to be free of markup, too.\<close>

lemma bucket_page_skeleton:
  assumes "skeleton s = []" and "skeleton r = []" and "skeleton pw = []" and "skeleton pw' = []"
    and "list_all (\<lambda>bf. skeleton (bf_StorageKey bf) = []) (b_Files b)"
    and "list_all (\<lambda>bf. skeleton (bf_StorageKey bf) = []) (b_Files c)"
    and "length (b_Files b) = length (b_Files c)"
  shows "skeleton (bucket_page b t s pw) = skeleton (bucket_page c u r pw')"
proof -
  have pq: "skeleton (password_query pw) = []" "skeleton (password_query pw') = []"
    using assms(3,4) by (simp_all add: password_query_def skeleton_Cons markup_def)
  have row: "skeleton (bucket_row_html s (password_query pw) x) = skeleton (bucket_row_html r (password_query pw') y)"
    if "skeleton (bf_StorageKey x) = []" "skeleton (bf_StorageKey y) = []" for x y
    unfolding bucket_row_html_def Let_def
    by (intro skeleton_Sprintf) (use that assms(1,2) pq in \<open>simp add: skeleton_Cons markup_def\<close>)
  have "list_all2 (\<lambda>x y. skeleton x = skeleton y)
      (map (bucket_row_html s (password_query pw)) (b_Files b)) (map (bucket_row_html r (password_query pw')) (b_Files c))"
    using assms(5-7) row by (auto simp: list_all2_conv_all_nth list_all_length)
  then have "skeleton (concat (map (bucket_row_html s (password_query pw)) (b_Files b))) =
      skeleton (concat (map (bucket_row_html r (password_query pw')) (b_Files c)))"
    by (rule skeleton_list_all2)
  moreover have "skeleton (Sprintf ''/b/%s/zip%s'' [S s, S (password_query pw)]) =
      skeleton (Sprintf ''/b/%s/zip%s'' [S r, S (password_query pw')])"
    using assms(1,2) pq by (intro skeleton_Sprintf) simp
  moreover have "skeleton (case t of None \<Rightarrow> ''Never expires'' | Some i \<Rightarrow> ''Expires '' @ minute_stamp i) =
      skeleton (case u of None \<Rightarrow> ''Never expires'' | Some i \<Rightarrow> ''Expires '' @ minute_stamp i)"
    by (simp add: skeleton_Cons markup_def split: option.split)
  ultimately show ?thesis
    unfolding bucket_page_def Let_def by (intro skeleton_Sprintf) (use assms in simp)
qed

text \<open>
  The bucket page is the exception: the password that was tried is part of its links and goes
  into the attribute as it is, quotes and angle brackets included.
\<close>

lemma bucket_row_unescaped:
  assumes "password \<noteq> []"
  shows "\<exists>x y. bucket_row_html slug (password_query password) bf =
    x @ ''href='' @ [dquote] @ ''/b/'' @ slug @ ''/file/'' @ bf_StorageKey bf @ ''?password='' @ password @ [dquote] @ y"
proof -
  have "bucket_row_html slug (password_query password) bf =
      (''<tr><td>'' @ htmlEscape (bf_Filename bf) @ ''</td><td class='' @ [dquote] @ ''size-cell'' @ [dquote] @ ''>'' @
        humanSize (bf_Size bf) @ ''</td><td class='' @ [dquote] @ ''action-cell'' @ [dquote] @ ''><a '') @
      ''href='' @ [dquote] @ ''/b/'' @ slug @ ''/file/'' @ bf_StorageKey bf @ ''?password='' @ password @ [dquote] @
      ('' download='' @ [dquote] @ htmlEscape (bf_Filename bf) @ [dquote] @ ''>Download</a></td></tr>'')"
    using assms by (simp add: bucket_row_html_def bucket_row_format_def password_query_def)
  then show ?thesis by blast
qed

end
