(* ===== verification/Sniff.thy ===== *)
theory Sniff
  imports Text File_Entity
begin

text \<open>
  The content type of an upload: http.DetectContentType of the standard library, written out,
  and validateImageMagic (internal/handler/file.go).
\<close>

section \<open>DetectContentType\<close>

text \<open>
  A signature with a mask is a list with a byte per position, \<^const>\<open>None\<close> where the mask is
  zero (the library's masks are all ones or zero).
\<close>

definition match_masked :: "char option list \<Rightarrow> bytes \<Rightarrow> bool" where
  "match_masked pat data \<longleftrightarrow>
     length pat \<le> length data \<and> list_all2 (\<lambda>p b. p = None \<or> p = Some b) pat (take (length pat) data)"

definition bytes_of :: "nat list \<Rightarrow> bytes" where
  "bytes_of ns = map char_of ns"

definition exact :: "bytes \<Rightarrow> char option list" where
  "exact s = map Some s"

definition skip :: "nat \<Rightarrow> char option list" where
  "skip n = replicate n None"

definition upper_mask :: "char \<Rightarrow> char" where
  "upper_mask c = Char (digit0 c) (digit1 c) (digit2 c) (digit3 c) (digit4 c) False (digit6 c) (digit7 c)"

text \<open>An HTML tag matches in any case and must be followed by a blank or the end of the tag.\<close>

definition match_html :: "string \<Rightarrow> bytes \<Rightarrow> bool" where
  "match_html tag data \<longleftrightarrow>
     length tag < length data \<and>
     list_all2 (\<lambda>h b. h = (if CHR ''A'' \<le> h \<and> h \<le> CHR ''Z'' then upper_mask b else b)) tag (take (length tag) data) \<and>
     (data ! length tag = CHR '' '' \<or> data ! length tag = CHR ''>'')"

definition html_tags :: "string list" where
  "html_tags = [''<!DOCTYPE HTML'', ''<HTML'', ''<HEAD'', ''<SCRIPT'', ''<IFRAME'', ''<H1'', ''<DIV'', ''<FONT'',
     ''<TABLE'', ''<A'', ''<STYLE'', ''<TITLE'', ''<B'', ''<BODY'', ''<BR'', ''<P'', ''<!--'']"

definition signatures :: "(char option list \<times> string) list" where
  "signatures =
    [(exact ''%PDF-'', ''application/pdf''),
     (exact ''%!PS-Adobe-'', ''application/postscript''),
     (exact (bytes_of [0xFE, 0xFF]) @ skip 2, ''text/plain; charset=utf-16be''),
     (exact (bytes_of [0xFF, 0xFE]) @ skip 2, ''text/plain; charset=utf-16le''),
     (exact (bytes_of [0xEF, 0xBB, 0xBF]) @ skip 1, ''text/plain; charset=utf-8''),
     (exact (bytes_of [0, 0, 1, 0]), ''image/x-icon''),
     (exact (bytes_of [0, 0, 2, 0]), ''image/x-icon''),
     (exact ''BM'', ''image/bmp''),
     (exact ''GIF87a'', ''image/gif''),
     (exact ''GIF89a'', ''image/gif''),
     (exact ''RIFF'' @ skip 4 @ exact ''WEBPVP'', ''image/webp''),
     (exact (bytes_of [0x89, 0x50, 0x4E, 0x47, 0x0D, 0x0A, 0x1A, 0x0A]), ''image/png''),
     (exact (bytes_of [0xFF, 0xD8, 0xFF]), ''image/jpeg''),
     (exact ''FORM'' @ skip 4 @ exact ''AIFF'', ''audio/aiff''),
     (exact ''ID3'', ''audio/mpeg''),
     (exact (''OggS'' @ bytes_of [0]), ''application/ogg''),
     (exact (''MThd'' @ bytes_of [0, 0, 0, 6]), ''audio/midi''),
     (exact ''RIFF'' @ skip 4 @ exact ''AVI '', ''video/avi''),
     (exact ''RIFF'' @ skip 4 @ exact ''WAVE'', ''audio/wave'')]"

definition late_signatures :: "(char option list \<times> string) list" where
  "late_signatures =
    [(exact (bytes_of [0x1A, 0x45, 0xDF, 0xA3]), ''video/webm''),
     (skip 34 @ exact ''LP'', ''application/vnd.ms-fontobject''),
     (exact (bytes_of [0, 1, 0, 0]), ''font/ttf''),
     (exact ''OTTO'', ''font/otf''),
     (exact ''ttcf'', ''font/collection''),
     (exact ''wOFF'', ''font/woff''),
     (exact ''wOF2'', ''font/woff2''),
     (exact (bytes_of [0x1F, 0x8B, 0x08]), ''application/x-gzip''),
     (exact (''PK'' @ bytes_of [3, 4]), ''application/zip''),
     (exact (''Rar!'' @ bytes_of [0x1A, 7, 0]), ''application/x-rar-compressed''),
     (exact (''Rar!'' @ bytes_of [0x1A, 7, 1, 0]), ''application/x-rar-compressed''),
     (exact (bytes_of [0, 0x61, 0x73, 0x6D]), ''application/wasm'')]"

text \<open>An MP4 file: a box of type ftyp, with a brand starting mp4 at the fifth word or later or the third.\<close>

definition match_mp4 :: "bytes \<Rightarrow> bool" where
  "match_mp4 data \<longleftrightarrow>
     12 \<le> length data \<and>
     (let boxSize = foldl (\<lambda>v c. 256 * v + byte c) 0 (take 4 data) in
        boxSize \<le> length data \<and> boxSize mod 4 = 0 \<and> take 4 (drop 4 data) = ''ftyp'' \<and>
        list_ex (\<lambda>k. let st = 4 * k in 8 \<le> st \<and> st < boxSize \<and> st \<noteq> 12 \<and> take 3 (drop st data) = ''mp4'')
          [0..<Suc (boxSize div 4)])"

definition binary_byte :: "char \<Rightarrow> bool" where
  "binary_byte c \<longleftrightarrow> (let b = byte c in b \<le> 0x08 \<or> b = 0x0B \<or> 0x0E \<le> b \<and> b \<le> 0x1A \<or> 0x1C \<le> b \<and> b \<le> 0x1F)"

definition sniff_blank :: "char \<Rightarrow> bool" where
  "sniff_blank c \<longleftrightarrow> c = CHR 9 \<or> c = CHR 10 \<or> c = CHR 12 \<or> c = CHR 13 \<or> c = CHR '' ''"

definition sniff :: "(char option list \<times> string) list \<Rightarrow> bytes \<Rightarrow> string option" where
  "sniff sigs data = map_option snd (List.find (\<lambda>(pat, ct). match_masked pat data) sigs)"

definition DetectContentType :: "bytes \<Rightarrow> string" where
  "DetectContentType content =
     (let data = take 512 content; text = dropWhile sniff_blank data in
      if list_ex (\<lambda>tag. match_html tag text) html_tags then ''text/html; charset=utf-8''
      else if match_masked (exact ''<?xml'') text then ''text/xml; charset=utf-8''
      else case sniff signatures data of
        Some ct \<Rightarrow> ct
      | None \<Rightarrow>
          if match_mp4 data then ''video/mp4''
          else case sniff late_signatures data of
            Some ct \<Rightarrow> ct
          | None \<Rightarrow>
              if list_ex binary_byte text then ''application/octet-stream''
              else ''text/plain; charset=utf-8'')"

section \<open>Images\<close>

definition imageMagicBytes :: "(string \<times> bytes list) list" where
  "imageMagicBytes =
    [(''image/png'', [bytes_of [0x89, 0x50, 0x4E, 0x47, 0x0D, 0x0A, 0x1A, 0x0A]]),
     (''image/jpeg'', [bytes_of [0xFF, 0xD8, 0xFF]]),
     (''image/gif'', [''GIF87a'', ''GIF89a'']),
     (''image/bmp'', [bytes_of [0x42, 0x4D]])]"

definition validateImageMagic :: "string \<Rightarrow> bytes \<Rightarrow> bool" where
  "validateImageMagic mimeType peek \<longleftrightarrow>
     (if length peek < 4 then False
      else if mimeType = ''image/webp''
      then 12 \<le> length peek \<and> take 4 peek = ''RIFF'' \<and> take 4 (drop 8 peek) = ''WEBP''
      else case map_of imageMagicBytes mimeType of
        None \<Rightarrow> False
      | Some sigs \<Rightarrow> list_ex (\<lambda>sig. length sig \<le> length peek \<and> take (length sig) peek = sig) sigs)"

text \<open>The switch that forces dangerous types to a neutral one, as both upload handlers write it.\<close>

definition neutralise :: "string \<Rightarrow> string" where
  "neutralise mimeType =
     (if mimeType \<in> set [''text/html'', ''text/xml'', ''image/svg+xml'', ''application/xhtml+xml'']
      then ''application/octet-stream'' else mimeType)"

text \<open>The type the file handler stores: detected, neutralised, and an image only with its magic bytes.\<close>

definition file_mime :: "bytes \<Rightarrow> string" where
  "file_mime peek =
     (let mimeType = neutralise (DetectContentType peek) in
      if IsImage mimeType \<and> \<not> validateImageMagic mimeType peek then ''application/octet-stream'' else mimeType)"

definition bucket_mime :: "bytes \<Rightarrow> string" where
  "bucket_mime peek = neutralise (DetectContentType peek)"

section \<open>What is detected\<close>

text \<open>The types DetectContentType can answer.\<close>

definition detected_types :: "string list" where
  "detected_types = [''text/html; charset=utf-8'', ''text/xml; charset=utf-8'', ''video/mp4'', ''application/octet-stream'',
     ''text/plain; charset=utf-8''] @ map snd signatures @ map snd late_signatures"

lemma sniff_types: "sniff sigs data = Some ct \<Longrightarrow> ct \<in> set (map snd sigs)"
  by (force simp: sniff_def find_Some_iff in_set_conv_nth)

lemma DetectContentType_types: "DetectContentType data \<in> set detected_types"
  by (auto simp: DetectContentType_def Let_def detected_types_def dest: sniff_types split: option.split)

lemma detected_distinct_from_switch:
  "set detected_types \<inter> {''text/html'', ''text/xml'', ''image/svg+xml'', ''application/xhtml+xml''} = {}"
  by (simp add: detected_types_def signatures_def late_signatures_def)

text \<open>The switch compares with types without parameters, which the detector never answers: it is dead.\<close>

lemma neutralise_dead: "neutralise (DetectContentType data) = DetectContentType data"
  using DetectContentType_types [of data] detected_distinct_from_switch by (auto simp: neutralise_def)

text \<open>
  For an image type the detector has already seen the magic bytes, so the second check only
  rejects what is shorter than four bytes.
\<close>

lemma match_exact: "match_masked (exact s) data \<longleftrightarrow> prefix s data"
  by (auto simp: match_masked_def exact_def list.rel_map list.rel_eq prefix_def take_is_prefix dest: sym)
    (metis append_take_drop_id)

lemma match_webp:
  assumes "match_masked (exact ''RIFF'' @ skip 4 @ exact ''WEBPVP'') data"
  shows "12 \<le> length data \<and> take 4 data = ''RIFF'' \<and> take 4 (drop 8 data) = ''WEBP''"
proof -
  from assms have n: "14 \<le> length data"
    and m: "list_all2 (\<lambda>p b. p = None \<or> p = Some b) (exact ''RIFF'' @ skip 4 @ exact ''WEBPVP'') (take 14 data)"
    by (simp_all add: match_masked_def exact_def skip_def)
  from n obtain a b c d e f g h i j k l p q rest where "data = [a, b, c, d, e, f, g, h, i, j, k, l, p, q] @ rest"
    by (auto simp: numeral_eq_Suc Suc_le_length_iff)
  with m show ?thesis by (auto simp: exact_def skip_def numeral_eq_Suc)
qed

lemma image_detected:
  assumes "IsImage (DetectContentType data)"
  shows "sniff signatures (take 512 data) = Some (DetectContentType data)"
proof -
  let ?d = "take 512 data"
  have late: "\<not> IsImage ct" if "sniff late_signatures ?d = Some ct" for ct
    using sniff_types [OF that] by (auto simp: late_signatures_def IsImage_def SupportedImageMIMETypes_def)
  have other: "\<not> IsImage ''text/html; charset=utf-8''" "\<not> IsImage ''text/xml; charset=utf-8''" "\<not> IsImage ''video/mp4''"
    "\<not> IsImage ''application/octet-stream''" "\<not> IsImage ''text/plain; charset=utf-8''"
    by (simp_all add: IsImage_def SupportedImageMIMETypes_def)
  show ?thesis
    using assms other late by (auto simp: DetectContentType_def Let_def split: if_splits option.splits)
qed

lemma image_signatures:
  "filter (\<lambda>s. IsImage (snd s)) signatures =
    [(exact ''BM'', ''image/bmp''), (exact ''GIF87a'', ''image/gif''), (exact ''GIF89a'', ''image/gif''),
     (exact ''RIFF'' @ skip 4 @ exact ''WEBPVP'', ''image/webp''),
     (exact (bytes_of [0x89, 0x50, 0x4E, 0x47, 0x0D, 0x0A, 0x1A, 0x0A]), ''image/png''),
     (exact (bytes_of [0xFF, 0xD8, 0xFF]), ''image/jpeg'')]"
  by (simp add: signatures_def IsImage_def SupportedImageMIMETypes_def)

definition magic_signature :: "char option list \<times> string \<Rightarrow> bool" where
  "magic_signature p \<longleftrightarrow> snd p \<noteq> ''image/webp'' \<and>
     (case map_of imageMagicBytes (snd p) of None \<Rightarrow> False | Some sigs \<Rightarrow> \<exists>s \<in> set sigs. fst p = exact s)"

lemma image_signature_cases:
  assumes "(pat, ct) \<in> set signatures" and "IsImage ct"
  obtains (webp) "pat = exact ''RIFF'' @ skip 4 @ exact ''WEBPVP''" "ct = ''image/webp''"
    | (magic) s sigs where "pat = exact s" "map_of imageMagicBytes ct = Some sigs" "s \<in> set sigs" "ct \<noteq> ''image/webp''"
proof -
  have bmp: "bytes_of [0x42, 0x4D] = ''BM''" by code_simp
  have "list_all (\<lambda>p. magic_signature p \<or> p = (exact ''RIFF'' @ skip 4 @ exact ''WEBPVP'', ''image/webp''))
      (filter (\<lambda>s. IsImage (snd s)) signatures)"
    using bmp unfolding image_signatures by (simp add: magic_signature_def imageMagicBytes_def)
  moreover from assms have "(pat, ct) \<in> set (filter (\<lambda>s. IsImage (snd s)) signatures)" by simp
  ultimately have "magic_signature (pat, ct) \<or> (pat, ct) = (exact ''RIFF'' @ skip 4 @ exact ''WEBPVP'', ''image/webp'')"
    unfolding list_all_iff by blast
  then show thesis
    using webp magic by (auto simp: magic_signature_def split: option.splits)
qed

lemma detected_image_magic:
  assumes img: "IsImage (DetectContentType data)" and len: "4 \<le> length data"
  shows "validateImageMagic (DetectContentType data) data"
proof -
  let ?ct = "DetectContentType data"
  from image_detected [OF img] obtain pat where "(pat, ?ct) \<in> set signatures" and m: "match_masked pat (take 512 data)"
    by (fastforce simp: sniff_def find_Some_iff in_set_conv_nth)
  from this(1) img show ?thesis
  proof (cases rule: image_signature_cases)
    case webp
    from match_webp [OF m [unfolded webp(1)]] len webp(2) show ?thesis
      by (simp add: validateImageMagic_def min_def drop_take split: if_splits)
  next
    case (magic s sigs)
    from m magic(1) have "prefix s data"
      by (auto simp: match_exact dest: prefix_order.trans [OF _ take_is_prefix])
    with magic(2-) len show ?thesis
      by (auto simp: validateImageMagic_def list_ex_iff prefix_def intro!: bexI [of _ s])
  qed
qed

lemma file_mime_cases:
  "file_mime data = DetectContentType data \<and> (IsImage (file_mime data) \<longrightarrow> validateImageMagic (file_mime data) data) \<or>
   file_mime data = ''application/octet-stream'' \<and> length data < 4"
  using detected_image_magic [of data] by (auto simp: file_mime_def neutralise_dead Let_def)

lemma file_mime_image: "IsImage (file_mime data) \<Longrightarrow> validateImageMagic (file_mime data) data"
  by (auto simp: file_mime_def Let_def IsImage_def SupportedImageMIMETypes_def split: if_splits)

end
