(* ===== verification/File_Repo.thy ===== *)
theory File_Repo
  imports Repository File_Entity
begin

text \<open>
  Package internal/storage, file_repo.go: file.Repository on the files table, and its
  interpretation of the repository contract.
\<close>

section \<open>The code\<close>

definition file_of_row :: "file_row \<Rightarrow> file_ent" where
  "file_of_row r =
     \<lparr>f_Slug = fr_slug r, f_Filename = fr_filename r, f_Size = fr_size r, f_MimeType = fr_mime_type r,
      f_PasswordHash = coalesce (fr_password r), f_OneUse = (fr_one_use r = 1), f_Expiry = [],
      f_DeleteSecret = coalesce (fr_delete_secret r),
      f_ExpiresAt = map_option time_Unix (fr_expires_at r)\<rparr>"

definition row_of_file :: "int \<Rightarrow> file_ent \<Rightarrow> instant option \<Rightarrow> file_row" where
  "row_of_file now f expiresAt =
     \<lparr>fr_slug = f_Slug f, fr_filename = f_Filename f, fr_size = f_Size f, fr_mime_type = f_MimeType f,
      fr_password = nullableString (f_PasswordHash f), fr_one_use = boolToInt (f_OneUse f),
      fr_downloaded_at = None, fr_expires_at = map_option unix expiresAt, fr_created_at = now,
      fr_delete_secret = nullableString (f_DeleteSecret f)\<rparr>"

definition fileRepo_Create :: "file_ent \<Rightarrow> instant option \<Rightarrow> world \<Rightarrow> unit result \<times> world" where
  "fileRepo_Create f expiresAt w =
     (case sql_Exec (\<lambda>now d. case tbl_insert fr_slug (row_of_file now f expiresAt) (db_files d) of
          Inl e \<Rightarrow> Inl e | Inr rows \<Rightarrow> Inr ((), d\<lparr>db_files := rows\<rparr>)) w of
        (Inl e, w1) \<Rightarrow> (Inl (Wrap ''file repo create'' e), w1)
      | (Inr u, w1) \<Rightarrow> (Inr (), w1))"

definition fileRepo_GetBySlug :: "string \<Rightarrow> world \<Rightarrow> file_ent result \<times> world" where
  "fileRepo_GetBySlug s w =
     (case sql_Query (\<lambda>now d. tbl_select fr_slug s (db_files d)) w of
        (Inl e, w1) \<Rightarrow> (Inl (Wrap ''file repo get'' e), w1)
      | (Inr None, w1) \<Rightarrow> (Inl (Sentinel File_ErrNotFound), w1)
      | (Inr (Some r), w1) \<Rightarrow> (Inr (file_of_row r), w1))"

definition fileRepo_MarkDownloaded :: "string \<Rightarrow> world \<Rightarrow> bool result \<times> world" where
  "fileRepo_MarkDownloaded s w =
     (case sql_Exec (\<lambda>now d.
          case tbl_update (\<lambda>r. fr_slug r = s \<and> fr_downloaded_at r = None)
                 (\<lambda>r. r\<lparr>fr_downloaded_at := Some now\<rparr>) (db_files d) of
            (n, rows) \<Rightarrow> Inr (n, d\<lparr>db_files := rows\<rparr>)) w of
        (Inl e, w1) \<Rightarrow> (Inl (Wrap ''file repo mark downloaded'' e), w1)
      | (Inr n, w1) \<Rightarrow>
          (case sql_RowsAffected n w1 of
             (Inl e, w2) \<Rightarrow> (Inl (Wrap ''file repo mark downloaded rows'' e), w2)
           | (Inr n, w2) \<Rightarrow> (Inr (n = 1), w2)))"

definition fileRepo_Delete :: "string \<Rightarrow> world \<Rightarrow> unit result \<times> world" where
  "fileRepo_Delete s w =
     (case sql_Exec (\<lambda>now d. Inr ((), d\<lparr>db_files := tbl_delete (\<lambda>r. fr_slug r = s) (db_files d)\<rparr>)) w of
        (Inl e, w1) \<Rightarrow> (Inl (Wrap ''file repo delete'' e), w1)
      | (Inr u, w1) \<Rightarrow> (Inr (), w1))"

definition fileRepo_ListExpired :: "world \<Rightarrow> file_ent list result \<times> world" where
  "fileRepo_ListExpired w =
     (case sql_Query (\<lambda>now d. filter (\<lambda>r. expired_col now (fr_expires_at r)) (db_files d)) w of
        (Inl e, w1) \<Rightarrow> (Inl (Wrap ''file repo list expired'' e), w1)
      | (Inr rows, w1) \<Rightarrow>
          sql_Scan file_of_row ''file repo list expired scan'' ''file repo list expired rows'' rows w1)"

definition fileRepo :: "file_ent repo" where
  "fileRepo = \<lparr>rp_Create = fileRepo_Create, rp_GetBySlug = fileRepo_GetBySlug,
     rp_Mark = fileRepo_MarkDownloaded, rp_Delete = fileRepo_Delete,
     rp_ListExpired = fileRepo_ListExpired\<rparr>"

section \<open>The contract\<close>

definition file_view :: "db \<Rightarrow> string \<Rightarrow> file_ent option" where
  "file_view d s = map_option file_of_row (tbl_select fr_slug s (db_files d))"

definition file_used :: "db \<Rightarrow> string \<Rightarrow> bool" where
  "file_used d s = (case tbl_select fr_slug s (db_files d) of
     None \<Rightarrow> False | Some r \<Rightarrow> fr_downloaded_at r \<noteq> None)"

definition file_stored :: "file_ent \<Rightarrow> instant option \<Rightarrow> file_ent" where
  "file_stored f t = f\<lparr>f_Expiry := [], f_ExpiresAt := map_option to_second t\<rparr>"

definition files_ok :: "db \<Rightarrow> bool" where
  "files_ok d = keyed fr_slug (db_files d)"

definition not_files :: "db \<Rightarrow> bucket_row list \<times> bucket_file_row list \<times> int \<times> paste_row list" where
  "not_files d = (db_buckets d, db_bucket_files d, db_bucket_files_seq d, db_pastes d)"

lemma file_of_row_of_file: "file_of_row (row_of_file now f t) = file_stored f t"
  by (cases f) (simp add: file_of_row_def row_of_file_def file_stored_def to_second_def [abs_def]
      option.map_comp comp_def)

lemma row_of_file_sel [simp]:
  "fr_slug (row_of_file now f t) = f_Slug f" "fr_downloaded_at (row_of_file now f t) = None"
  by (simp_all add: row_of_file_def)

lemma file_of_row_sel [simp]:
  "f_Slug (file_of_row r) = fr_slug r" "f_ExpiresAt (file_of_row r) = map_option time_Unix (fr_expires_at r)"
  by (simp_all add: file_of_row_def)

lemma file_of_row_mark [simp]: "file_of_row (r\<lparr>fr_downloaded_at := v\<rparr>) = file_of_row r"
  by (simp add: file_of_row_def)

lemma fileRepo_sel [simp]:
  "rp_Create fileRepo = fileRepo_Create" "rp_GetBySlug fileRepo = fileRepo_GetBySlug"
  "rp_Mark fileRepo = fileRepo_MarkDownloaded" "rp_Delete fileRepo = fileRepo_Delete"
  "rp_ListExpired fileRepo = fileRepo_ListExpired"
  by (simp_all add: fileRepo_def)

lemma fileRepo_Create_spec:
  assumes "fileRepo_Create f t w = (x, w')"
  shows "same_but_db w w'" "not_files (w_db w') = not_files (w_db w)"
    "files_ok (w_db w) \<Longrightarrow> files_ok (w_db w')"
    "x = Inl e \<Longrightarrow> w_db w' = w_db w \<and> low_error e"
    "x = Inr u \<Longrightarrow> file_view (w_db w) (f_Slug f) = None \<and>
       file_view (w_db w') = (file_view (w_db w))(f_Slug f \<mapsto> file_stored f t) \<and>
       file_used (w_db w') = (file_used (w_db w))(f_Slug f := False)"
  using assms
  by (auto simp: fileRepo_Create_def sql_Exec_def not_files_def files_ok_def file_view_def
      file_used_def fun_eq_iff tbl_insert_Inr file_of_row_of_file
      split: if_splits sum.splits dest: tbl_insert_Inl tbl_insert_Inr(1,3))

lemma fileRepo_Create_calm:
  assumes "all_calm w" and "file_view (w_db w) (f_Slug f) = None"
  shows "fst (fileRepo_Create f t w) = Inr ()"
  using assms tbl_insert_fresh [of fr_slug "row_of_file (unix (w_now w)) f t" "db_files (w_db w)"]
  by (simp add: fileRepo_Create_def sql_Exec_def file_view_def)

lemma fileRepo_Get_spec:
  assumes "fileRepo_GetBySlug s w = (x, w')"
  shows "same_but_env w w'" "x = Inr f \<Longrightarrow> file_view (w_db w) s = Some f"
    "x = Inl e \<Longrightarrow> e = Sentinel File_ErrNotFound \<and> file_view (w_db w) s = None \<or> low_error e"
  using assms
  by (auto simp: fileRepo_GetBySlug_def sql_Query_def file_view_def split: if_splits option.splits)

lemma fileRepo_Get_calm:
  "all_calm w \<Longrightarrow> fst (fileRepo_GetBySlug s w) =
    (case file_view (w_db w) s of None \<Rightarrow> Inl (Sentinel File_ErrNotFound) | Some f \<Rightarrow> Inr f)"
  by (simp add: fileRepo_GetBySlug_def sql_Query_calm file_view_def split: option.split)

lemma fileRepo_Mark_spec:
  assumes "fileRepo_MarkDownloaded s w = (x, w')"
  shows "same_but_db w w'" "not_files (w_db w') = not_files (w_db w)"
    "files_ok (w_db w) \<Longrightarrow> files_ok (w_db w')" "file_view (w_db w') = file_view (w_db w)"
    "x = Inl e \<Longrightarrow> low_error e \<and> (file_used (w_db w') = file_used (w_db w) \<or>
       file_used (w_db w') = (file_used (w_db w))(s := file_view (w_db w) s \<noteq> None))"
    "x = Inr c \<Longrightarrow> files_ok (w_db w) \<Longrightarrow>
       c = (file_view (w_db w) s \<noteq> None \<and> \<not> file_used (w_db w) s) \<and>
       file_used (w_db w') = (file_used (w_db w))(s := file_view (w_db w) s \<noteq> None)"
proof -
  let ?cond = "\<lambda>r. fr_slug r = s \<and> fr_downloaded_at r = None"
  let ?mark = "\<lambda>r. r\<lparr>fr_downloaded_at := Some (unix (w_now w))\<rparr>"
  let ?rows = "db_files (w_db w)"
  let ?d = "(w_db w)\<lparr>db_files := snd (tbl_update ?cond ?mark ?rows)\<rparr>"
  have sel: "tbl_select fr_slug k (db_files ?d) =
      map_option (\<lambda>r. if ?cond r then ?mark r else r) (tbl_select fr_slug k ?rows)" for k
    by (simp add: tbl_update_select)
  have view: "file_view ?d = file_view (w_db w)"
    by (simp add: file_view_def fun_eq_iff tbl_update_view)
  have used: "file_used ?d = (file_used (w_db w))(s := file_view (w_db w) s \<noteq> None)"
    by (auto simp: file_used_def file_view_def fun_eq_iff tbl_update_select
        dest: tbl_select_key split: option.split)
  have ok: "files_ok (w_db w) \<Longrightarrow> files_ok ?d"
    by (simp add: files_ok_def tbl_update_keyed)
  have n: "fst (tbl_update ?cond ?mark ?rows) =
      (case tbl_select fr_slug s ?rows of None \<Rightarrow> 0 | Some r \<Rightarrow> if ?cond r then 1 else 0)"
    if "files_ok (w_db w)"
    using that by (intro tbl_update_count) (auto simp: files_ok_def)
  note defs = fileRepo_MarkDownloaded_def sql_Exec_def sql_RowsAffected_def case_prod_beta
  show "same_but_db w w'" "not_files (w_db w') = not_files (w_db w)"
    "files_ok (w_db w) \<Longrightarrow> files_ok (w_db w')" "file_view (w_db w') = file_view (w_db w)"
    "x = Inl e \<Longrightarrow> low_error e \<and> (file_used (w_db w') = file_used (w_db w) \<or>
       file_used (w_db w') = (file_used (w_db w))(s := file_view (w_db w) s \<noteq> None))"
    using assms view used ok by (auto simp: defs not_files_def split: if_splits)
  show "x = Inr c \<Longrightarrow> files_ok (w_db w) \<Longrightarrow>
       c = (file_view (w_db w) s \<noteq> None \<and> \<not> file_used (w_db w) s) \<and>
       file_used (w_db w') = (file_used (w_db w))(s := file_view (w_db w) s \<noteq> None)"
    using assms used n
    by (auto simp: defs file_view_def file_used_def dest: tbl_select_key split: if_splits option.splits)
qed

lemma fileRepo_Mark_calm:
  assumes "all_calm w" and "files_ok (w_db w)"
  shows "fst (fileRepo_MarkDownloaded s w) = Inr (file_view (w_db w) s \<noteq> None \<and> \<not> file_used (w_db w) s)"
proof -
  obtain c w' where m: "fileRepo_MarkDownloaded s w = (Inr c, w')"
    using assms(1) by (simp add: fileRepo_MarkDownloaded_def sql_Exec_def sql_RowsAffected_def case_prod_beta)
  from fileRepo_Mark_spec(6) [OF this refl assms(2)] m show ?thesis by simp
qed

lemma fileRepo_Delete_spec:
  assumes "fileRepo_Delete s w = (x, w')"
  shows "same_but_db w w'" "not_files (w_db w') = not_files (w_db w)"
    "files_ok (w_db w) \<Longrightarrow> files_ok (w_db w')"
    "x = Inl e \<Longrightarrow> w_db w' = w_db w \<and> low_error e"
    "x = Inr u \<Longrightarrow> file_view (w_db w') = (file_view (w_db w))(s := None) \<and>
       file_used (w_db w') = (file_used (w_db w))(s := False)"
  using assms
  by (auto simp: fileRepo_Delete_def sql_Exec_def not_files_def files_ok_def file_view_def
      file_used_def fun_eq_iff tbl_delete_select tbl_delete_keyed split: if_splits)

lemma fileRepo_Delete_calm: "all_calm w \<Longrightarrow> fst (fileRepo_Delete s w) = Inr ()"
  by (simp add: fileRepo_Delete_def sql_Exec_def)

lemma fileRepo_List_spec:
  assumes "fileRepo_ListExpired w = (x, w')"
  shows "same_but_env w w'" "x = Inl e \<Longrightarrow> low_error e"
    "x = Inr fs \<Longrightarrow> fs = map file_of_row (filter (\<lambda>r. expired_col (unix (w_now w)) (fr_expires_at r)) (db_files (w_db w)))"
  using assms
  by (auto simp: fileRepo_ListExpired_def sql_Query_def
      split: if_splits sum.splits dest!: sql_Scan_spec intro: same_but_env_trans [of w "rest w"])

lemma fileRepo_List_set:
  assumes "fileRepo_ListExpired w = (Inr fs, w')" and "files_ok (w_db w)"
  shows "distinct (map f_Slug fs) \<and> set fs = {f. \<exists>s t. file_view (w_db w) s = Some f \<and>
    f_ExpiresAt f = Some t \<and> unix t < unix (w_now w)}"
proof -
  note l = fileRepo_List_spec(3) [OF assms(1) refl]
  have "map f_Slug fs = map fr_slug (filter (\<lambda>r. expired_col (unix (w_now w)) (fr_expires_at r)) (db_files (w_db w)))"
    by (simp add: l comp_def)
  then have "distinct (map f_Slug fs)"
    using assms(2) by (simp add: files_ok_def keyed_def distinct_map_filter_key)
  moreover have "f \<in> set fs \<longleftrightarrow> (\<exists>s t. file_view (w_db w) s = Some f \<and>
    f_ExpiresAt f = Some t \<and> unix t < unix (w_now w))" for f
    using assms(2)
    by (fastforce simp: l files_ok_def file_view_def tbl_select_Some expired_col_iff)
  ultimately show ?thesis by auto
qed

lemma fileRepo_List_calm:
  assumes "all_calm w"
  shows "\<exists>fs. fst (fileRepo_ListExpired w) = Inr fs"
proof -
  let ?rows = "filter (\<lambda>r. expired_col (unix (w_now w)) (fr_expires_at r)) (db_files (w_db w))"
  from assms obtain w' where "sql_Scan file_of_row ''file repo list expired scan''
      ''file repo list expired rows'' ?rows (rest w) = (Inr (map file_of_row ?rows), w')"
    using sql_Scan_calm [OF rest_calm] by blast
  with assms show ?thesis by (simp add: fileRepo_ListExpired_def sql_Query_calm)
qed

lemma file_view_laws:
  "file_view d s = Some f \<Longrightarrow> f_Slug f = s"
  "file_view d s = Some f \<Longrightarrow> f_ExpiresAt f = Some i \<Longrightarrow> time_Unix (unix i) = i"
  "file_used d s \<Longrightarrow> file_view d s \<noteq> None"
  by (auto simp: file_view_def file_used_def dest: tbl_select_key split: option.splits)

lemmas fileRepo_laws =
  conjI [OF fileRepo_Create_spec(1,2)] fileRepo_Get_spec(1) conjI [OF fileRepo_Mark_spec(1,2)]
  conjI [OF fileRepo_Delete_spec(1,2)] fileRepo_List_spec(1)
  fileRepo_Create_spec(3) fileRepo_Mark_spec(3) fileRepo_Delete_spec(3)
  fileRepo_Create_spec(5) [OF _ refl] fileRepo_Create_spec(4) [OF _ refl] fileRepo_Create_calm
  fileRepo_Get_spec(2,3) [OF _ refl] fileRepo_Get_calm
  fileRepo_Mark_spec(4) fileRepo_Mark_spec(6,5) [OF _ refl] fileRepo_Mark_calm
  fileRepo_Delete_spec(5,4) [OF _ refl] fileRepo_Delete_calm
  fileRepo_List_set fileRepo_List_spec(2) [OF _ refl] fileRepo_List_calm file_view_laws

interpretation fr: repository fileRepo file_view file_used f_Slug f_ExpiresAt file_stored
  files_ok not_files File_ErrNotFound
  by (unfold_locales, unfold fileRepo_sel) ((rule fileRepo_laws, assumption+) | simp)+

end
