(* ===== verification/File_Service.thy ===== *)
theory File_Service
  imports Service_Common File_Repo
begin

text \<open>
  Package internal/domain/file, service.go: upload, download, metadata and deletion of a file, on
  any file store and any repository that meet their contracts (locale \<open>file_service_laws\<close>), and
  on LocalFS with the files table (interpretation \<open>fsv\<close>).
\<close>

section \<open>The code\<close>

record file_service =
  fsv_repo :: "file_ent repo"
  fsv_store :: backend
  fsv_baseURL :: string

record file_UploadRequest =
  fu_Filename :: string
  fu_MimeType :: string
  fu_Size :: int
  fu_Expiry :: string
  fu_Password :: string
  fu_OneUse :: bool
  fu_Content :: reader

record file_UploadResult =
  fur_Slug :: string
  fur_URL :: string
  fur_DeleteURL :: string
  fur_ExpiresAt :: "instant option"
  fur_IsImage :: bool

record file_GetResult =
  fg_F :: file_ent
  fg_Content :: bytes
  fg_ExpiresAt :: "instant option"
  fg_IsImage :: bool

text \<open>Persisting an upload: bytes first, then the row, with the bytes removed when the row fails.\<close>

definition File_persist :: "file_service \<Rightarrow> file_ent \<Rightarrow> reader \<Rightarrow> instant option \<Rightarrow> unit io" where
  "File_persist s f content expiresAt =
     wrap ''file service upload: write bytes'' (be_Write (fsv_store s) (f_Slug f) content) (\<lambda>u.
     wrap_undo ''file service upload: persist metadata'' (rp_Create (fsv_repo s) f expiresAt)
       (\<lambda>w. snd (be_Delete (fsv_store s) (f_Slug f) w)) (\<lambda>u.
     pure_result (Inr ())))"

definition File_result :: "file_service \<Rightarrow> file_UploadRequest \<Rightarrow> string \<Rightarrow> string \<Rightarrow> instant option \<Rightarrow> file_UploadResult" where
  "File_result s req shareSlug deleteSecret expiresAt =
     \<lparr>fur_Slug = shareSlug,
      fur_URL = fsv_baseURL s @ ''/'' @ shareSlug @ ''/info'',
      fur_DeleteURL = fsv_baseURL s @ ''/delete/'' @ shareSlug @ ''/'' @ deleteSecret,
      fur_ExpiresAt = expiresAt,
      fur_IsImage = IsImage (fu_MimeType req)\<rparr>"

definition File_Upload :: "bcrypt \<Rightarrow> file_service \<Rightarrow> file_UploadRequest \<Rightarrow> file_UploadResult io" where
  "File_Upload bc s req =
     wrap ''file service upload: generate slug'' (slug_io slugLength) (\<lambda>shareSlug.
     wrap ''file service upload: generate delete secret'' (slug_io deleteSecretLength) (\<lambda>deleteSecret.
     wrap ''file service upload: hash password'' (hash_password bc (fu_Password req)) (\<lambda>passwordHash.
     wrap ''file service upload: construct entity''
       (pure_result (file_New shareSlug (fu_Filename req) (fu_MimeType req) (fu_Expiry req) deleteSecret
          (fu_Size req) passwordHash (fu_OneUse req))) (\<lambda>f w.
     case file_ExpiryDuration (fu_Expiry req) of
       Inl p \<Rightarrow> (Inl p, w)
     | Inr d \<Rightarrow>
         let expiresAt = expiry_instant d (w_now w) in
         case File_persist s f (fu_Content req) expiresAt w of
           (Inl e, w1) \<Rightarrow> (Inl e, w1)
         | (Inr u, w1) \<Rightarrow> (Inr (File_result s req shareSlug deleteSecret expiresAt), w1)))))"

definition File_read :: "file_service \<Rightarrow> file_ent \<Rightarrow> string \<Rightarrow> file_GetResult io" where
  "File_read s f shareSlug =
     wrap ''file service get: read bytes'' (be_Read (fsv_store s) shareSlug) (\<lambda>rc.
       pure_result (Inr \<lparr>fg_F = f, fg_Content = rc, fg_ExpiresAt = f_ExpiresAt f,
         fg_IsImage = IsImage (f_MimeType f)\<rparr>))"

definition File_Get :: "bcrypt \<Rightarrow> file_service \<Rightarrow> string \<Rightarrow> string \<Rightarrow> file_GetResult io" where
  "File_Get bc s shareSlug passwordAttempt =
     lookup File_ErrNotFound ''file service get: lookup'' (rp_GetBySlug (fsv_repo s) shareSlug) (\<lambda>f w.
       if is_expired (w_now w) (f_ExpiresAt f) then (Inl (Sentinel File_ErrExpired), w)
       else if \<not> check_password bc (f_PasswordHash f) passwordAttempt
       then (Inl (Sentinel File_ErrWrongPassword), w)
       else if f_OneUse f
       then wrap ''file service get: mark downloaded'' (rp_Mark (fsv_repo s) shareSlug) (\<lambda>consumed.
              if \<not> consumed then pure_result (Inl (Sentinel File_ErrAlreadyConsumed))
              else File_read s f shareSlug) w
       else File_read s f shareSlug w)"

definition File_GetMeta :: "file_service \<Rightarrow> string \<Rightarrow> file_ent io" where
  "File_GetMeta s shareSlug =
     lookup File_ErrNotFound ''file service get meta: lookup'' (rp_GetBySlug (fsv_repo s) shareSlug) (\<lambda>f w.
       if is_expired (w_now w) (f_ExpiresAt f) then (Inl (Sentinel File_ErrExpired), w)
       else (Inr f, w))"

definition File_Delete :: "file_service \<Rightarrow> string \<Rightarrow> string \<Rightarrow> unit io" where
  "File_Delete s shareSlug deleteSecret =
     lookup File_ErrNotFound ''file service delete: lookup'' (rp_GetBySlug (fsv_repo s) shareSlug) (\<lambda>f.
       if ConstantTimeCompare (f_DeleteSecret f) deleteSecret \<noteq> 1
       then pure_result (Inl (Sentinel File_ErrBadDeleteSecret))
       else
         wrap ''file service delete: remove bytes'' (be_Delete (fsv_store s) shareSlug) (\<lambda>u.
         wrap ''file service delete: remove metadata'' (rp_Delete (fsv_repo s) shareSlug) (\<lambda>u.
           pure_result (Inr ()))))"

section \<open>The service on its contracts\<close>

text \<open>What a reader of an existing, stored entity gets: the decision File_Get takes.\<close>

definition file_access :: "bcrypt \<Rightarrow> instant \<Rightarrow> string \<Rightarrow> bool \<Rightarrow> file_ent \<Rightarrow> unit result" where
  "file_access bc now password used f =
     (if is_expired now (f_ExpiresAt f) then Inl (Sentinel File_ErrExpired)
      else if \<not> check_password bc (f_PasswordHash f) password then Inl (Sentinel File_ErrWrongPassword)
      else if f_OneUse f \<and> used then Inl (Sentinel File_ErrAlreadyConsumed)
      else Inr ())"

text \<open>
  A failed upload: the database is as before. The file store is as before, too, unless the
  failure was the insertion of the row. Then the cleanup ran: either it failed as well and the
  bytes stay (an orphan), or the key is free now, also when another entity held it before.
\<close>

definition upload_residue :: "(string \<Rightarrow> bytes option) \<Rightarrow> string \<Rightarrow> bytes \<Rightarrow> (string \<Rightarrow> bytes option) \<Rightarrow> bool" where
  "upload_residue c k d c' \<longleftrightarrow> c' = c \<or> c' = c(k \<mapsto> d) \<or> c' = c(k := None)"

text \<open>The steps of an upload, one by one.\<close>

lemma File_Upload_Inr_parts:
  assumes "File_Upload bc s req w = (Inr res, w')"
  obtains slug w1 secret w2 h w3 f d where "slug_io slugLength w = (Inr slug, w1)"
    "slug_io deleteSecretLength w1 = (Inr secret, w2)" "hash_password bc (fu_Password req) w2 = (Inr h, w3)"
    "file_New slug (fu_Filename req) (fu_MimeType req) (fu_Expiry req) secret (fu_Size req) h (fu_OneUse req) = Inr f"
    "map_of file_validExpiries (fu_Expiry req) = Some d"
    "File_persist s f (fu_Content req) (expiry_instant d (w_now w3)) w3 = (Inr (), w')"
    "res = File_result s req slug secret (expiry_instant d (w_now w3))"
proof -
  from assms obtain slug w1 secret w2 h w3 where 1: "slug_io slugLength w = (Inr slug, w1)"
    "slug_io deleteSecretLength w1 = (Inr secret, w2)" "hash_password bc (fu_Password req) w2 = (Inr h, w3)"
    unfolding File_Upload_def wrap_Inr by blast
  obtain f where 2: "file_New slug (fu_Filename req) (fu_MimeType req) (fu_Expiry req) secret (fu_Size req)
      h (fu_OneUse req) = Inr f"
    using assms 1 by (cases "file_New slug (fu_Filename req) (fu_MimeType req) (fu_Expiry req) secret
      (fu_Size req) h (fu_OneUse req)") (auto simp: File_Upload_def)
  with file_New_Inr(2) obtain d where 3: "map_of file_validExpiries (fu_Expiry req) = Some d" by blast
  obtain x w4 where 4: "File_persist s f (fu_Content req) (expiry_instant d (w_now w3)) w3 = (x, w4)" by force
  with assms 1 2 3 have "x = Inr ()" "w4 = w'" "res = File_result s req slug secret (expiry_instant d (w_now w3))"
    by (auto simp: File_Upload_def file_ExpiryDuration_def split: sum.splits)
  with that 1 2 3 4 show thesis by blast
qed

lemma File_Upload_Inl_parts:
  assumes "File_Upload bc s req w = (Inl er, w')" and bc: "bcrypt_ok bc"
  obtains (early) "w_db w' = w_db w" "w_fs w' = w_fs w" "w_now w' = w_now w" "all_calm w' = all_calm w" "low_error er"
  | (invalid) "w_db w' = w_db w" "w_fs w' = w_fs w" "w_now w' = w_now w" "all_calm w' = all_calm w"
      "er = Wrap ''file service upload: construct entity'' (Sentinel File_ErrInvalidExpiry)"
      "map_of file_validExpiries (fu_Expiry req) = None"
  | (persist) w3 f t where "w_db w3 = w_db w" "w_fs w3 = w_fs w" "w_now w3 = w_now w" "all_calm w3 = all_calm w"
      "File_persist s f (fu_Content req) t w3 = (Inl er, w')"
proof (cases "slug_io slugLength w")
  case (Pair x w1)
  note 1 = Pair slug_io_frame [OF Pair]
  show thesis
  proof (cases x)
    case (Inl e)
    with assms 1 slug_io_low_error show thesis by (auto simp: File_Upload_def intro!: early)
  next
    case (Inr slug)
    obtain y w2 where 2: "slug_io deleteSecretLength w1 = (y, w2)" by force
    note 2 = this slug_io_frame [OF this]
    obtain z w3 where 3: "hash_password bc (fu_Password req) w2 = (z, w3)" by force
    note 3 = this hash_password_frame [OF this]
    show thesis
    proof (cases "\<exists>e. y = Inl e \<or> z = Inl e")
      case True
      with assms 1 Inr 2 3 slug_io_low_error hash_password_low [OF bc] show thesis
        by (cases y; cases z) (auto simp: File_Upload_def intro!: early)
    next
      case False
      then obtain secret h where sh: "y = Inr secret" "z = Inr h" by (cases y; cases z) auto
      have slug: "slug \<noteq> []" using slug_io_ok(3) Pair Inr by blast
      show thesis
      proof (cases "map_of file_validExpiries (fu_Expiry req)")
        case None
        with assms 1 Inr 2 3 sh slug show thesis
          by (auto simp: File_Upload_def file_New_def intro!: invalid)
      next
        case (Some d)
        with slug obtain f where f: "file_New slug (fu_Filename req) (fu_MimeType req) (fu_Expiry req) secret
            (fu_Size req) h (fu_OneUse req) = Inr f" by (simp add: file_New_def)
        with assms 1 Inr 2 3 sh Some show thesis
          by (intro persist [of w3 f "expiry_instant d (w_now w3)"])
            (auto simp: File_Upload_def file_ExpiryDuration_def Let_def split: prod.splits sum.splits)
      qed
    qed
  qed
qed

text \<open>The entity an upload stores, as it comes back from the repository.\<close>

definition uploaded_file :: "file_UploadRequest \<Rightarrow> string \<Rightarrow> string \<Rightarrow> string \<Rightarrow> instant option \<Rightarrow> file_ent" where
  "uploaded_file req slug secret h t =
     \<lparr>f_Slug = slug, f_Filename = fu_Filename req, f_Size = fu_Size req, f_MimeType = fu_MimeType req,
      f_PasswordHash = h, f_OneUse = fu_OneUse req, f_Expiry = [], f_DeleteSecret = secret,
      f_ExpiresAt = map_option to_second t\<rparr>"

lemma file_access_Inr:
  "file_access bc now pw u e = Inr x \<longleftrightarrow> \<not> is_expired now (f_ExpiresAt e) \<and>
     check_password bc (f_PasswordHash e) pw \<and> \<not> (f_OneUse e \<and> u)"
  by (simp add: file_access_def)

lemma file_access_Inl:
  "file_access bc now pw u e = Inl er \<longleftrightarrow>
     is_expired now (f_ExpiresAt e) \<and> er = Sentinel File_ErrExpired \<or>
     \<not> is_expired now (f_ExpiresAt e) \<and>
       (\<not> check_password bc (f_PasswordHash e) pw \<and> er = Sentinel File_ErrWrongPassword \<or>
        check_password bc (f_PasswordHash e) pw \<and> f_OneUse e \<and> u \<and> er = Sentinel File_ErrAlreadyConsumed)"
  by (auto simp: file_access_def)

locale file_service_laws =
  store: file_store B content key_ok fok clean +
  repo: repository R view used f_Slug f_ExpiresAt file_stored dok other File_ErrNotFound
  for B :: backend and content key_ok fok clean
    and R :: "file_ent repo" and view used dok and other :: "db \<Rightarrow> 'o" +
  assumes slug_key: "s \<noteq> [] \<Longrightarrow> list_all alnum s \<Longrightarrow> key_ok s"
begin

abbreviation svc :: "string \<Rightarrow> file_service" where
  "svc url \<equiv> \<lparr>fsv_repo = R, fsv_store = B, fsv_baseURL = url\<rparr>"

lemmas frames = frame store.store_frames store.delete_undo repo.repo_frames

lemma persist_frame: "keeps (svc_frame other dok fok) (File_persist (svc url) f r t)"
  unfolding File_persist_def file_service.simps by (intro frames)

lemma persist_Inr:
  assumes "File_persist (svc url) f r t w = (Inr u, w')" and "dok (w_db w)"
  shows "w_now w' = w_now w" "w_rand w' = w_rand w" "all_calm w \<Longrightarrow> all_calm w'"
    and "content (w_fs w') = (content (w_fs w))(f_Slug f \<mapsto> rd_data r)" "\<not> rd_fails r"
    and "view (w_db w) (f_Slug f) = None"
    and "view (w_db w') = (view (w_db w))(f_Slug f \<mapsto> file_stored f t)"
    and "used (w_db w') = (used (w_db w))(f_Slug f := False)"
proof -
  from assms(1) obtain w1 where wr: "be_Write B (f_Slug f) r w = (Inr (), w1)"
    and cr: "rp_Create R f t w1 = (Inr (), w')"
    by (auto simp: File_persist_def wrap_eq wrap_undo_eq)
  note fs = store.Write_frame [OF wr] and db = repo.Create_frame [OF cr, THEN conjunct1]
  from same_but_fsD [OF fs] same_but_dbD [OF db] assms(2) store.Write_Inr [OF wr] repo.Create_Inr [OF cr]
  show "w_now w' = w_now w" "w_rand w' = w_rand w" "all_calm w \<Longrightarrow> all_calm w'"
    "content (w_fs w') = (content (w_fs w))(f_Slug f \<mapsto> rd_data r)" "\<not> rd_fails r"
    "view (w_db w) (f_Slug f) = None"
    "view (w_db w') = (view (w_db w))(f_Slug f \<mapsto> file_stored f t)"
    "used (w_db w') = (used (w_db w))(f_Slug f := False)"
    by simp_all
qed

lemma persist_Inl:
  assumes "File_persist (svc url) f r t w = (Inl er, w')"
  shows "w_now w' = w_now w" "w_rand w' = w_rand w" "w_db w' = w_db w" "all_calm w \<Longrightarrow> all_calm w'"
    and "low_error er"
    and "upload_residue (content (w_fs w)) (f_Slug f) (rd_data r) (content (w_fs w'))"
    and "fok (w_fs w) \<Longrightarrow> fok (w_fs w')"
proof -
  have "w_now w' = w_now w \<and> w_rand w' = w_rand w \<and> w_db w' = w_db w \<and> (all_calm w \<longrightarrow> all_calm w') \<and>
    low_error er \<and> upload_residue (content (w_fs w)) (f_Slug f) (rd_data r) (content (w_fs w')) \<and>
    (fok (w_fs w) \<longrightarrow> fok (w_fs w'))"
  proof (cases "be_Write B (f_Slug f) r w")
    case (Pair x w1)
    note fs = store.Write_frame [OF Pair] and inv = store.Write_inv [OF Pair]
    show ?thesis
    proof (cases x)
      case (Inl e)
      with assms Pair have "er = Wrap ''file service upload: write bytes'' e" "w' = w1"
        by (auto simp: File_persist_def)
      with Inl Pair same_but_fsD [OF fs] inv store.Write_Inl store.Write_low show ?thesis
        by (auto simp: upload_residue_def)
    next
      case (Inr u)
      obtain y w2 where cr: "rp_Create R f t w1 = (y, w2)" by force
      obtain z w3 where dl: "be_Delete B (f_Slug f) w2 = (z, w3)" by force
      from assms Pair Inr cr dl obtain e where y: "y = Inl e" and w': "w' = w3"
        and er: "er = Wrap ''file service upload: persist metadata'' e"
        by (cases y) (auto simp: File_persist_def)
      note db = repo.Create_frame [OF cr, THEN conjunct1] and fs' = store.Delete_frame [OF dl]
      have "content (w_fs w2) = (content (w_fs w))(f_Slug f \<mapsto> rd_data r)"
        using store.Write_Inr Pair Inr same_but_dbD(3) [OF db] by simp
      then have "upload_residue (content (w_fs w)) (f_Slug f) (rd_data r) (content (w_fs w3))"
        using store.Delete_Inr [of _ w2 _ w3] store.Delete_Inl [of _ w2 _ w3] dl
        by (cases z) (auto simp: upload_residue_def)
      with repo.Create_Inl [OF cr [unfolded y]] same_but_fsD [OF fs] same_but_dbD [OF db]
        same_but_fsD [OF fs'] inv store.Delete_inv [OF dl] w' er
      show ?thesis by simp
    qed
  qed
  then show "w_now w' = w_now w" "w_rand w' = w_rand w" "w_db w' = w_db w" "all_calm w \<Longrightarrow> all_calm w'"
    "low_error er" "upload_residue (content (w_fs w)) (f_Slug f) (rd_data r) (content (w_fs w'))"
    "fok (w_fs w) \<Longrightarrow> fok (w_fs w')" by blast+
qed

text \<open>A successful upload adds exactly one entity and its bytes.\<close>

lemma Upload_Inr:
  assumes "File_Upload bc (svc url) req w = (Inr res, w')" and ok: "dok (w_db w)" and bc: "bcrypt_ok bc"
  obtains slug secret h d where "fst (slug_io slugLength w) = Inr slug"
    "length slug = 12" "set slug \<subseteq> set charset" "length secret = 24"
    "check_password bc h (fu_Password req)" "h = [] \<longleftrightarrow> fu_Password req = []"
    "map_of file_validExpiries (fu_Expiry req) = Some d"
    "res = File_result (svc url) req slug secret (expiry_instant d (w_now w))"
    "view (w_db w) slug = None"
    "view (w_db w') = (view (w_db w))(slug \<mapsto> uploaded_file req slug secret h (expiry_instant d (w_now w)))"
    "used (w_db w') = (used (w_db w))(slug := False)"
    "content (w_fs w') = (content (w_fs w))(slug \<mapsto> rd_data (fu_Content req))"
    "\<not> rd_fails (fu_Content req)" "w_now w' = w_now w" "all_calm w \<Longrightarrow> all_calm w'"
proof -
  from File_Upload_Inr_parts [OF assms(1)] obtain slug w1 secret w2 h w3 f d where
    1: "slug_io slugLength w = (Inr slug, w1)" and 2: "slug_io deleteSecretLength w1 = (Inr secret, w2)"
    and 3: "hash_password bc (fu_Password req) w2 = (Inr h, w3)"
    and f: "file_New slug (fu_Filename req) (fu_MimeType req) (fu_Expiry req) secret (fu_Size req) h (fu_OneUse req) = Inr f"
    and d: "map_of file_validExpiries (fu_Expiry req) = Some d"
    and p: "File_persist (svc url) f (fu_Content req) (expiry_instant d (w_now w3)) w3 = (Inr (), w')"
    and res: "res = File_result (svc url) req slug secret (expiry_instant d (w_now w3))"
    by blast
  note fr = slug_io_frame [OF 1] slug_io_frame [OF 2] hash_password_frame [OF 3]
  have ok3: "dok (w_db w3)" using ok fr by simp
  note pp = persist_Inr [OF p ok3]
  note e = file_New_Inr(3) [OF f]
  show thesis
    using 1 slug_io_ok [OF 1] slug_io_ok [OF 2] hash_password_check [OF bc 3] d res pp fr e
    by (intro that [of slug secret h d])
      (simp_all add: slugLength_def deleteSecretLength_def uploaded_file_def file_stored_def)
qed

lemma Upload_Inl:
  assumes "File_Upload bc (svc url) req w = (Inl er, w')" and bc: "bcrypt_ok bc"
  shows "w_db w' = w_db w \<and> w_now w' = w_now w \<and> (all_calm w \<longrightarrow> all_calm w') \<and>
    (fok (w_fs w) \<longrightarrow> fok (w_fs w')) \<and>
    (\<exists>k. upload_residue (content (w_fs w)) k (rd_data (fu_Content req)) (content (w_fs w'))) \<and>
    (low_error er \<or> er = Wrap ''file service upload: construct entity'' (Sentinel File_ErrInvalidExpiry) \<and>
      map_of file_validExpiries (fu_Expiry req) = None)"
  using assms(1) bc
proof (cases rule: File_Upload_Inl_parts)
  case (persist w3 f t)
  from persist_Inl [OF persist(5)] persist show ?thesis by auto
qed (simp_all add: upload_residue_def)

lemma Upload_frame: "keeps (svc_frame other dok fok) (File_Upload bc (svc url) req)"
proof -
  have "keeps (svc_frame other dok fok) (\<lambda>w. case file_ExpiryDuration (fu_Expiry req) of
       Inl p \<Rightarrow> (Inl p, w)
     | Inr d \<Rightarrow>
         let expiresAt = expiry_instant d (w_now w) in
         case File_persist (svc url) f (fu_Content req) expiresAt w of
           (Inl e, w1) \<Rightarrow> (Inl e, w1)
         | (Inr u, w1) \<Rightarrow> (Inr (File_result (svc url) req a b expiresAt), w1))" for f a b
    using persist_frame svc_frame.refl
    by (fastforce simp: keeps_def Let_def split: sum.splits prod.splits)
  then show ?thesis unfolding File_Upload_def by (intro frames)
qed

text \<open>A client that disconnects while the bytes are read: nothing remains of the attempt.\<close>

lemma Upload_disconnect:
  assumes "File_Upload bc (svc url) req w = (x, w')" and "rd_fails (fu_Content req)" and bc: "bcrypt_ok bc"
  shows "\<exists>er. x = Inl er \<and> content (w_fs w') = content (w_fs w) \<and> w_db w' = w_db w"
proof (cases x)
  case (Inr res)
  from assms(1) [unfolded Inr] have "\<exists>f t w3. File_persist (svc url) f (fu_Content req) t w3 = (Inr (), w')"
    by (rule File_Upload_Inr_parts) blast
  then obtain f t w3 where "File_persist (svc url) f (fu_Content req) t w3 = (Inr (), w')" by blast
  then obtain w4 where "be_Write B (f_Slug f) (fu_Content req) w3 = (Inr (), w4)"
    by (auto simp: File_persist_def wrap_eq)
  from store.Write_Inr [OF this] assms(2) show ?thesis by simp
next
  case (Inl er)
  from assms(1) [unfolded Inl] bc show ?thesis
  proof (cases rule: File_Upload_Inl_parts)
    case (persist w3 f t)
    obtain y w4 where wr: "be_Write B (f_Slug f) (fu_Content req) w3 = (y, w4)" by force
    with assms(2) store.Write_Inr obtain e where y: "y = Inl e" by (cases y) blast+
    with persist(5) wr have "w' = w4" by (simp add: File_persist_def)
    with store.Write_Inl [OF wr [unfolded y]] same_but_fsD(3) [OF store.Write_frame [OF wr]] persist(1,2) Inl
    show ?thesis by simp
  qed (simp_all add: Inl)
qed

lemma Upload_calm:
  assumes "all_calm w" and "fok (w_fs w)" and "clean (w_fs w)" and bc: "bcrypt_ok bc"
    and 1: "slug_io slugLength w = (Inr slug, w1)" and 2: "slug_io deleteSecretLength w1 = (Inr secret, w2)"
    and pw: "length (fu_Password req) \<le> 72" "16 \<le> length (w_rand w2)"
    and x: "map_of file_validExpiries (fu_Expiry req) \<noteq> None" and r: "\<not> rd_fails (fu_Content req)"
    and new: "view (w_db w) slug = None"
  shows "\<exists>res w'. File_Upload bc (svc url) req w = (Inr res, w') \<and> fur_Slug res = slug"
proof -
  from hash_password_Inr [OF bc pw] obtain h w3 where 3: "hash_password bc (fu_Password req) w2 = (Inr h, w3)" by blast
  from x obtain d where d: "map_of file_validExpiries (fu_Expiry req) = Some d" by blast
  note fr = slug_io_frame [OF 1] slug_io_frame [OF 2] hash_password_frame [OF 3]
  note slug = slug_io_ok [OF 1]
  from slug(3) d obtain f where f: "file_New slug (fu_Filename req) (fu_MimeType req) (fu_Expiry req) secret
      (fu_Size req) h (fu_OneUse req) = Inr f" by (simp add: file_New_def)
  note e = file_New_Inr(3) [OF f]
  from store.Write_calm [of w3 slug "fu_Content req"] assms(1-3) fr slug slug_key r
  obtain w4 where wr: "be_Write B slug (fu_Content req) w3 = (Inr (), w4)" by auto
  note fs = same_but_fsD [OF store.Write_frame [OF wr]]
  have "fst (rp_Create R f (expiry_instant d (w_now w)) w4) = Inr ()"
    using assms(1) new fr fs e by (intro repo.Create_calm) simp_all
  then obtain w5 where "rp_Create R f (expiry_instant d (w_now w)) w4 = (Inr (), w5)"
    by (cases "rp_Create R f (expiry_instant d (w_now w)) w4") auto
  with wr e fr have "File_persist (svc url) f (fu_Content req) (expiry_instant d (w_now w3)) w3 = (Inr (), w5)"
    by (simp add: File_persist_def)
  with 1 2 3 f d show ?thesis
    by (simp add: File_Upload_def file_ExpiryDuration_def Let_def File_result_def)
qed

text \<open>Reading.\<close>

lemma read_spec:
  assumes "File_read (svc url) f slug w = (x, w')"
  shows "same_but_env w w'" "x = Inl e \<Longrightarrow> low_error e"
    "x = Inr g \<Longrightarrow> content (w_fs w) slug = Some (fg_Content g) \<and> fg_F g = f \<and> fg_ExpiresAt g = f_ExpiresAt f \<and>
      fg_IsImage g = IsImage (f_MimeType f)"
  using assms store.Read_frame store.Read_low store.Read_Inr by (auto simp: File_read_def wrap_eq)

lemma read_calm:
  assumes "all_calm w" and "key_ok slug"
  shows "fst (File_read (svc url) f slug w) = (case content (w_fs w) slug of
      None \<Rightarrow> Inl (Wrap ''file service get: read bytes'' (Sentinel Os_ErrNotExist))
    | Some d \<Rightarrow> Inr \<lparr>fg_F = f, fg_Content = d, fg_ExpiresAt = f_ExpiresAt f, fg_IsImage = IsImage (f_MimeType f)\<rparr>)"
  using store.Read_calm [OF assms] by (cases "be_Read B slug w") (auto simp: File_read_def split: option.splits)

lemma Get_Inr:
  assumes "File_Get bc (svc url) slug pw w = (Inr g, w')" and ok: "dok (w_db w)"
  shows "view (w_db w) slug = Some (fg_F g) \<and>
    file_access bc (w_now w) pw (used (w_db w) slug) (fg_F g) = Inr () \<and>
    content (w_fs w) slug = Some (fg_Content g) \<and>
    fg_ExpiresAt g = f_ExpiresAt (fg_F g) \<and> fg_IsImage g = IsImage (f_MimeType (fg_F g)) \<and>
    used (w_db w') = (if f_OneUse (fg_F g) then (used (w_db w))(slug := True) else used (w_db w))"
  using assms(1) unfolding File_Get_def file_service.simps
proof (cases rule: repo.lookup_cases)
  case (found f w1)
  note same = same_but_envD [OF found(2)]
  show ?thesis
  proof (cases "f_OneUse f")
    case True
    with found same obtain w2 where m: "rp_Mark R slug w1 = (Inr True, w2)"
      and r: "File_read (svc url) f slug w2 = (Inr g, w')"
      and acc: "\<not> is_expired (w_now w) (f_ExpiresAt f)" "check_password bc (f_PasswordHash f) pw"
      by (auto simp: wrap_eq split: if_splits)
    have db: "same_but_db w1 w2" using repo.Mark_frame [OF m] by blast
    with repo.Mark_Inr [OF m] ok same read_spec [OF r] same_but_dbD [OF db]
      same_but_envD [OF read_spec(1) [OF r]] found(1) acc True
    show ?thesis by (simp add: file_access_def)
  next
    case False
    with found same have r: "File_read (svc url) f slug w1 = (Inr g, w')"
      and acc: "\<not> is_expired (w_now w) (f_ExpiresAt f)" "check_password bc (f_PasswordHash f) pw"
      by (auto split: if_splits)
    with read_spec [OF r] same same_but_envD [OF read_spec(1) [OF r]] found(1) acc False
    show ?thesis by (simp add: file_access_def)
  qed
qed simp_all

text \<open>
  Get never changes the file store or the rows; of the marks it changes at most the one of its
  own entity. A failure is one of the four refusals or an error of a lower layer.
\<close>

lemma Get_frame:
  assumes "File_Get bc (svc url) slug pw w = (x, w')"
  shows "same_but_db w w' \<and> other (w_db w') = other (w_db w) \<and> (dok (w_db w) \<longrightarrow> dok (w_db w')) \<and>
    view (w_db w') = view (w_db w) \<and>
    (dok (w_db w) \<longrightarrow> used (w_db w') = used (w_db w) \<or>
       used (w_db w') = (used (w_db w))(slug := view (w_db w) slug \<noteq> None))"
  using assms unfolding File_Get_def file_service.simps
proof (cases rule: repo.lookup_cases)
  case (found f w1)
  have same: "same_but_db w w1" "w_db w1 = w_db w"
    using same_but_env_db [OF found(2)] same_but_envD [OF found(2)] by auto
  have step: "same_but_db w v \<Longrightarrow> File_read (svc url) f slug v = (z, w') \<Longrightarrow> same_but_db w w' \<and> w_db w' = w_db v"
    for v z
    using read_spec(1) [of url f slug v z w'] same_but_envD(2) by (blast intro: same_but_db_trans same_but_env_db)
  consider "w' = w1" | "File_read (svc url) f slug w1 = (x, w')"
    | b w2 where "rp_Mark R slug w1 = (b, w2)" "w' = w2 \<or> File_read (svc url) f slug w2 = (x, w')"
    using found(3) by (auto simp: wrap_eq split: if_splits)
  then show ?thesis
  proof cases
    case 3
    note m = repo.Mark_frame [OF 3(1)] repo.Mark_inv [OF 3(1)] repo.Mark_view [OF 3(1)] repo.mark_effect [OF 3(1)]
    from m(1) same have w2: "same_but_db w w2" by (blast intro: same_but_db_trans)
    with 3(2) step have "same_but_db w w'" "w_db w' = w_db w2" by auto
    with m same show ?thesis by simp
  qed (use same step in auto)
qed (auto dest: same_but_env_db same_but_envD)

lemma Get_Inl:
  assumes "File_Get bc (svc url) slug pw w = (Inl er, w')" and ok: "dok (w_db w)"
  shows "(er = Sentinel File_ErrNotFound \<and> view (w_db w) slug = None) \<or>
    (\<exists>f. view (w_db w) slug = Some f \<and> file_access bc (w_now w) pw (used (w_db w) slug) f = Inl er) \<or>
    low_error er"
  using assms(1) unfolding File_Get_def file_service.simps
proof (cases rule: repo.lookup_cases)
  case (found f w1)
  note same = same_but_envD [OF found(2)]
  obtain b w2 where m: "rp_Mark R slug w1 = (b, w2)" by force
  have used: "b = Inr c \<Longrightarrow> c = (\<not> used (w_db w) slug)" for c
    using repo.Mark_Inr [of slug w1 c w2] m ok same found(1) by simp
  have low: "b = Inl e \<Longrightarrow> low_error e" for e using repo.Mark_Inl m by blast
  show ?thesis
  proof (cases "file_access bc (w_now w) pw (used (w_db w) slug) f = Inl er")
    case False
    with found(3) m used low same read_spec(2) have "low_error er"
      by (cases b) (fastforce simp: file_access_def wrap_def split: if_splits)+
    then show ?thesis by simp
  qed (use found(1) in simp)
qed simp_all

lemma Get_calm:
  assumes "all_calm w" and ok: "dok (w_db w)" and key: "key_ok slug"
  shows "fst (File_Get bc (svc url) slug pw w) =
    (case view (w_db w) slug of
       None \<Rightarrow> Inl (Sentinel File_ErrNotFound)
     | Some f \<Rightarrow>
         (case file_access bc (w_now w) pw (used (w_db w) slug) f of
            Inl e \<Rightarrow> Inl e
          | Inr u \<Rightarrow>
              (case content (w_fs w) slug of
                 None \<Rightarrow> Inl (Wrap ''file service get: read bytes'' (Sentinel Os_ErrNotExist))
               | Some d \<Rightarrow> Inr \<lparr>fg_F = f, fg_Content = d, fg_ExpiresAt = f_ExpiresAt f,
                   fg_IsImage = IsImage (f_MimeType f)\<rparr>)))"
proof (cases "view (w_db w) slug")
  case None
  with repo.lookup_calm_None [OF assms(1)] show ?thesis by (simp add: File_Get_def)
next
  case (Some f)
  from repo.lookup_calm_Some [OF assms(1) Some] obtain w1 where w1: "same_but_env w w1"
    and g: "\<And>c k. lookup File_ErrNotFound c (rp_GetBySlug R slug) k w = (k f :: file_GetResult io) w1" by blast
  note same = same_but_envD [OF w1]
  obtain w2 where m: "rp_Mark R slug w1 = (Inr (\<not> used (w_db w) slug), w2)"
    using repo.Mark_calm [of w1 slug] same assms(1) ok Some by (cases "rp_Mark R slug w1") auto
  have "all_calm w2" "w_fs w2 = w_fs w"
    using repo.Mark_frame [OF m] same_but_dbD [of w1 w2] same assms(1) by auto
  then have r2: "fst (File_read (svc url) f slug w2) = fst (File_read (svc url) f slug w1)"
    using read_calm [OF _ key] same assms(1) by simp
  have "fst (File_Get bc (svc url) slug pw w) =
      (case file_access bc (w_now w) pw (used (w_db w) slug) f of
         Inl e \<Rightarrow> Inl e | Inr u \<Rightarrow> fst (File_read (svc url) f slug w1))"
    using m r2 same(1) by (simp add: File_Get_def g file_access_def)
  then show ?thesis
    using Some same(3) by (simp add: read_calm [OF same(5) [OF assms(1)] key] split: sum.split)
qed

text \<open>Metadata, without consuming.\<close>

lemma GetMeta_spec:
  assumes "File_GetMeta (svc url) slug w = (x, w')"
  shows "same_but_env w w'"
    and "x = Inr f \<Longrightarrow> view (w_db w) slug = Some f \<and> \<not> is_expired (w_now w) (f_ExpiresAt f)"
    and "x = Inl er \<Longrightarrow> (er = Sentinel File_ErrNotFound \<and> view (w_db w) slug = None) \<or>
      (er = Sentinel File_ErrExpired \<and> (\<exists>f. view (w_db w) slug = Some f \<and> is_expired (w_now w) (f_ExpiresAt f))) \<or>
      low_error er"
  using assms unfolding File_GetMeta_def file_service.simps
  by (cases rule: repo.lookup_cases; auto split: if_splits dest: same_but_envD(1))+

lemma GetMeta_calm:
  assumes "all_calm w" and "view (w_db w) slug = Some f" and "\<not> is_expired (w_now w) (f_ExpiresAt f)"
  shows "fst (File_GetMeta (svc url) slug w) = Inr f"
proof -
  from repo.lookup_calm_Some [OF assms(1,2)] obtain w1 where w1: "same_but_env w w1"
    and g: "\<And>c k. lookup File_ErrNotFound c (rp_GetBySlug R slug) k w = (k f :: file_ent io) w1" by blast
  show ?thesis using assms(3) same_but_envD(1) [OF w1] by (simp add: File_GetMeta_def g)
qed

lemma GetMeta_decides:
  assumes "all_calm w"
  obtains w1 where "same_but_env w w1" "all_calm w1"
    "File_GetMeta (svc url) s w =
      (case view (w_db w) s of None \<Rightarrow> Inl (Sentinel File_ErrNotFound)
       | Some f \<Rightarrow> if is_expired (w_now w) (f_ExpiresAt f) then Inl (Sentinel File_ErrExpired) else Inr f, w1)"
proof -
  obtain x w1 where g: "File_GetMeta (svc url) s w = (x, w1)" by (rule prod.exhaust)
  have env: "same_but_env w w1" using GetMeta_spec(1) [OF g] .
  have "x = (case view (w_db w) s of None \<Rightarrow> Inl (Sentinel File_ErrNotFound)
      | Some f \<Rightarrow> if is_expired (w_now w) (f_ExpiresAt f) then Inl (Sentinel File_ErrExpired) else Inr f)"
  proof (cases "view (w_db w) s")
    case None
    have "fst (File_GetMeta (svc url) s w) = Inl (Sentinel File_ErrNotFound)"
      by (simp add: File_GetMeta_def repo.lookup_calm_None [OF assms None])
    with g None show ?thesis by simp
  next
    case (Some f)
    from repo.lookup_calm_Some [OF assms Some] obtain w2 where w2: "same_but_env w w2"
      "\<And>c k. lookup File_ErrNotFound c (rp_GetBySlug R s) k w = (k f :: file_ent io) w2" by blast
    with g Some same_but_envD(1) [OF w2(1)] show ?thesis by (auto simp: File_GetMeta_def split: if_splits)
  qed
  with that env g assms same_but_envD(5) [OF env] show thesis by blast
qed

text \<open>Deletion: only with the right secret, bytes before row.\<close>

lemma Delete_cases:
  assumes "File_Delete (svc url) slug secret w = (x, w')" and ok: "dok (w_db w)"
  obtains (refused) er where "x = Inl er" "same_but_env w w'"
      "(er = Sentinel File_ErrNotFound \<and> view (w_db w) slug = None) \<or>
       (er = Sentinel File_ErrBadDeleteSecret \<and> (\<exists>f. view (w_db w) slug = Some f \<and> f_DeleteSecret f \<noteq> secret)) \<or>
       low_error er"
  | (bytes_stay) f er where "view (w_db w) slug = Some f" "f_DeleteSecret f = secret" "x = Inl er" "low_error er"
      "w_db w' = w_db w" "content (w_fs w') = content (w_fs w)" "same_but_fs w w'" "fok (w_fs w) \<Longrightarrow> fok (w_fs w')"
  | (row_stays) f er where "view (w_db w) slug = Some f" "f_DeleteSecret f = secret" "x = Inl er" "low_error er"
      "w_db w' = w_db w" "content (w_fs w') = (content (w_fs w))(slug := None)" "w_now w' = w_now w"
      "all_calm w \<Longrightarrow> all_calm w'" "fok (w_fs w) \<Longrightarrow> fok (w_fs w')"
  | (deleted) f where "view (w_db w) slug = Some f" "f_DeleteSecret f = secret" "x = Inr ()"
      "view (w_db w') = (view (w_db w))(slug := None)" "used (w_db w') = (used (w_db w))(slug := False)"
      "content (w_fs w') = (content (w_fs w))(slug := None)" "w_now w' = w_now w"
      "all_calm w \<Longrightarrow> all_calm w'" "fok (w_fs w) \<Longrightarrow> fok (w_fs w')" "dok (w_db w')" "other (w_db w') = other (w_db w)"
  using assms(1) unfolding File_Delete_def file_service.simps
proof (cases rule: repo.lookup_cases)
  case (found f w1)
  note same = same_but_envD [OF found(2)]
  show thesis
  proof (cases "f_DeleteSecret f = secret")
    case False
    with found refused show thesis by auto
  next
    case True
    obtain y w2 where d: "be_Delete B slug w1 = (y, w2)" by force
    note fs = store.Delete_frame [OF d] and inv = store.Delete_inv [OF d]
    note fsD = same_but_fsD [OF fs]
    show thesis
    proof (cases y)
      case (Inl e)
      with found(3) True d have x: "x = Inl (Wrap ''file service delete: remove bytes'' e)" and w': "w' = w2"
        by simp_all
      have "same_but_fs w w2" using same_but_env_fs [OF found(2)] fs by (rule same_but_fs_trans)
      with Inl x w' d found(1) True same fsD inv show thesis
        by (intro bytes_stay) (auto simp: store.Delete_Inl dest: store.Delete_low)
    next
      case (Inr u)
      note c = store.Delete_Inr [OF d [unfolded Inr]]
      obtain z w3 where r: "rp_Delete R slug w2 = (z, w3)" by force
      note db = repo.Delete_frame [OF r] and dbi = repo.Delete_inv [OF r]
      note dbD = same_but_dbD [OF conjunct1 [OF db]]
      show thesis
      proof (cases z)
        case Inl': (Inl e)
        note e = repo.Delete_Inl [OF r [unfolded Inl']]
        from found(3) True d Inr r Inl' have "x = Inl (Wrap ''file service delete: remove metadata'' e)" "w' = w3"
          by simp_all
        with e found(1) True same fsD dbD c inv show thesis
          by (intro row_stays [of f "Wrap ''file service delete: remove metadata'' e"]) simp_all
      next
        case Inr': (Inr v)
        from found(3) True d Inr r Inr' have "x = Inr ()" "w' = w3" by simp_all
        with repo.Delete_Inr [OF r [unfolded Inr']] found(1) True same fsD dbD c inv db dbi ok show thesis
          by (intro deleted) simp_all
      qed
    qed
  qed
qed (use refused in auto)

lemma Delete_frame: "keeps (svc_frame other dok fok) (File_Delete (svc url) slug secret)"
  unfolding File_Delete_def file_service.simps by (auto intro!: frames)

lemma Delete_calm:
  assumes "all_calm w" and "key_ok slug" and "view (w_db w) slug = Some f"
  shows "fst (File_Delete (svc url) slug (f_DeleteSecret f) w) = Inr ()"
proof -
  from repo.lookup_calm_Some [OF assms(1,3)] obtain w1 where w1: "same_but_env w w1"
    and g: "\<And>c k. lookup File_ErrNotFound c (rp_GetBySlug R slug) k w = (k f :: unit io) w1" by blast
  have c1: "all_calm w1" using same_but_envD(5) [OF w1] assms(1) by simp
  obtain w2 where d: "be_Delete B slug w1 = (Inr (), w2)"
    using store.Delete_calm [OF c1 assms(2)] by (cases "be_Delete B slug w1") auto
  have "all_calm w2" using same_but_fsD(4) [OF store.Delete_frame [OF d]] c1 by simp
  from repo.Delete_calm [OF this, of slug] obtain w3 where "rp_Delete R slug w2 = (Inr (), w3)"
    by (cases "rp_Delete R slug w2") auto
  with d show ?thesis by (simp add: File_Delete_def g)
qed

end

section \<open>The service of the program\<close>

definition fileService :: "string \<Rightarrow> file_service" where
  "fileService baseURL = \<lparr>fsv_repo = fileRepo, fsv_store = LocalFS, fsv_baseURL = baseURL\<rparr>"

interpretation fsv: file_service_laws LocalFS fs_content validKey fs_ok fs_clean
  fileRepo file_view file_used files_ok not_files
  by unfold_locales (simp add: validKey_def)

end
