(* ===== verification/File_Handler.thy ===== *)
theory File_Handler
  imports Pages Sniff File_Service
begin

text \<open>
  Package internal/handler, file.go: the FileHandler over the FileService interface. A handler
  takes the request, the response writer and the world, and returns the last two. Closing a
  file and removing the temporary form files have no effect the model can see.
\<close>

section \<open>The code\<close>

text \<open>
  The interface FileService with the limit of the handler; \<open>fh_IsPrint\<close> is the printability
  table of package unicode the verb q consults for runes beyond ASCII.
\<close>

record file_handler =
  fh_Upload :: "file_UploadRequest \<Rightarrow> file_UploadResult io"
  fh_Get :: "string \<Rightarrow> string \<Rightarrow> file_GetResult io"
  fh_GetMeta :: "string \<Rightarrow> file_ent io"
  fh_Delete :: "string \<Rightarrow> string \<Rightarrow> unit io"
  fh_maxUploadBytes :: int
  fh_IsPrint :: "string \<Rightarrow> bool"

definition json_time :: "instant option \<Rightarrow> json" where
  "json_time t = (case t of None \<Rightarrow> JNull | Some i \<Rightarrow> JString (RFC3339 i))"

definition uploadResponse :: "request \<Rightarrow> file_UploadResult \<Rightarrow> json" where
  "uploadResponse r res = JObject
     [(''url'', JString (absURL r (fur_URL res))),
      (''download_url'', JString (absURL r (slash # fur_Slug res))),
      (''delete_url'', JString (absURL r (fur_DeleteURL res))),
      (''expires_at'', json_time (fur_ExpiresAt res)),
      (''is_image'', JBool (fur_IsImage res))]"

text \<open>The three form values every upload reads, with the default expiry.\<close>

definition form_expiry :: "request \<Rightarrow> form \<Rightarrow> string" where
  "form_expiry r f = (let e = FormValue r f ''expiry'' in if e = [] then ''1d'' else e)"

definition peek :: "part \<Rightarrow> bytes" where
  "peek p = take 512 (rd_data (pt_Content p))"

definition part_filename :: "part \<Rightarrow> string" where
  "part_filename p = (if pt_Filename p = [] then ''upload'' else pt_Filename p)"

definition upload_request :: "request \<Rightarrow> form \<Rightarrow> part \<Rightarrow> file_UploadRequest" where
  "upload_request r f p =
     \<lparr>fu_Filename = part_filename p, fu_MimeType = file_mime (peek p), fu_Size = pt_Size p,
      fu_Expiry = form_expiry r f, fu_Password = FormValue r f ''password'',
      fu_OneUse = (FormValue r f ''one_use'' = ''1''), fu_Content = pt_Content p\<rparr>"

definition FileHandler_Upload :: "file_handler \<Rightarrow> handler" where
  "FileHandler_Upload h r w v =
     (let w1 = securityHeaders w in
      case ParseMultipartForm (fh_maxUploadBytes h) r of
        Inl MaxBytesError \<Rightarrow>
          (writeError 413 (Sprintf ''file exceeds maximum size of %d bytes'' [D (fh_maxUploadBytes h)]) w1, v)
      | Inl BadForm \<Rightarrow> (writeError 400 ''invalid multipart form'' w1, v)
      | Inr f \<Rightarrow>
          (case FormFile f ''file'' of
             None \<Rightarrow> (writeError 400 (''missing '' @ squote # ''file'' @ squote # '' field in form'') w1, v)
           | Some p \<Rightarrow>
               (case fh_Upload h (upload_request r f p) v of
                  (Inl e, v1) \<Rightarrow> (writeError 500 ''upload failed'' w1, v1)
                | (Inr res, v1) \<Rightarrow> (writeJSON 201 (uploadResponse r res) w1, v1))))"

text \<open>The password of a read: the header X-Password, else the query.\<close>

definition password_attempt :: "request \<Rightarrow> string" where
  "password_attempt r =
     (let p = Header_Get r ''X-Password'' in if p = [] then Query_Get r ''password'' else p)"

text \<open>A wrong password is answered with JSON to API clients and with the form to browsers.\<close>

definition wants_json :: "request \<Rightarrow> bool" where
  "wants_json r \<longleftrightarrow> Header_Get r ''Accept'' = ''application/json'' \<or> Header_Get r ''X-Password'' \<noteq> []"

definition wrong_password :: "request \<Rightarrow> string \<Rightarrow> writer \<Rightarrow> writer" where
  "wrong_password r formSlug w =
     (if wants_json r
      then Write (Json (JObject [(''error'', JString ''wrong password'')]))
             (WriteHeader 401 (Header_Set ''Content-Type'' ''application/json'' w))
      else servePasswordForm formSlug w)"

definition file_served :: "file_handler \<Rightarrow> string \<Rightarrow> file_GetResult \<Rightarrow> writer \<Rightarrow> writer" where
  "file_served h slug res w =
     (let w1 = Header_Set ''Content-Security-Policy'' serveCSP w;
          filename = (if f_Filename (fg_F res) = [] then slug else f_Filename (fg_F res));
          q = quote_str (fh_IsPrint h) filename;
          w2 = (if fg_IsImage res
                then Header_Set ''Content-Disposition'' (''inline; filename='' @ q)
                       (Header_Set ''Content-Type'' (f_MimeType (fg_F res)) w1)
                else Header_Set ''Content-Disposition'' (''attachment; filename='' @ q)
                       (Header_Set ''Content-Type'' ''application/octet-stream'' w1))
      in Write (Bytes (fg_Content res)) w2)"

definition FileHandler_Serve :: "file_handler \<Rightarrow> handler" where
  "FileHandler_Serve h r w v =
     (let w1 = securityHeaders w; slug = PathValue r ''slug'' in
      if slug = [] then (writeError 400 ''missing slug'' w1, v)
      else case fh_Get h slug (password_attempt r) v of
        (Inl e, v1) \<Rightarrow>
          (if errors_Is e File_ErrNotFound then (writeError 404 ''not found'' w1, v1)
           else if errors_Is e File_ErrExpired then (writeError 410 ''file has expired'' w1, v1)
           else if errors_Is e File_ErrAlreadyConsumed then (writeError 410 ''file has already been downloaded'' w1, v1)
           else if errors_Is e File_ErrWrongPassword then (wrong_password r slug w1, v1)
           else (writeError 500 ''internal error'' w1, v1))
      | (Inr res, v1) \<Rightarrow> (file_served h slug res w1, v1))"

definition FileHandler_Delete :: "file_handler \<Rightarrow> handler" where
  "FileHandler_Delete h r w v =
     (let w1 = securityHeaders w; slug = PathValue r ''slug''; secret = PathValue r ''secret'' in
      if slug = [] \<or> secret = [] then (writeError 400 ''missing slug or secret'' w1, v)
      else case fh_Delete h slug secret v of
        (Inl e, v1) \<Rightarrow>
          (if errors_Is e File_ErrNotFound then (writeError 404 ''not found'' w1, v1)
           else if errors_Is e File_ErrBadDeleteSecret then (writeError 403 ''invalid delete token'' w1, v1)
           else (writeError 500 ''internal error'' w1, v1))
      | (Inr u, v1) \<Rightarrow> (writeJSON 200 (JObject [(''deleted'', JBool True)]) w1, v1))"

definition FileHandler_Info :: "file_handler \<Rightarrow> handler" where
  "FileHandler_Info h r w v =
     (let w1 = securityHeaders w; slug = PathValue r ''slug'' in
      if slug = [] then (writeError 400 ''missing slug'' w1, v)
      else case fh_GetMeta h slug v of
        (Inl e, v1) \<Rightarrow>
          (if errors_Is e File_ErrNotFound then (writeError 404 ''not found'' w1, v1)
           else if errors_Is e File_ErrExpired then (writeError 410 ''file has expired'' w1, v1)
           else (writeError 500 ''internal error'' w1, v1))
      | (Inr f, v1) \<Rightarrow>
          (Write (Bytes (info_page f slug (baseURL r @ slash # slug)))
             (Header_Set ''Content-Security-Policy'' infoCSP (Header_Set ''Content-Type'' html_type w1)), v1))"

definition fileHandler :: "bcrypt \<Rightarrow> (string \<Rightarrow> bool) \<Rightarrow> int \<Rightarrow> file_handler" where
  "fileHandler bc isPrint maxUploadBytes =
     \<lparr>fh_Upload = File_Upload bc (fileService []), fh_Get = File_Get bc (fileService []),
      fh_GetMeta = File_GetMeta (fileService []), fh_Delete = File_Delete (fileService []),
      fh_maxUploadBytes = maxUploadBytes, fh_IsPrint = isPrint\<rparr>"

section \<open>Statuses\<close>

text \<open>The status of each handler as a function of what the service answers.\<close>

definition read_status :: "sentinel \<Rightarrow> sentinel \<Rightarrow> sentinel \<Rightarrow> sentinel \<Rightarrow> 'a result \<Rightarrow> int" where
  "read_status notFound expired consumed wrong x =
     (case x of
        Inr a \<Rightarrow> 200
      | Inl e \<Rightarrow> if errors_Is e notFound then 404 else if errors_Is e expired \<or> errors_Is e consumed then 410
          else if errors_Is e wrong then 401 else 500)"

definition delete_status :: "sentinel \<Rightarrow> sentinel \<Rightarrow> 'a result \<Rightarrow> int" where
  "delete_status notFound badSecret x =
     (case x of
        Inr a \<Rightarrow> 200
      | Inl e \<Rightarrow> if errors_Is e notFound then 404 else if errors_Is e badSecret then 403 else 500)"

lemma servePasswordForm_fresh [simp]:
  assumes "rw_Sent w = None"
  shows "rw_Sent (servePasswordForm s w) = Some (401, (rw_Header w)
      (''Content-Type'' \<mapsto> html_type, ''Content-Security-Policy'' \<mapsto> passwordFormCSP))"
    and "rw_Body (servePasswordForm s w) = rw_Body w @ [Bytes (password_form s)]"
  using assms by (simp_all add: servePasswordForm_def)

lemma wrong_password_status [simp]:
  "rw_Sent w = None \<Longrightarrow> response_status (wrong_password r s w) = 401"
  by (simp add: wrong_password_def)

lemma file_served_sel:
  assumes "rw_Sent w = None"
  shows "response_status (file_served h slug res w) = 200"
    and "rw_Body (file_served h slug res w) = rw_Body w @ [Bytes (fg_Content res)]"
    and "response_header (file_served h slug res w) ''Content-Type'' =
      Some (if fg_IsImage res then f_MimeType (fg_F res) else ''application/octet-stream'')"
    and "\<not> fg_IsImage res \<Longrightarrow> \<exists>q. response_header (file_served h slug res w) ''Content-Disposition'' = Some (''attachment; '' @ q)"
  using assms by (auto simp: file_served_def Let_def)

lemma Serve_status:
  assumes "rw_Sent w = None" and "PathValue r ''slug'' \<noteq> []"
    and "fh_Get h (PathValue r ''slug'') (password_attempt r) v = (x, v1)"
  shows "snd (FileHandler_Serve h r w v) = v1"
    and "response_status (fst (FileHandler_Serve h r w v)) =
      read_status File_ErrNotFound File_ErrExpired File_ErrAlreadyConsumed File_ErrWrongPassword x"
  using assms by (auto simp: FileHandler_Serve_def Let_def read_status_def file_served_sel split: sum.split)

lemma Info_status:
  assumes "rw_Sent w = None" and "PathValue r ''slug'' \<noteq> []" and "fh_GetMeta h (PathValue r ''slug'') v = (x, v1)"
  shows "snd (FileHandler_Info h r w v) = v1"
    and "response_status (fst (FileHandler_Info h r w v)) =
      (case x of Inr f \<Rightarrow> 200 | Inl e \<Rightarrow> if errors_Is e File_ErrNotFound then 404 else if errors_Is e File_ErrExpired then 410 else 500)"
  using assms by (auto simp: FileHandler_Info_def Let_def split: sum.split)

lemma Delete_status:
  assumes "rw_Sent w = None" and "PathValue r ''slug'' \<noteq> []" and "PathValue r ''secret'' \<noteq> []"
    and "fh_Delete h (PathValue r ''slug'') (PathValue r ''secret'') v = (x, v1)"
  shows "snd (FileHandler_Delete h r w v) = v1"
    and "response_status (fst (FileHandler_Delete h r w v)) = delete_status File_ErrNotFound File_ErrBadDeleteSecret x"
  using assms by (auto simp: FileHandler_Delete_def Let_def delete_status_def split: sum.split)

text \<open>Every response of the handler carries the two security headers.\<close>

lemma headers_set_passwords [intro]:
  "headers_set w \<Longrightarrow> headers_set (servePasswordForm s w)" "headers_set w \<Longrightarrow> headers_set (wrong_password r s w)"
  by (auto simp: servePasswordForm_def wrong_password_def intro!: headers_set_steps)

lemma headers_set_served [intro]: "headers_set w \<Longrightarrow> headers_set (file_served h slug res w)"
  by (auto simp: file_served_def Let_def intro!: headers_set_steps)

lemma FileHandler_secured:
  assumes "rw_Sent w = None"
  shows "secured (fst (FileHandler_Upload h r w v))" "secured (fst (FileHandler_Serve h r w v))"
    "secured (fst (FileHandler_Delete h r w v))" "secured (fst (FileHandler_Info h r w v))"
  using headers_set_security [OF assms]
  by (auto simp: FileHandler_Upload_def FileHandler_Serve_def FileHandler_Delete_def FileHandler_Info_def Let_def
      intro!: headers_set_secured headers_set_write headers_set_served headers_set_passwords headers_set_steps
      split: sum.split option.split parse_error.split prod.split)

end
