(* ===== verification/Paste_Repo.thy ===== *)
theory Paste_Repo
  imports Repository Paste_Entity
begin

text \<open>
  Package internal/storage, paste_repo.go: paste.Repository on the pastes table, and its
  interpretation of the repository contract.
\<close>

section \<open>The code\<close>

definition paste_of_row :: "paste_row \<Rightarrow> paste_ent" where
  "paste_of_row r =
     \<lparr>p_Slug = pr_slug r, p_Title = pr_title r, p_Content = pr_content r, p_Lang = pr_lang r,
      p_PasswordHash = coalesce (pr_password r), p_OneUse = (pr_one_use r = 1), p_Expiry = [],
      p_DeleteSecret = coalesce (pr_delete_secret r),
      p_ExpiresAt = map_option time_Unix (pr_expires_at r)\<rparr>"

definition row_of_paste :: "int \<Rightarrow> paste_ent \<Rightarrow> instant option \<Rightarrow> paste_row" where
  "row_of_paste now p expiresAt =
     \<lparr>pr_slug = p_Slug p, pr_title = p_Title p, pr_content = p_Content p, pr_lang = p_Lang p,
      pr_password = nullableString (p_PasswordHash p), pr_one_use = boolToInt (p_OneUse p),
      pr_viewed_at = None, pr_expires_at = map_option unix expiresAt, pr_created_at = now,
      pr_delete_secret = nullableString (p_DeleteSecret p)\<rparr>"

definition pasteRepo_Create :: "paste_ent \<Rightarrow> instant option \<Rightarrow> world \<Rightarrow> unit result \<times> world" where
  "pasteRepo_Create p expiresAt w =
     (case sql_Exec (\<lambda>now d. case tbl_insert pr_slug (row_of_paste now p expiresAt) (db_pastes d) of
          Inl e \<Rightarrow> Inl e | Inr rows \<Rightarrow> Inr ((), d\<lparr>db_pastes := rows\<rparr>)) w of
        (Inl e, w1) \<Rightarrow> (Inl (Wrap ''paste repo create'' e), w1)
      | (Inr u, w1) \<Rightarrow> (Inr (), w1))"

definition pasteRepo_GetBySlug :: "string \<Rightarrow> world \<Rightarrow> paste_ent result \<times> world" where
  "pasteRepo_GetBySlug s w =
     (case sql_Query (\<lambda>now d. tbl_select pr_slug s (db_pastes d)) w of
        (Inl e, w1) \<Rightarrow> (Inl (Wrap ''paste repo get'' e), w1)
      | (Inr None, w1) \<Rightarrow> (Inl (Sentinel Paste_ErrNotFound), w1)
      | (Inr (Some r), w1) \<Rightarrow> (Inr (paste_of_row r), w1))"

definition pasteRepo_MarkViewed :: "string \<Rightarrow> world \<Rightarrow> bool result \<times> world" where
  "pasteRepo_MarkViewed s w =
     (case sql_Exec (\<lambda>now d.
          case tbl_update (\<lambda>r. pr_slug r = s \<and> pr_viewed_at r = None)
                 (\<lambda>r. r\<lparr>pr_viewed_at := Some now\<rparr>) (db_pastes d) of
            (n, rows) \<Rightarrow> Inr (n, d\<lparr>db_pastes := rows\<rparr>)) w of
        (Inl e, w1) \<Rightarrow> (Inl (Wrap ''paste repo mark viewed'' e), w1)
      | (Inr n, w1) \<Rightarrow>
          (case sql_RowsAffected n w1 of
             (Inl e, w2) \<Rightarrow> (Inl (Wrap ''paste repo mark viewed rows'' e), w2)
           | (Inr n, w2) \<Rightarrow> (Inr (n = 1), w2)))"

definition pasteRepo_Delete :: "string \<Rightarrow> world \<Rightarrow> unit result \<times> world" where
  "pasteRepo_Delete s w =
     (case sql_Exec (\<lambda>now d. Inr ((), d\<lparr>db_pastes := tbl_delete (\<lambda>r. pr_slug r = s) (db_pastes d)\<rparr>)) w of
        (Inl e, w1) \<Rightarrow> (Inl (Wrap ''paste repo delete'' e), w1)
      | (Inr u, w1) \<Rightarrow> (Inr (), w1))"

definition pasteRepo_ListExpired :: "world \<Rightarrow> paste_ent list result \<times> world" where
  "pasteRepo_ListExpired w =
     (case sql_Query (\<lambda>now d. filter (\<lambda>r. expired_col now (pr_expires_at r)) (db_pastes d)) w of
        (Inl e, w1) \<Rightarrow> (Inl (Wrap ''paste repo list expired'' e), w1)
      | (Inr rows, w1) \<Rightarrow>
          sql_Scan paste_of_row ''paste repo list expired scan'' ''paste repo list expired rows'' rows w1)"

definition pasteRepo :: "paste_ent repo" where
  "pasteRepo = \<lparr>rp_Create = pasteRepo_Create, rp_GetBySlug = pasteRepo_GetBySlug,
     rp_Mark = pasteRepo_MarkViewed, rp_Delete = pasteRepo_Delete,
     rp_ListExpired = pasteRepo_ListExpired\<rparr>"

section \<open>The contract\<close>

definition paste_view :: "db \<Rightarrow> string \<Rightarrow> paste_ent option" where
  "paste_view d s = map_option paste_of_row (tbl_select pr_slug s (db_pastes d))"

definition paste_used :: "db \<Rightarrow> string \<Rightarrow> bool" where
  "paste_used d s = (case tbl_select pr_slug s (db_pastes d) of
     None \<Rightarrow> False | Some r \<Rightarrow> pr_viewed_at r \<noteq> None)"

definition paste_stored :: "paste_ent \<Rightarrow> instant option \<Rightarrow> paste_ent" where
  "paste_stored p t = p\<lparr>p_Expiry := [], p_ExpiresAt := map_option to_second t\<rparr>"

definition pastes_ok :: "db \<Rightarrow> bool" where
  "pastes_ok d = keyed pr_slug (db_pastes d)"

definition not_pastes :: "db \<Rightarrow> file_row list \<times> bucket_row list \<times> bucket_file_row list \<times> int" where
  "not_pastes d = (db_files d, db_buckets d, db_bucket_files d, db_bucket_files_seq d)"

lemma paste_of_row_of_paste: "paste_of_row (row_of_paste now p t) = paste_stored p t"
  by (cases p) (simp add: paste_of_row_def row_of_paste_def paste_stored_def to_second_def [abs_def]
      option.map_comp comp_def)

lemma row_of_paste_sel [simp]:
  "pr_slug (row_of_paste now p t) = p_Slug p" "pr_viewed_at (row_of_paste now p t) = None"
  by (simp_all add: row_of_paste_def)

lemma paste_of_row_sel [simp]:
  "p_Slug (paste_of_row r) = pr_slug r" "p_ExpiresAt (paste_of_row r) = map_option time_Unix (pr_expires_at r)"
  by (simp_all add: paste_of_row_def)

lemma paste_of_row_mark [simp]: "paste_of_row (r\<lparr>pr_viewed_at := v\<rparr>) = paste_of_row r"
  by (simp add: paste_of_row_def)

lemma pasteRepo_sel [simp]:
  "rp_Create pasteRepo = pasteRepo_Create" "rp_GetBySlug pasteRepo = pasteRepo_GetBySlug"
  "rp_Mark pasteRepo = pasteRepo_MarkViewed" "rp_Delete pasteRepo = pasteRepo_Delete"
  "rp_ListExpired pasteRepo = pasteRepo_ListExpired"
  by (simp_all add: pasteRepo_def)

lemma pasteRepo_Create_spec:
  assumes "pasteRepo_Create p t w = (x, w')"
  shows "same_but_db w w'" "not_pastes (w_db w') = not_pastes (w_db w)"
    "pastes_ok (w_db w) \<Longrightarrow> pastes_ok (w_db w')"
    "x = Inl e \<Longrightarrow> w_db w' = w_db w \<and> low_error e"
    "x = Inr u \<Longrightarrow> paste_view (w_db w) (p_Slug p) = None \<and>
       paste_view (w_db w') = (paste_view (w_db w))(p_Slug p \<mapsto> paste_stored p t) \<and>
       paste_used (w_db w') = (paste_used (w_db w))(p_Slug p := False)"
  using assms
  by (auto simp: pasteRepo_Create_def sql_Exec_def not_pastes_def pastes_ok_def paste_view_def
      paste_used_def fun_eq_iff tbl_insert_Inr paste_of_row_of_paste
      split: if_splits sum.splits dest: tbl_insert_Inl tbl_insert_Inr(1,3))

lemma pasteRepo_Create_calm:
  assumes "all_calm w" and "paste_view (w_db w) (p_Slug p) = None"
  shows "fst (pasteRepo_Create p t w) = Inr ()"
  using assms tbl_insert_fresh [of pr_slug "row_of_paste (unix (w_now w)) p t" "db_pastes (w_db w)"]
  by (simp add: pasteRepo_Create_def sql_Exec_def paste_view_def)

lemma pasteRepo_Get_spec:
  assumes "pasteRepo_GetBySlug s w = (x, w')"
  shows "same_but_env w w'" "x = Inr p \<Longrightarrow> paste_view (w_db w) s = Some p"
    "x = Inl e \<Longrightarrow> e = Sentinel Paste_ErrNotFound \<and> paste_view (w_db w) s = None \<or> low_error e"
  using assms
  by (auto simp: pasteRepo_GetBySlug_def sql_Query_def paste_view_def split: if_splits option.splits)

lemma pasteRepo_Get_calm:
  "all_calm w \<Longrightarrow> fst (pasteRepo_GetBySlug s w) =
    (case paste_view (w_db w) s of None \<Rightarrow> Inl (Sentinel Paste_ErrNotFound) | Some p \<Rightarrow> Inr p)"
  by (simp add: pasteRepo_GetBySlug_def sql_Query_calm paste_view_def split: option.split)

lemma pasteRepo_Mark_spec:
  assumes "pasteRepo_MarkViewed s w = (x, w')"
  shows "same_but_db w w'" "not_pastes (w_db w') = not_pastes (w_db w)"
    "pastes_ok (w_db w) \<Longrightarrow> pastes_ok (w_db w')" "paste_view (w_db w') = paste_view (w_db w)"
    "x = Inl e \<Longrightarrow> low_error e \<and> (paste_used (w_db w') = paste_used (w_db w) \<or>
       paste_used (w_db w') = (paste_used (w_db w))(s := paste_view (w_db w) s \<noteq> None))"
    "x = Inr c \<Longrightarrow> pastes_ok (w_db w) \<Longrightarrow>
       c = (paste_view (w_db w) s \<noteq> None \<and> \<not> paste_used (w_db w) s) \<and>
       paste_used (w_db w') = (paste_used (w_db w))(s := paste_view (w_db w) s \<noteq> None)"
proof -
  let ?cond = "\<lambda>r. pr_slug r = s \<and> pr_viewed_at r = None"
  let ?mark = "\<lambda>r. r\<lparr>pr_viewed_at := Some (unix (w_now w))\<rparr>"
  let ?rows = "db_pastes (w_db w)"
  let ?d = "(w_db w)\<lparr>db_pastes := snd (tbl_update ?cond ?mark ?rows)\<rparr>"
  have sel: "tbl_select pr_slug k (db_pastes ?d) =
      map_option (\<lambda>r. if ?cond r then ?mark r else r) (tbl_select pr_slug k ?rows)" for k
    by (simp add: tbl_update_select)
  have view: "paste_view ?d = paste_view (w_db w)"
    by (simp add: paste_view_def fun_eq_iff tbl_update_view)
  have used: "paste_used ?d = (paste_used (w_db w))(s := paste_view (w_db w) s \<noteq> None)"
    by (auto simp: paste_used_def paste_view_def fun_eq_iff tbl_update_select
        dest: tbl_select_key split: option.split)
  have ok: "pastes_ok (w_db w) \<Longrightarrow> pastes_ok ?d"
    by (simp add: pastes_ok_def tbl_update_keyed)
  have n: "fst (tbl_update ?cond ?mark ?rows) =
      (case tbl_select pr_slug s ?rows of None \<Rightarrow> 0 | Some r \<Rightarrow> if ?cond r then 1 else 0)"
    if "pastes_ok (w_db w)"
    using that by (intro tbl_update_count) (auto simp: pastes_ok_def)
  note defs = pasteRepo_MarkViewed_def sql_Exec_def sql_RowsAffected_def case_prod_beta
  show "same_but_db w w'" "not_pastes (w_db w') = not_pastes (w_db w)"
    "pastes_ok (w_db w) \<Longrightarrow> pastes_ok (w_db w')" "paste_view (w_db w') = paste_view (w_db w)"
    "x = Inl e \<Longrightarrow> low_error e \<and> (paste_used (w_db w') = paste_used (w_db w) \<or>
       paste_used (w_db w') = (paste_used (w_db w))(s := paste_view (w_db w) s \<noteq> None))"
    using assms view used ok by (auto simp: defs not_pastes_def split: if_splits)
  show "x = Inr c \<Longrightarrow> pastes_ok (w_db w) \<Longrightarrow>
       c = (paste_view (w_db w) s \<noteq> None \<and> \<not> paste_used (w_db w) s) \<and>
       paste_used (w_db w') = (paste_used (w_db w))(s := paste_view (w_db w) s \<noteq> None)"
    using assms used n
    by (auto simp: defs paste_view_def paste_used_def dest: tbl_select_key split: if_splits option.splits)
qed

lemma pasteRepo_Mark_calm:
  assumes "all_calm w" and "pastes_ok (w_db w)"
  shows "fst (pasteRepo_MarkViewed s w) = Inr (paste_view (w_db w) s \<noteq> None \<and> \<not> paste_used (w_db w) s)"
proof -
  obtain c w' where m: "pasteRepo_MarkViewed s w = (Inr c, w')"
    using assms(1) by (simp add: pasteRepo_MarkViewed_def sql_Exec_def sql_RowsAffected_def case_prod_beta)
  from pasteRepo_Mark_spec(6) [OF this refl assms(2)] m show ?thesis by simp
qed

lemma pasteRepo_Delete_spec:
  assumes "pasteRepo_Delete s w = (x, w')"
  shows "same_but_db w w'" "not_pastes (w_db w') = not_pastes (w_db w)"
    "pastes_ok (w_db w) \<Longrightarrow> pastes_ok (w_db w')"
    "x = Inl e \<Longrightarrow> w_db w' = w_db w \<and> low_error e"
    "x = Inr u \<Longrightarrow> paste_view (w_db w') = (paste_view (w_db w))(s := None) \<and>
       paste_used (w_db w') = (paste_used (w_db w))(s := False)"
  using assms
  by (auto simp: pasteRepo_Delete_def sql_Exec_def not_pastes_def pastes_ok_def paste_view_def
      paste_used_def fun_eq_iff tbl_delete_select tbl_delete_keyed split: if_splits)

lemma pasteRepo_Delete_calm: "all_calm w \<Longrightarrow> fst (pasteRepo_Delete s w) = Inr ()"
  by (simp add: pasteRepo_Delete_def sql_Exec_def)

lemma pasteRepo_List_spec:
  assumes "pasteRepo_ListExpired w = (x, w')"
  shows "same_but_env w w'" "x = Inl e \<Longrightarrow> low_error e"
    "x = Inr ps \<Longrightarrow> ps = map paste_of_row (filter (\<lambda>r. expired_col (unix (w_now w)) (pr_expires_at r)) (db_pastes (w_db w)))"
  using assms
  by (auto simp: pasteRepo_ListExpired_def sql_Query_def
      split: if_splits sum.splits dest!: sql_Scan_spec intro: same_but_env_trans [of w "rest w"])

lemma pasteRepo_List_set:
  assumes "pasteRepo_ListExpired w = (Inr ps, w')" and "pastes_ok (w_db w)"
  shows "distinct (map p_Slug ps) \<and> set ps = {p. \<exists>s t. paste_view (w_db w) s = Some p \<and>
    p_ExpiresAt p = Some t \<and> unix t < unix (w_now w)}"
proof -
  note l = pasteRepo_List_spec(3) [OF assms(1) refl]
  have "map p_Slug ps = map pr_slug (filter (\<lambda>r. expired_col (unix (w_now w)) (pr_expires_at r)) (db_pastes (w_db w)))"
    by (simp add: l comp_def)
  then have "distinct (map p_Slug ps)"
    using assms(2) by (simp add: pastes_ok_def keyed_def distinct_map_filter_key)
  moreover have "p \<in> set ps \<longleftrightarrow> (\<exists>s t. paste_view (w_db w) s = Some p \<and>
    p_ExpiresAt p = Some t \<and> unix t < unix (w_now w))" for p
    using assms(2)
    by (fastforce simp: l pastes_ok_def paste_view_def tbl_select_Some expired_col_iff)
  ultimately show ?thesis by auto
qed

lemma pasteRepo_List_calm:
  assumes "all_calm w"
  shows "\<exists>ps. fst (pasteRepo_ListExpired w) = Inr ps"
proof -
  let ?rows = "filter (\<lambda>r. expired_col (unix (w_now w)) (pr_expires_at r)) (db_pastes (w_db w))"
  from assms obtain w' where "sql_Scan paste_of_row ''paste repo list expired scan''
      ''paste repo list expired rows'' ?rows (rest w) = (Inr (map paste_of_row ?rows), w')"
    using sql_Scan_calm [OF rest_calm] by blast
  with assms show ?thesis by (simp add: pasteRepo_ListExpired_def sql_Query_calm)
qed

lemma paste_view_laws:
  "paste_view d s = Some p \<Longrightarrow> p_Slug p = s"
  "paste_view d s = Some p \<Longrightarrow> p_ExpiresAt p = Some i \<Longrightarrow> time_Unix (unix i) = i"
  "paste_used d s \<Longrightarrow> paste_view d s \<noteq> None"
  by (auto simp: paste_view_def paste_used_def dest: tbl_select_key split: option.splits)

lemmas pasteRepo_laws =
  conjI [OF pasteRepo_Create_spec(1,2)] pasteRepo_Get_spec(1) conjI [OF pasteRepo_Mark_spec(1,2)]
  conjI [OF pasteRepo_Delete_spec(1,2)] pasteRepo_List_spec(1)
  pasteRepo_Create_spec(3) pasteRepo_Mark_spec(3) pasteRepo_Delete_spec(3)
  pasteRepo_Create_spec(5) [OF _ refl] pasteRepo_Create_spec(4) [OF _ refl] pasteRepo_Create_calm
  pasteRepo_Get_spec(2,3) [OF _ refl] pasteRepo_Get_calm
  pasteRepo_Mark_spec(4) pasteRepo_Mark_spec(6,5) [OF _ refl] pasteRepo_Mark_calm
  pasteRepo_Delete_spec(5,4) [OF _ refl] pasteRepo_Delete_calm
  pasteRepo_List_set pasteRepo_List_spec(2) [OF _ refl] pasteRepo_List_calm paste_view_laws

interpretation pr: repository pasteRepo paste_view paste_used p_Slug p_ExpiresAt paste_stored
  pastes_ok not_pastes Paste_ErrNotFound
  by (unfold_locales, unfold pasteRepo_sel) ((rule pasteRepo_laws, assumption+) | simp)+

end
