(* ===== verification/Paste_Service.thy ===== *)
theory Paste_Service
  imports Service_Common Paste_Repo
begin

text \<open>
  Package internal/domain/paste, service.go: creation, retrieval and deletion of a paste, on any
  repository that meets its contract (context \<open>repository\<close> specialised to pastes in the locale
  \<open>paste_service_laws\<close>) and on the pastes table (interpretation \<open>psv\<close>).
\<close>

section \<open>The code\<close>

record paste_service =
  psv_repo :: "paste_ent repo"
  psv_baseURL :: string

record paste_CreateRequest =
  pc_Title :: string
  pc_Content :: string
  pc_Lang :: string
  pc_Expiry :: string
  pc_Password :: string
  pc_OneUse :: bool

record paste_CreateResult =
  pcr_Slug :: string
  pcr_URL :: string
  pcr_DeleteURL :: string
  pcr_ExpiresAt :: "instant option"

record paste_GetResult =
  pg_P :: paste_ent
  pg_ExpiresAt :: "instant option"

definition Paste_result :: "paste_service \<Rightarrow> string \<Rightarrow> string \<Rightarrow> instant option \<Rightarrow> paste_CreateResult" where
  "Paste_result s shareSlug deleteSecret expiresAt =
     \<lparr>pcr_Slug = shareSlug,
      pcr_URL = psv_baseURL s @ ''/'' @ shareSlug,
      pcr_DeleteURL = psv_baseURL s @ ''/delete/'' @ shareSlug @ ''/'' @ deleteSecret,
      pcr_ExpiresAt = expiresAt\<rparr>"

definition Paste_Create :: "bcrypt \<Rightarrow> paste_service \<Rightarrow> paste_CreateRequest \<Rightarrow> paste_CreateResult io" where
  "Paste_Create bc s req =
     wrap ''paste service create: generate slug'' (slug_io slugLength) (\<lambda>shareSlug.
     wrap ''paste service create: generate delete secret'' (slug_io deleteSecretLength) (\<lambda>deleteSecret.
     wrap ''paste service create: hash password'' (hash_password bc (pc_Password req)) (\<lambda>passwordHash.
     let lang = (if pc_Lang req = [] then ''text'' else pc_Lang req) in
     wrap ''paste service create: construct entity''
       (pure_result (paste_New shareSlug (pc_Title req) (pc_Content req) lang (pc_Expiry req)
          passwordHash (pc_OneUse req))) (\<lambda>p w.
     let p = p\<lparr>p_DeleteSecret := deleteSecret\<rparr> in
     case paste_ExpiryDuration (pc_Expiry req) of
       Inl e \<Rightarrow> (Inl e, w)
     | Inr d \<Rightarrow>
         let expiresAt = expiry_instant d (w_now w) in
         wrap ''paste service create: persist'' (rp_Create (psv_repo s) p expiresAt) (\<lambda>u.
           pure_result (Inr (Paste_result s shareSlug deleteSecret expiresAt))) w))))"

definition Paste_Get :: "bcrypt \<Rightarrow> paste_service \<Rightarrow> string \<Rightarrow> string \<Rightarrow> paste_GetResult io" where
  "Paste_Get bc s shareSlug passwordAttempt =
     lookup Paste_ErrNotFound ''paste service get: lookup'' (rp_GetBySlug (psv_repo s) shareSlug) (\<lambda>p w.
       if is_expired (w_now w) (p_ExpiresAt p) then (Inl (Sentinel Paste_ErrExpired), w)
       else if \<not> check_password bc (p_PasswordHash p) passwordAttempt
       then (Inl (Sentinel Paste_ErrWrongPassword), w)
       else
         let found = pure_result (Inr \<lparr>pg_P = p, pg_ExpiresAt = p_ExpiresAt p\<rparr>)
         in if p_OneUse p
            then wrap ''paste service get: mark viewed'' (rp_Mark (psv_repo s) shareSlug) (\<lambda>consumed.
                   if \<not> consumed then pure_result (Inl (Sentinel Paste_ErrAlreadyConsumed)) else found) w
            else found w)"

definition Paste_Delete :: "paste_service \<Rightarrow> string \<Rightarrow> string \<Rightarrow> unit io" where
  "Paste_Delete s shareSlug deleteSecret =
     lookup Paste_ErrNotFound ''paste service delete: lookup'' (rp_GetBySlug (psv_repo s) shareSlug) (\<lambda>p.
       if ConstantTimeCompare (p_DeleteSecret p) deleteSecret \<noteq> 1
       then pure_result (Inl (Sentinel Paste_ErrBadDeleteSecret))
       else
         wrap ''paste service delete: remove record'' (rp_Delete (psv_repo s) shareSlug) (\<lambda>u.
           pure_result (Inr ())))"

section \<open>Creation\<close>

definition paste_access :: "bcrypt \<Rightarrow> instant \<Rightarrow> string \<Rightarrow> bool \<Rightarrow> paste_ent \<Rightarrow> unit result" where
  "paste_access bc now password used p =
     (if is_expired now (p_ExpiresAt p) then Inl (Sentinel Paste_ErrExpired)
      else if \<not> check_password bc (p_PasswordHash p) password then Inl (Sentinel Paste_ErrWrongPassword)
      else if p_OneUse p \<and> used then Inl (Sentinel Paste_ErrAlreadyConsumed)
      else Inr ())"

text \<open>The entity a creation stores, as it comes back from the repository.\<close>

definition created_paste :: "paste_CreateRequest \<Rightarrow> string \<Rightarrow> string \<Rightarrow> string \<Rightarrow> instant option \<Rightarrow> paste_ent" where
  "created_paste req slug secret h t =
     \<lparr>p_Slug = slug, p_Title = pc_Title req, p_Content = pc_Content req,
      p_Lang = (if pc_Lang req = [] then ''text'' else pc_Lang req), p_PasswordHash = h,
      p_OneUse = pc_OneUse req, p_Expiry = [], p_DeleteSecret = secret,
      p_ExpiresAt = map_option to_second t\<rparr>"

text \<open>The errors of the constructor that can reach the caller: the slug is never empty.\<close>

definition paste_request_ok :: "paste_CreateRequest \<Rightarrow> bool" where
  "paste_request_ok req \<longleftrightarrow> pc_Content req \<noteq> [] \<and> map_of paste_validExpiries (pc_Expiry req) \<noteq> None"

lemma paste_access_Inr:
  "paste_access bc now pw u e = Inr x \<longleftrightarrow> \<not> is_expired now (p_ExpiresAt e) \<and>
     check_password bc (p_PasswordHash e) pw \<and> \<not> (p_OneUse e \<and> u)"
  by (simp add: paste_access_def)

lemma paste_access_Inl:
  "paste_access bc now pw u e = Inl er \<longleftrightarrow>
     is_expired now (p_ExpiresAt e) \<and> er = Sentinel Paste_ErrExpired \<or>
     \<not> is_expired now (p_ExpiresAt e) \<and>
       (\<not> check_password bc (p_PasswordHash e) pw \<and> er = Sentinel Paste_ErrWrongPassword \<or>
        check_password bc (p_PasswordHash e) pw \<and> p_OneUse e \<and> u \<and> er = Sentinel Paste_ErrAlreadyConsumed)"
  by (auto simp: paste_access_def)

locale paste_service_laws =
  repo: repository R view used p_Slug p_ExpiresAt paste_stored dok other Paste_ErrNotFound
  for R :: "paste_ent repo" and view used dok and other :: "db \<Rightarrow> 'o"
begin

abbreviation svc :: "string \<Rightarrow> paste_service" where
  "svc url \<equiv> \<lparr>psv_repo = R, psv_baseURL = url\<rparr>"

lemmas frames = frame repo.repo_frames

lemma Create_frame: "keeps (svc_frame other dok fok) (Paste_Create bc (svc url) req)"
proof -
  have "keeps (svc_frame other dok fok) (wrap c (rp_Create R p t) (\<lambda>u. pure_result (r t)))" for c p t r
    by (intro frames)
  then have "keeps (svc_frame other dok fok) (\<lambda>w. case paste_ExpiryDuration (pc_Expiry req) of
       Inl e \<Rightarrow> (Inl e, w)
     | Inr d \<Rightarrow> wrap c (rp_Create R p (expiry_instant d (w_now w)))
         (\<lambda>u. pure_result (r (expiry_instant d (w_now w)))) w)" for c p and r :: "instant option \<Rightarrow> paste_CreateResult result"
    using svc_frame.refl by (fastforce simp: keeps_def split: sum.splits)
  then show ?thesis unfolding Paste_Create_def Let_def paste_service.simps by (intro frames)
qed

lemma Create_cases:
  assumes "Paste_Create bc (svc url) req w = (x, w')" and ok: "dok (w_db w)" and bc: "bcrypt_ok bc"
  obtains (failed) er where "x = Inl er" "w_db w' = w_db w" "w_fs w' = w_fs w" "w_now w' = w_now w"
      "all_calm w \<Longrightarrow> all_calm w'"
      "low_error er \<or> \<not> paste_request_ok req \<and>
        er = Wrap ''paste service create: construct entity''
          (Sentinel (if pc_Content req = [] then Paste_ErrEmptyContent else Paste_ErrInvalidExpiry))"
  | (created) slug secret h d where "fst (slug_io slugLength w) = Inr slug" "length slug = 12" "set slug \<subseteq> set charset" "length secret = 24"
      "check_password bc h (pc_Password req)" "h = [] \<longleftrightarrow> pc_Password req = []" "paste_request_ok req"
      "map_of paste_validExpiries (pc_Expiry req) = Some d"
      "x = Inr (Paste_result (svc url) slug secret (expiry_instant d (w_now w)))"
      "view (w_db w) slug = None"
      "view (w_db w') = (view (w_db w))(slug \<mapsto> created_paste req slug secret h (expiry_instant d (w_now w)))"
      "used (w_db w') = (used (w_db w))(slug := False)" "w_fs w' = w_fs w" "w_now w' = w_now w"
      "all_calm w \<Longrightarrow> all_calm w'"
proof (cases "slug_io slugLength w")
  case (Pair xs w1)
  note 1 = Pair and fr1 = slug_io_frame [OF Pair]
  obtain y w2 where 2: "slug_io deleteSecretLength w1 = (y, w2)" by force
  note fr2 = slug_io_frame [OF 2]
  obtain z w3 where 3: "hash_password bc (pc_Password req) w2 = (z, w3)" by force
  note fr3 = hash_password_frame [OF 3]
  consider (no) e where "xs = Inl e \<or> y = Inl e \<or> z = Inl e"
    | (yes) slug secret h where "xs = Inr slug" "y = Inr secret" "z = Inr h"
    by (cases xs; cases y; cases z) auto
  then show thesis
  proof cases
    case no
    have low: "xs = Inl e \<Longrightarrow> low_error e" "y = Inl e \<Longrightarrow> low_error e" "z = Inl e \<Longrightarrow> low_error e" for e
      using 1 2 3 slug_io_low_error hash_password_low [OF bc] by blast+
    have "\<exists>er. x = Inl er \<and> low_error er \<and> (w' = w1 \<or> w' = w2 \<or> w' = w3)"
      using no assms(1) 1 2 3 low by (cases xs; cases y; cases z) (auto simp: Paste_Create_def)
    then show thesis using fr1 fr2 fr3 by (auto intro!: failed)
  next
    case yes
    note s = slug_io_ok [OF 1 [unfolded yes]] and s2 = slug_io_ok [OF 2 [unfolded yes]]
      and h = hash_password_check [OF bc 3 [unfolded yes]]
    define lang where "lang = (if pc_Lang req = [] then ''text'' else pc_Lang req)"
    show thesis
    proof (cases "paste_request_ok req")
      case False
      then have "paste_New slug (pc_Title req) (pc_Content req) lang (pc_Expiry req) h (pc_OneUse req) =
        Inl (Sentinel (if pc_Content req = [] then Paste_ErrEmptyContent else Paste_ErrInvalidExpiry))"
        using s(3) by (auto simp: paste_New_def paste_request_ok_def)
      with assms(1) 1 2 3 fr1 fr2 fr3 yes False show thesis
        by (intro failed) (auto simp: Paste_Create_def lang_def [symmetric] Let_def)
    next
      case True
      then obtain d where d: "map_of paste_validExpiries (pc_Expiry req) = Some d"
        by (auto simp: paste_request_ok_def)
      let ?t = "expiry_instant d (w_now w)"
      define p where "p = (created_paste req slug secret h None)\<lparr>p_Expiry := pc_Expiry req\<rparr>"
      have new: "paste_New slug (pc_Title req) (pc_Content req) lang (pc_Expiry req) h (pc_OneUse req) =
        Inr (p\<lparr>p_DeleteSecret := []\<rparr>)"
        using True s(3) by (simp add: paste_New_def paste_request_ok_def p_def created_paste_def lang_def)
      obtain c w4 where c: "rp_Create R p ?t w3 = (c, w4)" by force
      have run: "Paste_Create bc (svc url) req w =
          wrap ''paste service create: persist'' (rp_Create R p ?t) (\<lambda>u.
            pure_result (Inr (Paste_result (svc url) slug secret ?t))) w3"
        using 1 2 3 yes new d fr1 fr2 fr3
        by (simp add: Paste_Create_def lang_def [symmetric] paste_ExpiryDuration_def)
          (simp add: p_def created_paste_def Let_def)
      note db = same_but_dbD [OF conjunct1 [OF repo.Create_frame [OF c]]]
      show thesis
      proof (cases c)
        case (Inl e)
        with run c assms(1) repo.Create_Inl [of p ?t w3 e w4] fr1 fr2 fr3 db show thesis
          by (intro failed [of "Wrap ''paste service create: persist'' e"]) auto
      next
        case (Inr u)
        have p: "p_Slug p = slug" "paste_stored p ?t = created_paste req slug secret h ?t"
          by (simp_all add: p_def created_paste_def paste_stored_def)
        from run c Inr assms(1) have "x = Inr (Paste_result (svc url) slug secret ?t)" "w' = w4"
          by (simp_all add: pure_result_def)
        with c Inr p repo.Create_Inr [of p ?t w3 u w4] ok fr1 fr2 fr3 db s s2 h True d show thesis
          by (intro created [of slug secret h d]) (simp_all add: 1 [unfolded slugLength_def] yes(1) slugLength_def deleteSecretLength_def)
      qed
    qed
  qed
qed

lemma Get_Inr:
  assumes "Paste_Get bc (svc url) slug pw w = (Inr g, w')" and ok: "dok (w_db w)"
  shows "view (w_db w) slug = Some (pg_P g) \<and>
    paste_access bc (w_now w) pw (used (w_db w) slug) (pg_P g) = Inr () \<and>
    pg_ExpiresAt g = p_ExpiresAt (pg_P g) \<and>
    used (w_db w') = (if p_OneUse (pg_P g) then (used (w_db w))(slug := True) else used (w_db w))"
  using assms(1) unfolding Paste_Get_def paste_service.simps
proof (cases rule: repo.lookup_cases)
  case (found p w1)
  note same = same_but_envD [OF found(2)]
  show ?thesis
  proof (cases "p_OneUse p")
    case True
    with found(3) same(1) have m: "rp_Mark R slug w1 = (Inr True, w')" and g: "g = \<lparr>pg_P = p, pg_ExpiresAt = p_ExpiresAt p\<rparr>"
      and acc: "\<not> is_expired (w_now w) (p_ExpiresAt p)" "check_password bc (p_PasswordHash p) pw"
      by (auto simp: wrap_eq Let_def split: if_splits)
    with repo.Mark_Inr [OF m] ok same(2) found(1) True show ?thesis by (simp add: paste_access_def)
  next
    case False
    with found same show ?thesis by (auto simp: paste_access_def Let_def split: if_splits)
  qed
qed simp_all

lemma Get_frame:
  assumes "Paste_Get bc (svc url) slug pw w = (x, w')"
  shows "same_but_db w w' \<and> other (w_db w') = other (w_db w) \<and> (dok (w_db w) \<longrightarrow> dok (w_db w')) \<and>
    view (w_db w') = view (w_db w) \<and>
    (dok (w_db w) \<longrightarrow> used (w_db w') = used (w_db w) \<or>
       used (w_db w') = (used (w_db w))(slug := view (w_db w) slug \<noteq> None))"
  using assms unfolding Paste_Get_def paste_service.simps
proof (cases rule: repo.lookup_cases)
  case (found p w1)
  have same: "same_but_db w w1" "w_db w1 = w_db w"
    using same_but_env_db [OF found(2)] same_but_envD [OF found(2)] by auto
  consider "w' = w1" | b where "rp_Mark R slug w1 = (b, w')"
    using found(3) by (auto simp: wrap_eq Let_def split: if_splits)
  then show ?thesis
  proof cases
    case 2
    with repo.Mark_frame [OF 2] repo.Mark_inv [OF 2] repo.Mark_view [OF 2] repo.mark_effect [OF 2] same
    show ?thesis by (auto intro: same_but_db_trans)
  qed (use same in auto)
qed (auto dest: same_but_env_db same_but_envD)

lemma Get_Inl:
  assumes "Paste_Get bc (svc url) slug pw w = (Inl er, w')" and ok: "dok (w_db w)"
  shows "(er = Sentinel Paste_ErrNotFound \<and> view (w_db w) slug = None) \<or>
    (\<exists>p. view (w_db w) slug = Some p \<and> paste_access bc (w_now w) pw (used (w_db w) slug) p = Inl er) \<or>
    low_error er"
  using assms(1) unfolding Paste_Get_def paste_service.simps
proof (cases rule: repo.lookup_cases)
  case (found p w1)
  note same = same_but_envD [OF found(2)]
  obtain b w2 where m: "rp_Mark R slug w1 = (b, w2)" by force
  have used: "b = Inr c \<Longrightarrow> c = (\<not> used (w_db w) slug)" for c
    using repo.Mark_Inr [of slug w1 c w2] m ok same found(1) by simp
  have low: "b = Inl e \<Longrightarrow> low_error e" for e using repo.Mark_Inl m by blast
  show ?thesis
  proof (cases "paste_access bc (w_now w) pw (used (w_db w) slug) p = Inl er")
    case False
    with found(3) m used low same(1) have "low_error er"
      by (cases b) (fastforce simp: paste_access_def wrap_def Let_def split: if_splits)+
    then show ?thesis by simp
  qed (use found(1) in simp)
qed simp_all

lemma Get_calm:
  assumes "all_calm w" and ok: "dok (w_db w)"
  shows "fst (Paste_Get bc (svc url) slug pw w) =
    (case view (w_db w) slug of
       None \<Rightarrow> Inl (Sentinel Paste_ErrNotFound)
     | Some p \<Rightarrow>
         (case paste_access bc (w_now w) pw (used (w_db w) slug) p of
            Inl e \<Rightarrow> Inl e | Inr u \<Rightarrow> Inr \<lparr>pg_P = p, pg_ExpiresAt = p_ExpiresAt p\<rparr>))"
proof (cases "view (w_db w) slug")
  case None
  with repo.lookup_calm_None [OF assms(1)] show ?thesis by (simp add: Paste_Get_def)
next
  case (Some p)
  from repo.lookup_calm_Some [OF assms(1) Some] obtain w1 where w1: "same_but_env w w1"
    and g: "\<And>c k. lookup Paste_ErrNotFound c (rp_GetBySlug R slug) k w = (k p :: paste_GetResult io) w1" by blast
  note same = same_but_envD [OF w1]
  obtain w2 where m: "rp_Mark R slug w1 = (Inr (\<not> used (w_db w) slug), w2)"
    using repo.Mark_calm [of w1 slug] same assms(1) ok Some by (cases "rp_Mark R slug w1") auto
  then show ?thesis using same(1) Some by (simp add: Paste_Get_def g paste_access_def Let_def)
qed

lemma Delete_frame: "keeps (svc_frame other dok fok) (Paste_Delete (svc url) slug secret)"
  unfolding Paste_Delete_def paste_service.simps by (auto intro!: frames)

lemma Delete_cases:
  assumes "Paste_Delete (svc url) slug secret w = (x, w')" and ok: "dok (w_db w)"
  obtains (refused) er where "x = Inl er" "w_db w' = w_db w" "same_but_db w w'"
      "(er = Sentinel Paste_ErrNotFound \<and> view (w_db w) slug = None) \<or>
       (er = Sentinel Paste_ErrBadDeleteSecret \<and> (\<exists>p. view (w_db w) slug = Some p \<and> p_DeleteSecret p \<noteq> secret)) \<or>
       low_error er"
  | (deleted) p where "view (w_db w) slug = Some p" "p_DeleteSecret p = secret" "x = Inr ()"
      "view (w_db w') = (view (w_db w))(slug := None)" "used (w_db w') = (used (w_db w))(slug := False)"
      "same_but_db w w'" "other (w_db w') = other (w_db w)" "dok (w_db w')"
  using assms(1) unfolding Paste_Delete_def paste_service.simps
proof (cases rule: repo.lookup_cases)
  case (found p w1)
  note same = same_but_envD [OF found(2)] and db1 = same_but_env_db [OF found(2)]
  show thesis
  proof (cases "p_DeleteSecret p = secret")
    case False
    with found db1 same(2) refused show thesis by auto
  next
    case True
    obtain z w3 where r: "rp_Delete R slug w1 = (z, w3)" by force
    note db = repo.Delete_frame [OF r] and dbi = repo.Delete_inv [OF r]
    have "same_but_db w w3" using db1 db by (blast intro: same_but_db_trans)
    with found True r same(2) db dbi ok show thesis
      using repo.Delete_Inl [of slug w1 _ w3] repo.Delete_Inr [of slug w1 _ w3]
      by (cases z) (auto intro: refused deleted)
  qed
qed (use refused in \<open>auto dest: same_but_env_db same_but_envD\<close>)

end

section \<open>The service of the program\<close>

definition pasteService :: "string \<Rightarrow> paste_service" where
  "pasteService baseURL = \<lparr>psv_repo = pasteRepo, psv_baseURL = baseURL\<rparr>"

interpretation psv: paste_service_laws pasteRepo paste_view paste_used pastes_ok not_pastes
  by unfold_locales

end
