(* ===== verification/Paste_Handler.thy ===== *)
theory Paste_Handler
  imports File_Handler Paste_Service
begin

text \<open>
  Package internal/handler, paste.go: the PasteHandler over the PasteService interface, with
  the decoding of the JSON request and the nonce of the page's script.
\<close>

section \<open>The request body\<close>

record pasteCreateRequest =
  pq_Content :: string
  pq_Title :: string
  pq_Lang :: string
  pq_Expiry :: string
  pq_Password :: string
  pq_OneUse :: bool

text \<open>
  encoding/json into a struct: members are matched by name without regard to (ASCII) case and in
  order, so the last one wins; unknown members are skipped, null leaves a field as it is, and a
  value of another type is an error.
\<close>

definition decode_string :: "(string \<Rightarrow> 'a \<Rightarrow> 'a) \<Rightarrow> json \<Rightarrow> 'a \<Rightarrow> 'a option" where
  "decode_string upd v q = (case v of JString s \<Rightarrow> Some (upd s q) | JNull \<Rightarrow> Some q | _ \<Rightarrow> None)"

definition decode_bool :: "(bool \<Rightarrow> 'a \<Rightarrow> 'a) \<Rightarrow> json \<Rightarrow> 'a \<Rightarrow> 'a option" where
  "decode_bool upd v q = (case v of JBool b \<Rightarrow> Some (upd b q) | JNull \<Rightarrow> Some q | _ \<Rightarrow> None)"

definition decode_member :: "string \<times> json \<Rightarrow> pasteCreateRequest option \<Rightarrow> pasteCreateRequest option" where
  "decode_member m acc =
     (case acc of
        None \<Rightarrow> None
      | Some q \<Rightarrow>
          (let k = ToLower (fst m) in
           if k = ''content'' then decode_string (\<lambda>s q. q\<lparr>pq_Content := s\<rparr>) (snd m) q
           else if k = ''title'' then decode_string (\<lambda>s q. q\<lparr>pq_Title := s\<rparr>) (snd m) q
           else if k = ''lang'' then decode_string (\<lambda>s q. q\<lparr>pq_Lang := s\<rparr>) (snd m) q
           else if k = ''expiry'' then decode_string (\<lambda>s q. q\<lparr>pq_Expiry := s\<rparr>) (snd m) q
           else if k = ''password'' then decode_string (\<lambda>s q. q\<lparr>pq_Password := s\<rparr>) (snd m) q
           else if k = ''one_use'' then decode_bool (\<lambda>b q. q\<lparr>pq_OneUse := b\<rparr>) (snd m) q
           else Some q))"

definition empty_request :: pasteCreateRequest where
  "empty_request = \<lparr>pq_Content = [], pq_Title = [], pq_Lang = [], pq_Expiry = [], pq_Password = [], pq_OneUse = False\<rparr>"

definition decode_paste :: "json option \<Rightarrow> pasteCreateRequest option" where
  "decode_paste j =
     (case j of
        Some (JObject ms) \<Rightarrow> fold decode_member ms (Some empty_request)
      | Some JNull \<Rightarrow> Some empty_request
      | _ \<Rightarrow> None)"

section \<open>Nonces\<close>

text \<open>base64.StdEncoding, and generateNonce on the random source of the world.\<close>

definition base64_char :: "nat \<Rightarrow> char" where
  "base64_char n = ''ABCDEFGHIJKLMNOPQRSTUVWXYZabcdefghijklmnopqrstuvwxyz0123456789+/'' ! (n mod 64)"

fun base64 :: "8 word list \<Rightarrow> string" where
  "base64 [] = []"
| "base64 [a] = [base64_char (unat a div 4), base64_char (unat a mod 4 * 16)] @ ''==''"
| "base64 [a, b] =
     [base64_char (unat a div 4), base64_char (unat a mod 4 * 16 + unat b div 16), base64_char (unat b mod 16 * 4)] @ ''=''"
| "base64 (a # b # c # bs) =
     [base64_char (unat a div 4), base64_char (unat a mod 4 * 16 + unat b div 16),
      base64_char (unat b mod 16 * 4 + unat c div 64), base64_char (unat c)] @ base64 bs"

definition generateNonce :: "world \<Rightarrow> string result \<times> world" where
  "generateNonce v =
     (if length (w_rand v) < 16 then (Inl (External ''rand.Read''), v\<lparr>w_rand := []\<rparr>)
      else (Inr (base64 (take 16 (w_rand v))), v\<lparr>w_rand := drop 16 (w_rand v)\<rparr>))"

section \<open>The handler\<close>

record paste_handler =
  ph_Create :: "paste_CreateRequest \<Rightarrow> paste_CreateResult io"
  ph_Get :: "string \<Rightarrow> string \<Rightarrow> paste_GetResult io"
  ph_Delete :: "string \<Rightarrow> string \<Rightarrow> unit io"

definition pasteCreateResponse :: "request \<Rightarrow> paste_CreateResult \<Rightarrow> json" where
  "pasteCreateResponse r res = JObject
     [(''url'', JString (absURL r (pcr_URL res))), (''delete_url'', JString (absURL r (pcr_DeleteURL res))),
      (''expires_at'', json_time (pcr_ExpiresAt res))]"

definition create_request :: "pasteCreateRequest \<Rightarrow> paste_CreateRequest" where
  "create_request q =
     \<lparr>pc_Title = pq_Title q, pc_Content = pq_Content q, pc_Lang = pq_Lang q,
      pc_Expiry = (if pq_Expiry q = [] then ''1d'' else pq_Expiry q), pc_Password = pq_Password q, pc_OneUse = pq_OneUse q\<rparr>"

definition PasteHandler_Create :: "paste_handler \<Rightarrow> handler" where
  "PasteHandler_Create h r w v =
     (let w1 = securityHeaders w in
      case decode_paste (bd_Json (rq_Body r)) of
        None \<Rightarrow> (writeError 400 ''invalid JSON body'' w1, v)
      | Some q \<Rightarrow>
          if pq_Content q = [] then (writeError 400 ''content must not be empty'' w1, v)
          else case ph_Create h (create_request q) v of
            (Inl e, v1) \<Rightarrow> (writeError 500 ''paste creation failed'' w1, v1)
          | (Inr res, v1) \<Rightarrow> (writeJSON 201 (pasteCreateResponse r res) w1, v1))"

text \<open>The error branches View and Raw share.\<close>

definition paste_get_error :: "request \<Rightarrow> string \<Rightarrow> error \<Rightarrow> writer \<Rightarrow> writer" where
  "paste_get_error r slug e w =
     (if errors_Is e Paste_ErrNotFound then writeError 404 ''not found'' w
      else if errors_Is e Paste_ErrExpired then writeError 410 ''paste has expired'' w
      else if errors_Is e Paste_ErrAlreadyConsumed then writeError 410 ''paste has already been viewed'' w
      else if errors_Is e Paste_ErrWrongPassword then wrong_password r slug w
      else writeError 500 ''internal error'' w)"

definition PasteHandler_View :: "paste_handler \<Rightarrow> handler" where
  "PasteHandler_View h r w v =
     (let w1 = securityHeaders w; slug = PathValue r ''slug'' in
      if slug = [] then (writeError 400 ''missing slug'' w1, v)
      else case ph_Get h slug (password_attempt r) v of
        (Inl e, v1) \<Rightarrow> (paste_get_error r slug e w1, v1)
      | (Inr res, v1) \<Rightarrow>
          (case generateNonce v1 of
             (Inl e, v2) \<Rightarrow> (writeError 500 ''internal error'' w1, v2)
           | (Inr nonce, v2) \<Rightarrow>
               (Write (Bytes (paste_page (pg_P res) (pg_ExpiresAt res) slug nonce))
                  (Header_Set ''Content-Type'' html_type
                    (Header_Set ''Content-Security-Policy'' (Sprintf pasteViewCSP_template [S nonce]) w1)), v2)))"

definition PasteHandler_Raw :: "paste_handler \<Rightarrow> handler" where
  "PasteHandler_Raw h r w v =
     (let w1 = securityHeaders w; slug = PathValue r ''slug'' in
      if slug = [] then (writeError 400 ''missing slug'' w1, v)
      else case ph_Get h slug (password_attempt r) v of
        (Inl e, v1) \<Rightarrow> (paste_get_error r slug e w1, v1)
      | (Inr res, v1) \<Rightarrow>
          (Write (Bytes (p_Content (pg_P res)))
             (Header_Set ''Content-Disposition'' (''inline; filename='' @ [dquote] @ slug @ ''.txt'' @ [dquote])
               (Header_Set ''Content-Type'' ''text/plain; charset=utf-8'' w1)), v1))"

definition PasteHandler_Delete :: "paste_handler \<Rightarrow> handler" where
  "PasteHandler_Delete h r w v =
     (let w1 = securityHeaders w; slug = PathValue r ''slug''; secret = PathValue r ''secret'' in
      if slug = [] \<or> secret = [] then (writeError 400 ''missing slug or secret'' w1, v)
      else case ph_Delete h slug secret v of
        (Inl e, v1) \<Rightarrow>
          (if errors_Is e Paste_ErrNotFound then (writeError 404 ''not found'' w1, v1)
           else if errors_Is e Paste_ErrBadDeleteSecret then (writeError 403 ''invalid delete token'' w1, v1)
           else (writeError 500 ''internal error'' w1, v1))
      | (Inr u, v1) \<Rightarrow> (writeJSON 200 (JObject [(''deleted'', JBool True)]) w1, v1))"

definition pasteHandler :: "bcrypt \<Rightarrow> paste_handler" where
  "pasteHandler bc =
     \<lparr>ph_Create = Paste_Create bc (pasteService []), ph_Get = Paste_Get bc (pasteService []),
      ph_Delete = Paste_Delete (pasteService [])\<rparr>"

section \<open>What they answer\<close>

lemma base64_skeleton [simp]: "skeleton (base64 bs) = []"
proof -
  have c: "\<not> markup (base64_char n)" for n
  proof -
    have "base64_char n \<in> set ''ABCDEFGHIJKLMNOPQRSTUVWXYZabcdefghijklmnopqrstuvwxyz0123456789+/''"
      unfolding base64_char_def by (rule nth_mem) simp
    then show ?thesis by (auto simp: markup_def)
  qed
  have e: "\<not> markup CHR ''=''" by (simp add: markup_def)
  show ?thesis by (induction bs rule: base64.induct) (simp_all add: skeleton_Cons c e)
qed

lemma base64_length: "length (base64 bs) = 4 * ((length bs + 2) div 3)"
proof (induction bs rule: base64.induct)
  case (4 a b c bs)
  moreover have "(length (a # b # c # bs) + 2) div 3 = (length bs + 2) div 3 + 1" by simp
  ultimately show ?case by simp
qed simp_all

lemma generateNonce_ok:
  assumes "generateNonce v = (Inr n, v1)"
  shows "skeleton n = []" "length n = 24" "v1 = v\<lparr>w_rand := drop 16 (w_rand v)\<rparr>"
  using assms by (auto simp: generateNonce_def base64_length split: if_splits)

lemma paste_get_error_status:
  assumes "rw_Sent w = None"
  shows "response_status (paste_get_error r s e w) =
    read_status Paste_ErrNotFound Paste_ErrExpired Paste_ErrAlreadyConsumed Paste_ErrWrongPassword (Inl e)"
  using assms by (simp add: paste_get_error_def read_status_def)

lemma Raw_status:
  assumes "rw_Sent w = None" and "PathValue r ''slug'' \<noteq> []"
    and "ph_Get h (PathValue r ''slug'') (password_attempt r) v = (x, v1)"
  shows "snd (PasteHandler_Raw h r w v) = v1"
    and "response_status (fst (PasteHandler_Raw h r w v)) =
      read_status Paste_ErrNotFound Paste_ErrExpired Paste_ErrAlreadyConsumed Paste_ErrWrongPassword x"
    and "x = Inr g \<Longrightarrow> rw_Body (fst (PasteHandler_Raw h r w v)) = rw_Body w @ [Bytes (p_Content (pg_P g))]"
  using assms by (auto simp: PasteHandler_Raw_def Let_def paste_get_error_status split: sum.split)
    (simp add: read_status_def)

lemma View_status:
  assumes "rw_Sent w = None" and "PathValue r ''slug'' \<noteq> []"
    and "ph_Get h (PathValue r ''slug'') (password_attempt r) v = (x, v1)"
    and "16 \<le> length (w_rand v1)"
  shows "response_status (fst (PasteHandler_View h r w v)) =
      read_status Paste_ErrNotFound Paste_ErrExpired Paste_ErrAlreadyConsumed Paste_ErrWrongPassword x"
  using assms by (auto simp: PasteHandler_View_def Let_def paste_get_error_status generateNonce_def split: sum.split)
    (simp add: read_status_def)

lemma headers_set_paste_error [intro]: "headers_set w \<Longrightarrow> headers_set (paste_get_error r s e w)"
  by (auto simp: paste_get_error_def)

lemma PasteHandler_secured:
  assumes "rw_Sent w = None"
  shows "secured (fst (PasteHandler_Create h r w v))" "secured (fst (PasteHandler_View h r w v))"
    "secured (fst (PasteHandler_Raw h r w v))" "secured (fst (PasteHandler_Delete h r w v))"
  using headers_set_security [OF assms]
  by (auto simp: PasteHandler_Create_def PasteHandler_View_def PasteHandler_Raw_def PasteHandler_Delete_def Let_def
      intro!: headers_set_secured
      split: sum.split option.split prod.split)

end
