(* ===== verification/Bucket_Repo.thy ===== *)
theory Bucket_Repo
  imports Repository Bucket_Entity
begin

text \<open>
  Package internal/storage, bucket_repo.go: bucket.Repository on the tables buckets and
  bucket_files, with the foreign key of the schema (checked on insert, ON DELETE CASCADE).
\<close>

section \<open>The code\<close>

definition bf_of_row :: "bucket_file_row \<Rightarrow> bucket_file_ent" where
  "bf_of_row r =
     \<lparr>bf_ID = bfr_id r, bf_BucketSlug = bfr_bucket_slug r, bf_Filename = bfr_filename r,
      bf_Size = bfr_size r, bf_MimeType = bfr_mime_type r, bf_StorageKey = bfr_storage_key r\<rparr>"

definition row_of_bf :: "int \<Rightarrow> bucket_file_ent \<Rightarrow> bucket_file_row" where
  "row_of_bf i bf =
     \<lparr>bfr_id = i, bfr_bucket_slug = bf_BucketSlug bf, bfr_filename = bf_Filename bf,
      bfr_size = bf_Size bf, bfr_mime_type = bf_MimeType bf, bfr_storage_key = bf_StorageKey bf\<rparr>"

definition bucket_of_row :: "bucket_row \<Rightarrow> bucket_file_ent list \<Rightarrow> bucket_ent" where
  "bucket_of_row r files =
     \<lparr>b_Slug = br_slug r, b_PasswordHash = coalesce (br_password r), b_OneUse = (br_one_use r = 1),
      b_Expiry = [], b_DeleteSecret = coalesce (br_delete_secret r),
      b_ExpiresAt = map_option time_Unix (br_expires_at r), b_Files = files\<rparr>"

definition row_of_bucket :: "int \<Rightarrow> bucket_ent \<Rightarrow> instant option \<Rightarrow> bucket_row" where
  "row_of_bucket now b expiresAt =
     \<lparr>br_slug = b_Slug b, br_password = nullableString (b_PasswordHash b),
      br_one_use = boolToInt (b_OneUse b), br_downloaded_at = None,
      br_expires_at = map_option unix expiresAt, br_created_at = now,
      br_delete_secret = nullableString (b_DeleteSecret b)\<rparr>"

definition bucketRepo_Create :: "bucket_ent \<Rightarrow> instant option \<Rightarrow> world \<Rightarrow> unit result \<times> world" where
  "bucketRepo_Create b expiresAt w =
     (case sql_Exec (\<lambda>now d. case tbl_insert br_slug (row_of_bucket now b expiresAt) (db_buckets d) of
          Inl e \<Rightarrow> Inl e | Inr rows \<Rightarrow> Inr ((), d\<lparr>db_buckets := rows\<rparr>)) w of
        (Inl e, w1) \<Rightarrow> (Inl (Wrap ''bucket repo create'' e), w1)
      | (Inr u, w1) \<Rightarrow> (Inr (), w1))"

definition bucketRepo_AddFile :: "bucket_file_ent \<Rightarrow> world \<Rightarrow> unit result \<times> world" where
  "bucketRepo_AddFile bf w =
     (case sql_Exec (\<lambda>now d.
          if tbl_select br_slug (bf_BucketSlug bf) (db_buckets d) = None
          then Inl (External ''sqlite: FOREIGN KEY constraint failed'')
          else let i = db_bucket_files_seq d + 1 in
            Inr ((), d\<lparr>db_bucket_files := db_bucket_files d @ [row_of_bf i bf],
                      db_bucket_files_seq := i\<rparr>)) w of
        (Inl e, w1) \<Rightarrow> (Inl (Wrap ''bucket repo add file'' e), w1)
      | (Inr u, w1) \<Rightarrow> (Inr (), w1))"

definition select_bucket_files :: "string \<Rightarrow> db \<Rightarrow> bucket_file_row list" where
  "select_bucket_files s d = sort_key bfr_id (filter (\<lambda>r. bfr_bucket_slug r = s) (db_bucket_files d))"

definition bucketRepo_files :: "string \<Rightarrow> string \<Rightarrow> string \<Rightarrow> string \<Rightarrow> world \<Rightarrow> bucket_file_ent list result \<times> world" where
  "bucketRepo_files query_ctx scan_ctx rows_ctx s w =
     (case sql_Query (\<lambda>now d. select_bucket_files s d) w of
        (Inl e, w1) \<Rightarrow> (Inl (Wrap query_ctx e), w1)
      | (Inr rows, w1) \<Rightarrow> sql_Scan bf_of_row scan_ctx rows_ctx rows w1)"

definition bucketRepo_GetBySlug :: "string \<Rightarrow> world \<Rightarrow> bucket_ent result \<times> world" where
  "bucketRepo_GetBySlug s w =
     (case sql_Query (\<lambda>now d. tbl_select br_slug s (db_buckets d)) w of
        (Inl e, w1) \<Rightarrow> (Inl (Wrap ''bucket repo get'' e), w1)
      | (Inr None, w1) \<Rightarrow> (Inl (Sentinel Bucket_ErrNotFound), w1)
      | (Inr (Some r), w1) \<Rightarrow>
          (case bucketRepo_files ''bucket repo get files'' ''bucket repo get files scan''
                  ''bucket repo get files rows'' s w1 of
             (Inl e, w2) \<Rightarrow> (Inl e, w2)
           | (Inr files, w2) \<Rightarrow> (Inr (bucket_of_row r files), w2)))"

definition bucketRepo_MarkDownloaded :: "string \<Rightarrow> world \<Rightarrow> bool result \<times> world" where
  "bucketRepo_MarkDownloaded s w =
     (case sql_Exec (\<lambda>now d.
          case tbl_update (\<lambda>r. br_slug r = s \<and> br_downloaded_at r = None)
                 (\<lambda>r. r\<lparr>br_downloaded_at := Some now\<rparr>) (db_buckets d) of
            (n, rows) \<Rightarrow> Inr (n, d\<lparr>db_buckets := rows\<rparr>)) w of
        (Inl e, w1) \<Rightarrow> (Inl (Wrap ''bucket repo mark downloaded'' e), w1)
      | (Inr n, w1) \<Rightarrow>
          (case sql_RowsAffected n w1 of
             (Inl e, w2) \<Rightarrow> (Inl (Wrap ''bucket repo mark downloaded rows'' e), w2)
           | (Inr n, w2) \<Rightarrow> (Inr (n = 1), w2)))"

text \<open>Deleting a bucket row cascades to the bucket_files rows that reference it.\<close>

definition cascade_delete :: "string \<Rightarrow> db \<Rightarrow> db" where
  "cascade_delete s d =
     d\<lparr>db_buckets := tbl_delete (\<lambda>r. br_slug r = s) (db_buckets d),
       db_bucket_files := tbl_delete (\<lambda>f. bfr_bucket_slug f = s \<and>
         tbl_select br_slug s (db_buckets d) \<noteq> None) (db_bucket_files d)\<rparr>"

definition bucketRepo_Delete :: "string \<Rightarrow> world \<Rightarrow> unit result \<times> world" where
  "bucketRepo_Delete s w =
     (case sql_Exec (\<lambda>now d. Inr ((), cascade_delete s d)) w of
        (Inl e, w1) \<Rightarrow> (Inl (Wrap ''bucket repo delete'' e), w1)
      | (Inr u, w1) \<Rightarrow> (Inr (), w1))"

text \<open>The loop over the expired rows: scan the row, then fetch its files.\<close>

fun bucketRepo_scan_expired :: "bucket_row list \<Rightarrow> world \<Rightarrow> bucket_ent list result \<times> world" where
  "bucketRepo_scan_expired [] w =
     (case next_choice w of (c, w1) \<Rightarrow>
        if c \<noteq> 0 then (Inl (Wrap ''bucket repo list expired rows'' (External ''sqlite: rows'')), w1)
        else (Inr [], w1))"
| "bucketRepo_scan_expired (r # rs) w =
     (case next_choice w of (c, w1) \<Rightarrow>
        if c \<noteq> 0 then (Inl (Wrap ''bucket repo list expired scan'' (External ''sqlite: scan'')), w1)
        else case bucketRepo_files ''bucket repo list expired files''
               ''bucket repo list expired files scan'' ''bucket repo list expired files rows''
               (br_slug r) w1 of
          (Inl e, w2) \<Rightarrow> (Inl e, w2)
        | (Inr files, w2) \<Rightarrow>
            (case bucketRepo_scan_expired rs w2 of
               (Inl e, w3) \<Rightarrow> (Inl e, w3)
             | (Inr bs, w3) \<Rightarrow> (Inr (bucket_of_row r files # bs), w3)))"

definition bucketRepo_ListExpired :: "world \<Rightarrow> bucket_ent list result \<times> world" where
  "bucketRepo_ListExpired w =
     (case sql_Query (\<lambda>now d. filter (\<lambda>r. expired_col now (br_expires_at r)) (db_buckets d)) w of
        (Inl e, w1) \<Rightarrow> (Inl (Wrap ''bucket repo list expired'' e), w1)
      | (Inr rows, w1) \<Rightarrow> bucketRepo_scan_expired rows w1)"

record bucket_repo = "bucket_ent repo" +
  rp_AddFile :: "bucket_file_ent \<Rightarrow> world \<Rightarrow> unit result \<times> world"

definition bucketRepo :: "bucket_repo" where
  "bucketRepo = \<lparr>rp_Create = bucketRepo_Create, rp_GetBySlug = bucketRepo_GetBySlug,
     rp_Mark = bucketRepo_MarkDownloaded, rp_Delete = bucketRepo_Delete,
     rp_ListExpired = bucketRepo_ListExpired, rp_AddFile = bucketRepo_AddFile\<rparr>"

section \<open>The contract\<close>

definition bucket_view :: "db \<Rightarrow> string \<Rightarrow> bucket_ent option" where
  "bucket_view d s = map_option (\<lambda>r. bucket_of_row r (map bf_of_row (select_bucket_files s d)))
     (tbl_select br_slug s (db_buckets d))"

definition bucket_used :: "db \<Rightarrow> string \<Rightarrow> bool" where
  "bucket_used d s = (case tbl_select br_slug s (db_buckets d) of
     None \<Rightarrow> False | Some r \<Rightarrow> br_downloaded_at r \<noteq> None)"

definition bucket_stored :: "bucket_ent \<Rightarrow> instant option \<Rightarrow> bucket_ent" where
  "bucket_stored b t = b\<lparr>b_Expiry := [], b_ExpiresAt := map_option to_second t, b_Files := []\<rparr>"

text \<open>Primary key, foreign key, and ids that grow with every insert.\<close>

definition buckets_ok :: "db \<Rightarrow> bool" where
  "buckets_ok d \<longleftrightarrow> keyed br_slug (db_buckets d) \<and>
     (\<forall>f \<in> set (db_bucket_files d). tbl_select br_slug (bfr_bucket_slug f) (db_buckets d) \<noteq> None) \<and>
     sorted_wrt (<) (map bfr_id (db_bucket_files d)) \<and>
     (\<forall>f \<in> set (db_bucket_files d). bfr_id f \<le> db_bucket_files_seq d)"

definition not_buckets :: "db \<Rightarrow> file_row list \<times> paste_row list" where
  "not_buckets d = (db_files d, db_pastes d)"

lemma bucket_of_row_sel [simp]:
  "b_Slug (bucket_of_row r fs) = br_slug r" "b_Files (bucket_of_row r fs) = fs"
  "b_ExpiresAt (bucket_of_row r fs) = map_option time_Unix (br_expires_at r)"
  by (simp_all add: bucket_of_row_def)

lemma bucket_of_row_mark [simp]: "bucket_of_row (r\<lparr>br_downloaded_at := v\<rparr>) fs = bucket_of_row r fs"
  by (simp add: bucket_of_row_def)

lemma bucket_of_row_of_bucket: "bucket_of_row (row_of_bucket now b t) [] = bucket_stored b t"
  by (cases b) (simp add: bucket_of_row_def row_of_bucket_def bucket_stored_def to_second_def [abs_def]
      option.map_comp comp_def)

lemma row_of_bucket_sel [simp]:
  "br_slug (row_of_bucket now b t) = b_Slug b" "br_downloaded_at (row_of_bucket now b t) = None"
  by (simp_all add: row_of_bucket_def)

lemma bucketRepo_sel [simp]:
  "rp_Create bucketRepo = bucketRepo_Create" "rp_GetBySlug bucketRepo = bucketRepo_GetBySlug"
  "rp_Mark bucketRepo = bucketRepo_MarkDownloaded" "rp_Delete bucketRepo = bucketRepo_Delete"
  "rp_ListExpired bucketRepo = bucketRepo_ListExpired" "rp_AddFile bucketRepo = bucketRepo_AddFile"
  by (simp_all add: bucketRepo_def)

lemma select_bucket_files_upd [simp]:
  "select_bucket_files s (d\<lparr>db_buckets := bs\<rparr>) = select_bucket_files s d"
  by (simp add: select_bucket_files_def)

lemma select_bucket_files_sorted:
  assumes "buckets_ok d"
  shows "select_bucket_files s d = filter (\<lambda>r. bfr_bucket_slug r = s) (db_bucket_files d)"
proof -
  have "sorted_wrt (\<lambda>x y. bfr_id x < bfr_id y) (db_bucket_files d)"
    using assms by (simp add: buckets_ok_def sorted_wrt_map)
  then have "sorted (map bfr_id (filter (\<lambda>r. bfr_bucket_slug r = s) (db_bucket_files d)))"
    by (auto simp: sorted_map intro: sorted_wrt_filter sorted_wrt_mono_rel [rotated])
  then show ?thesis by (simp add: select_bucket_files_def sort_key_id_if_sorted)
qed

lemma no_orphan_files:
  assumes "buckets_ok d" and "tbl_select br_slug s (db_buckets d) = None"
  shows "select_bucket_files s d = []"
  using assms by (force simp: select_bucket_files_sorted buckets_ok_def filter_empty_conv)

section \<open>Each operation\<close>

lemma bucketRepo_Create_spec:
  assumes "bucketRepo_Create b t w = (x, w')"
  shows "same_but_db w w'" "not_buckets (w_db w') = not_buckets (w_db w)"
    "x = Inl e \<Longrightarrow> w_db w' = w_db w \<and> low_error e"
    "x = Inr u \<Longrightarrow> \<exists>rows. w_db w' = (w_db w)\<lparr>db_buckets := rows\<rparr> \<and>
       tbl_insert br_slug (row_of_bucket (unix (w_now w)) b t) (db_buckets (w_db w)) = Inr rows"
  using assms
  by (auto simp: bucketRepo_Create_def sql_Exec_def not_buckets_def
      split: if_splits sum.splits dest: tbl_insert_Inl)

lemma bucketRepo_Create_inv:
  assumes "bucketRepo_Create b t w = (x, w')" and ok: "buckets_ok (w_db w)"
  shows "buckets_ok (w_db w')"
proof (cases x)
  case (Inl e)
  with bucketRepo_Create_spec(3) [OF assms(1)] ok show ?thesis by simp
next
  case (Inr u)
  from bucketRepo_Create_spec(4) [OF assms(1) this] obtain rows where
    d: "w_db w' = (w_db w)\<lparr>db_buckets := rows\<rparr>" and
    r: "tbl_insert br_slug (row_of_bucket (unix (w_now w)) b t) (db_buckets (w_db w)) = Inr rows" by blast
  from tbl_insert_Inr(2,3) [OF r] ok show ?thesis by (auto simp: d buckets_ok_def)
qed

lemma bucketRepo_Create_Inr:
  assumes "bucketRepo_Create b t w = (Inr u, w')" and ok: "buckets_ok (w_db w)"
  shows "bucket_view (w_db w) (b_Slug b) = None \<and>
    bucket_view (w_db w') = (bucket_view (w_db w))(b_Slug b \<mapsto> bucket_stored b t) \<and>
    bucket_used (w_db w') = (bucket_used (w_db w))(b_Slug b := False)"
proof -
  from bucketRepo_Create_spec(4) [OF assms(1) refl] obtain rows where
    d: "w_db w' = (w_db w)\<lparr>db_buckets := rows\<rparr>" and
    r: "tbl_insert br_slug (row_of_bucket (unix (w_now w)) b t) (db_buckets (w_db w)) = Inr rows" by blast
  from tbl_insert_Inr(1) [OF r] have none: "tbl_select br_slug (b_Slug b) (db_buckets (w_db w)) = None"
    by simp
  from no_orphan_files [OF ok none] none tbl_insert_Inr(2) [OF r] show ?thesis
    by (auto simp: d bucket_view_def bucket_used_def fun_eq_iff bucket_of_row_of_bucket)
qed

lemma bucketRepo_Create_calm:
  assumes "all_calm w" and "bucket_view (w_db w) (b_Slug b) = None"
  shows "fst (bucketRepo_Create b t w) = Inr ()"
  using assms tbl_insert_fresh [of br_slug "row_of_bucket (unix (w_now w)) b t" "db_buckets (w_db w)"]
  by (simp add: bucketRepo_Create_def sql_Exec_def bucket_view_def)

lemma bucketRepo_files_spec:
  assumes "bucketRepo_files c1 c2 c3 s w = (x, w')"
  shows "same_but_env w w' \<and> (case x of Inl e \<Rightarrow> low_error e
    | Inr fs \<Rightarrow> fs = map bf_of_row (select_bucket_files s (w_db w)))"
  using assms
  by (auto simp: bucketRepo_files_def sql_Query_def
      split: if_splits sum.splits dest!: sql_Scan_spec intro: same_but_env_trans [of w "rest w"])

lemma bucketRepo_files_calm:
  assumes "all_calm w"
  shows "\<exists>w'. bucketRepo_files c1 c2 c3 s w = (Inr (map bf_of_row (select_bucket_files s (w_db w))), w')"
  using sql_Scan_calm [OF rest_calm [OF assms]] assms by (simp add: bucketRepo_files_def sql_Query_calm)

lemma bucketRepo_Get_spec:
  assumes "bucketRepo_GetBySlug s w = (x, w')"
  shows "same_but_env w w'" "x = Inr b \<Longrightarrow> bucket_view (w_db w) s = Some b"
    "x = Inl e \<Longrightarrow> e = Sentinel Bucket_ErrNotFound \<and> bucket_view (w_db w) s = None \<or> low_error e"
  using assms
  by (auto simp: bucketRepo_GetBySlug_def sql_Query_def bucket_view_def
      split: if_splits option.splits sum.splits prod.splits dest!: bucketRepo_files_spec
      intro: same_but_env_trans [of w "rest w"])

lemma bucketRepo_Get_calm:
  assumes "all_calm w"
  shows "fst (bucketRepo_GetBySlug s w) =
    (case bucket_view (w_db w) s of None \<Rightarrow> Inl (Sentinel Bucket_ErrNotFound) | Some b \<Rightarrow> Inr b)"
proof (cases "tbl_select br_slug s (db_buckets (w_db w))")
  case None
  with assms show ?thesis by (simp add: bucketRepo_GetBySlug_def sql_Query_calm bucket_view_def)
next
  case (Some r)
  obtain w' where "bucketRepo_files ''bucket repo get files'' ''bucket repo get files scan''
      ''bucket repo get files rows'' s (rest w) =
      (Inr (map bf_of_row (select_bucket_files s (w_db w))), w')"
    using bucketRepo_files_calm [OF rest_calm [OF assms]] by force
  with Some assms show ?thesis by (simp add: bucketRepo_GetBySlug_def sql_Query_calm bucket_view_def)
qed

lemma bucketRepo_Mark_spec:
  assumes "bucketRepo_MarkDownloaded s w = (x, w')"
  shows "same_but_db w w'" "not_buckets (w_db w') = not_buckets (w_db w)"
    "buckets_ok (w_db w) \<Longrightarrow> buckets_ok (w_db w')" "bucket_view (w_db w') = bucket_view (w_db w)"
    "x = Inl e \<Longrightarrow> low_error e \<and> (bucket_used (w_db w') = bucket_used (w_db w) \<or>
       bucket_used (w_db w') = (bucket_used (w_db w))(s := bucket_view (w_db w) s \<noteq> None))"
    "x = Inr c \<Longrightarrow> buckets_ok (w_db w) \<Longrightarrow>
       c = (bucket_view (w_db w) s \<noteq> None \<and> \<not> bucket_used (w_db w) s) \<and>
       bucket_used (w_db w') = (bucket_used (w_db w))(s := bucket_view (w_db w) s \<noteq> None)"
proof -
  let ?cond = "\<lambda>r. br_slug r = s \<and> br_downloaded_at r = None"
  let ?mark = "\<lambda>r. r\<lparr>br_downloaded_at := Some (unix (w_now w))\<rparr>"
  let ?rows = "db_buckets (w_db w)"
  let ?d = "(w_db w)\<lparr>db_buckets := snd (tbl_update ?cond ?mark ?rows)\<rparr>"
  have view: "bucket_view ?d = bucket_view (w_db w)"
    by (simp add: bucket_view_def fun_eq_iff tbl_update_view)
  have used: "bucket_used ?d = (bucket_used (w_db w))(s := bucket_view (w_db w) s \<noteq> None)"
    by (auto simp: bucket_used_def bucket_view_def fun_eq_iff tbl_update_select
        dest: tbl_select_key split: option.split)
  have ok: "buckets_ok (w_db w) \<Longrightarrow> buckets_ok ?d"
    by (simp add: buckets_ok_def tbl_update_keyed tbl_update_select)
  have n: "fst (tbl_update ?cond ?mark ?rows) =
      (case tbl_select br_slug s ?rows of None \<Rightarrow> 0 | Some r \<Rightarrow> if ?cond r then 1 else 0)"
    if "buckets_ok (w_db w)"
    using that by (intro tbl_update_count) (auto simp: buckets_ok_def)
  note defs = bucketRepo_MarkDownloaded_def sql_Exec_def sql_RowsAffected_def case_prod_beta
  show "same_but_db w w'" "not_buckets (w_db w') = not_buckets (w_db w)"
    "buckets_ok (w_db w) \<Longrightarrow> buckets_ok (w_db w')" "bucket_view (w_db w') = bucket_view (w_db w)"
    "x = Inl e \<Longrightarrow> low_error e \<and> (bucket_used (w_db w') = bucket_used (w_db w) \<or>
       bucket_used (w_db w') = (bucket_used (w_db w))(s := bucket_view (w_db w) s \<noteq> None))"
    using assms view used ok by (auto simp: defs not_buckets_def split: if_splits)
  show "x = Inr c \<Longrightarrow> buckets_ok (w_db w) \<Longrightarrow>
       c = (bucket_view (w_db w) s \<noteq> None \<and> \<not> bucket_used (w_db w) s) \<and>
       bucket_used (w_db w') = (bucket_used (w_db w))(s := bucket_view (w_db w) s \<noteq> None)"
    using assms used n
    by (auto simp: defs bucket_view_def bucket_used_def dest: tbl_select_key split: if_splits option.splits)
qed

lemma bucketRepo_Mark_calm:
  assumes "all_calm w" and "buckets_ok (w_db w)"
  shows "fst (bucketRepo_MarkDownloaded s w) =
    Inr (bucket_view (w_db w) s \<noteq> None \<and> \<not> bucket_used (w_db w) s)"
proof -
  obtain c w' where m: "bucketRepo_MarkDownloaded s w = (Inr c, w')"
    using assms(1) by (simp add: bucketRepo_MarkDownloaded_def sql_Exec_def sql_RowsAffected_def case_prod_beta)
  from bucketRepo_Mark_spec(6) [OF this refl assms(2)] m show ?thesis by simp
qed

lemma select_bucket_files_cascade:
  "select_bucket_files k (cascade_delete s d) =
     (if k = s \<and> tbl_select br_slug s (db_buckets d) \<noteq> None then [] else select_bucket_files k d)"
proof (cases "k = s \<and> tbl_select br_slug s (db_buckets d) \<noteq> None")
  case True
  then have "filter (\<lambda>r. bfr_bucket_slug r = k) (db_bucket_files (cascade_delete s d)) = []"
    by (auto simp: cascade_delete_def tbl_delete_def filter_empty_conv)
  with True show ?thesis by (simp add: select_bucket_files_def)
next
  case False
  then have "filter (\<lambda>r. bfr_bucket_slug r = k) (db_bucket_files (cascade_delete s d)) =
      filter (\<lambda>r. bfr_bucket_slug r = k) (db_bucket_files d)"
    by (auto simp: cascade_delete_def tbl_delete_def intro!: filter_cong)
  with False show ?thesis unfolding select_bucket_files_def by presburger
qed

lemma buckets_ok_cascade:
  assumes "buckets_ok d"
  shows "buckets_ok (cascade_delete s d)"
  unfolding buckets_ok_def
proof (intro conjI)
  show "keyed br_slug (db_buckets (cascade_delete s d))"
    using assms by (simp add: cascade_delete_def tbl_delete_keyed buckets_ok_def)
  show "\<forall>f \<in> set (db_bucket_files (cascade_delete s d)).
      tbl_select br_slug (bfr_bucket_slug f) (db_buckets (cascade_delete s d)) \<noteq> None"
    using assms by (simp add: cascade_delete_def tbl_delete_select buckets_ok_def)
      (force simp: tbl_delete_def)
  show "sorted_wrt (<) (map bfr_id (db_bucket_files (cascade_delete s d)))"
    using assms by (simp add: cascade_delete_def tbl_delete_def buckets_ok_def sorted_wrt_map sorted_wrt_filter)
  show "\<forall>f \<in> set (db_bucket_files (cascade_delete s d)). bfr_id f \<le> db_bucket_files_seq (cascade_delete s d)"
    using assms by (auto simp: cascade_delete_def tbl_delete_def buckets_ok_def)
qed

lemma bucketRepo_Delete_spec:
  assumes "bucketRepo_Delete s w = (x, w')"
  shows "same_but_db w w'" "not_buckets (w_db w') = not_buckets (w_db w)"
    "buckets_ok (w_db w) \<Longrightarrow> buckets_ok (w_db w')"
    "x = Inl e \<Longrightarrow> w_db w' = w_db w \<and> low_error e"
    "x = Inr u \<Longrightarrow> bucket_view (w_db w') = (bucket_view (w_db w))(s := None) \<and>
       bucket_used (w_db w') = (bucket_used (w_db w))(s := False)"
proof -
  have sel: "tbl_select br_slug k (db_buckets (cascade_delete s d)) =
      (if k = s then None else tbl_select br_slug k (db_buckets d))" for k d
    by (simp add: cascade_delete_def tbl_delete_select)
  have cascade: "not_buckets (cascade_delete s d) = not_buckets d" for d
    by (simp add: cascade_delete_def not_buckets_def)
  have used: "bucket_used (cascade_delete s d) = (bucket_used d)(s := False)" for d
    by (simp add: bucket_used_def fun_eq_iff sel)
  have view: "bucket_view (cascade_delete s d) = (bucket_view d)(s := None)" for d
    by (simp add: bucket_view_def fun_eq_iff sel select_bucket_files_cascade)
  show "same_but_db w w'" "not_buckets (w_db w') = not_buckets (w_db w)"
    "buckets_ok (w_db w) \<Longrightarrow> buckets_ok (w_db w')"
    "x = Inl e \<Longrightarrow> w_db w' = w_db w \<and> low_error e"
    "x = Inr u \<Longrightarrow> bucket_view (w_db w') = (bucket_view (w_db w))(s := None) \<and>
       bucket_used (w_db w') = (bucket_used (w_db w))(s := False)"
    using assms cascade used view buckets_ok_cascade
    by (auto simp: bucketRepo_Delete_def sql_Exec_def split: if_splits)
qed

lemma bucketRepo_Delete_calm: "all_calm w \<Longrightarrow> fst (bucketRepo_Delete s w) = Inr ()"
  by (simp add: bucketRepo_Delete_def sql_Exec_def)

lemma bucketRepo_scan_spec:
  "bucketRepo_scan_expired rs w = (x, w') \<Longrightarrow> same_but_env w w' \<and> (case x of Inl e \<Rightarrow> low_error e
     | Inr bs \<Rightarrow> bs = map (\<lambda>r. bucket_of_row r (map bf_of_row (select_bucket_files (br_slug r) (w_db w)))) rs)"
proof (induction rs arbitrary: w w' x)
  case Nil
  then show ?case by (auto split: if_splits)
next
  case (Cons r rs)
  show ?case
  proof (cases "choice w = 0")
    case False
    with Cons.prems show ?thesis by auto
  next
    case True
    obtain y w2 where y: "bucketRepo_files ''bucket repo list expired files''
        ''bucket repo list expired files scan'' ''bucket repo list expired files rows''
        (br_slug r) (rest w) = (y, w2)" by force
    obtain z w3 where z: "bucketRepo_scan_expired rs w2 = (z, w3)" by force
    note f = bucketRepo_files_spec [OF y]
    note t = Cons.IH [OF z]
    have "same_but_env w w2" using f same_but_env_trans [of w "rest w" w2] by simp
    with t True y z f Cons.prems same_but_envD(2) [of "rest w" w2] show ?thesis
      by (auto split: sum.splits intro: same_but_env_trans)
  qed
qed

lemma bucketRepo_scan_calm: "all_calm w \<Longrightarrow> \<exists>bs w'. bucketRepo_scan_expired rs w = (Inr bs, w')"
proof (induction rs arbitrary: w)
  case (Cons r rs)
  obtain w2 where f: "bucketRepo_files ''bucket repo list expired files''
        ''bucket repo list expired files scan'' ''bucket repo list expired files rows''
        (br_slug r) (rest w) = (Inr (map bf_of_row (select_bucket_files (br_slug r) (w_db w))), w2)"
    using bucketRepo_files_calm [OF rest_calm [OF Cons.prems]] by force
  with bucketRepo_files_spec [OF f] have "all_calm w2"
    using same_but_envD(5) [of "rest w" w2] Cons.prems by simp
  from Cons.IH [OF this] f Cons.prems show ?case by auto
qed simp

lemma bucketRepo_List_spec:
  assumes "bucketRepo_ListExpired w = (x, w')"
  shows "same_but_env w w'" "x = Inl e \<Longrightarrow> low_error e"
    "x = Inr bs \<Longrightarrow> bs = map (\<lambda>r. bucket_of_row r (map bf_of_row (select_bucket_files (br_slug r) (w_db w))))
       (filter (\<lambda>r. expired_col (unix (w_now w)) (br_expires_at r)) (db_buckets (w_db w)))"
  using assms
  by (auto simp: bucketRepo_ListExpired_def sql_Query_def
      split: if_splits sum.splits dest!: bucketRepo_scan_spec intro: same_but_env_trans [of w "rest w"])

lemma bucketRepo_List_set:
  assumes "bucketRepo_ListExpired w = (Inr bs, w')" and ok: "buckets_ok (w_db w)"
  shows "distinct (map b_Slug bs) \<and> set bs = {b. \<exists>s t. bucket_view (w_db w) s = Some b \<and>
    b_ExpiresAt b = Some t \<and> unix t < unix (w_now w)}"
proof -
  note l = bucketRepo_List_spec(3) [OF assms(1) refl]
  have k: "keyed br_slug (db_buckets (w_db w))" using ok by (simp add: buckets_ok_def)
  have "map b_Slug bs = map br_slug (filter (\<lambda>r. expired_col (unix (w_now w)) (br_expires_at r)) (db_buckets (w_db w)))"
    by (simp add: l comp_def)
  with k have "distinct (map b_Slug bs)" by (simp add: keyed_def distinct_map_filter_key)
  moreover have "b \<in> set bs \<longleftrightarrow> (\<exists>s t. bucket_view (w_db w) s = Some b \<and>
    b_ExpiresAt b = Some t \<and> unix t < unix (w_now w))" for b
    by (fastforce simp: l bucket_view_def tbl_select_Some [OF k] expired_col_iff)
  ultimately show ?thesis by auto
qed

lemma bucketRepo_List_calm:
  assumes "all_calm w"
  shows "\<exists>bs. fst (bucketRepo_ListExpired w) = Inr bs"
proof -
  from bucketRepo_scan_calm [OF rest_calm [OF assms]] obtain bs w' where
    "bucketRepo_scan_expired (filter (\<lambda>r. expired_col (unix (w_now w)) (br_expires_at r))
       (db_buckets (w_db w))) (rest w) = (Inr bs, w')" by blast
  with assms show ?thesis by (simp add: bucketRepo_ListExpired_def sql_Query_calm)
qed

lemma bucket_view_laws:
  "bucket_view d s = Some b \<Longrightarrow> b_Slug b = s"
  "bucket_view d s = Some b \<Longrightarrow> b_ExpiresAt b = Some i \<Longrightarrow> time_Unix (unix i) = i"
  "bucket_used d s \<Longrightarrow> bucket_view d s \<noteq> None"
  by (auto simp: bucket_view_def bucket_used_def dest: tbl_select_key split: option.splits)

lemmas bucketRepo_laws =
  conjI [OF bucketRepo_Create_spec(1,2)] bucketRepo_Get_spec(1) conjI [OF bucketRepo_Mark_spec(1,2)]
  conjI [OF bucketRepo_Delete_spec(1,2)] bucketRepo_List_spec(1)
  bucketRepo_Create_inv bucketRepo_Mark_spec(3) bucketRepo_Delete_spec(3)
  bucketRepo_Create_Inr bucketRepo_Create_spec(3) [OF _ refl] bucketRepo_Create_calm
  bucketRepo_Get_spec(2,3) [OF _ refl] bucketRepo_Get_calm
  bucketRepo_Mark_spec(4) bucketRepo_Mark_spec(6,5) [OF _ refl] bucketRepo_Mark_calm
  bucketRepo_Delete_spec(5,4) [OF _ refl] bucketRepo_Delete_calm
  bucketRepo_List_set bucketRepo_List_spec(2) [OF _ refl] bucketRepo_List_calm bucket_view_laws

section \<open>AddFile\<close>

text \<open>
  bucket.Repository is a repository with one more operation. AddFile appends a file to the
  bucket it names and gives it an id of its own; on a bucket that does not exist it fails.
\<close>

definition add_file :: "int \<Rightarrow> bucket_file_ent \<Rightarrow> bucket_ent \<Rightarrow> bucket_ent" where
  "add_file i bf b = b\<lparr>b_Files := b_Files b @ [bf\<lparr>bf_ID := i\<rparr>]\<rparr>"

locale bucket_repository =
  repository R view used b_Slug b_ExpiresAt bucket_stored ok other NotFound
  for R :: "bucket_repo"
    and view :: "db \<Rightarrow> string \<Rightarrow> bucket_ent option"
    and used :: "db \<Rightarrow> string \<Rightarrow> bool"
    and ok :: "db \<Rightarrow> bool"
    and other :: "db \<Rightarrow> 'o"
    and NotFound :: sentinel +
  assumes AddFile_frame: "rp_AddFile R bf w = (x, w') \<Longrightarrow>
      same_but_db w w' \<and> other (w_db w') = other (w_db w)"
    and AddFile_inv: "rp_AddFile R bf w = (x, w') \<Longrightarrow> ok (w_db w) \<Longrightarrow> ok (w_db w')"
    and AddFile_Inr: "rp_AddFile R bf w = (Inr u, w') \<Longrightarrow> ok (w_db w) \<Longrightarrow>
      (\<exists>b i. view (w_db w) (bf_BucketSlug bf) = Some b \<and>
         view (w_db w') = (view (w_db w))(bf_BucketSlug bf \<mapsto> add_file i bf b)) \<and>
      used (w_db w') = used (w_db w)"
    and AddFile_Inl: "rp_AddFile R bf w = (Inl er, w') \<Longrightarrow> w_db w' = w_db w \<and> low_error er"
    and AddFile_calm: "all_calm w \<Longrightarrow> view (w_db w) (bf_BucketSlug bf) \<noteq> None \<Longrightarrow>
      fst (rp_AddFile R bf w) = Inr ()"
begin

lemma create_add_get:
  assumes "rp_Create R b t w = (Inr u, w1)" and "ok (w_db w)"
    and "rp_AddFile R bf w1 = (Inr v, w2)" and "bf_BucketSlug bf = b_Slug b" and "all_calm w2"
  shows "\<exists>i. fst (rp_GetBySlug R (b_Slug b) w2) = Inr (add_file i bf (bucket_stored b t))"
  using Create_Inr [OF assms(1,2)] AddFile_Inr [OF assms(3) Create_inv [OF assms(1,2)]] assms(4)
    Get_calm [OF assms(5), of "b_Slug b"] by force

end

definition add_row :: "bucket_file_ent \<Rightarrow> db \<Rightarrow> db" where
  "add_row bf d = (let i = db_bucket_files_seq d + 1 in
     d\<lparr>db_bucket_files := db_bucket_files d @ [row_of_bf i bf], db_bucket_files_seq := i\<rparr>)"

lemma add_row_sel [simp]:
  "db_buckets (add_row bf d) = db_buckets d" "not_buckets (add_row bf d) = not_buckets d"
  "bucket_used (add_row bf d) = bucket_used d"
  by (simp_all add: add_row_def not_buckets_def bucket_used_def fun_eq_iff Let_def)

lemma buckets_ok_add_row:
  assumes "buckets_ok d" and "tbl_select br_slug (bf_BucketSlug bf) (db_buckets d) \<noteq> None"
  shows "buckets_ok (add_row bf d)"
  using assms by (force simp: buckets_ok_def add_row_def row_of_bf_def sorted_wrt_append Let_def)

lemma select_add_row:
  assumes ok: "buckets_ok d" and ex: "tbl_select br_slug (bf_BucketSlug bf) (db_buckets d) \<noteq> None"
  shows "select_bucket_files s (add_row bf d) = select_bucket_files s d @
     (if s = bf_BucketSlug bf then [row_of_bf (db_bucket_files_seq d + 1) bf] else [])"
  by (simp add: select_bucket_files_sorted [OF ok] select_bucket_files_sorted [OF buckets_ok_add_row [OF ok ex]])
    (simp add: add_row_def row_of_bf_def Let_def)

lemma bucketRepo_AddFile_eq:
  assumes "bucketRepo_AddFile bf w = (x, w')"
  shows "x = Inr u \<Longrightarrow> w' = (rest w)\<lparr>w_db := add_row bf (w_db w)\<rparr> \<and>
      tbl_select br_slug (bf_BucketSlug bf) (db_buckets (w_db w)) \<noteq> None"
    and "x = Inl e \<Longrightarrow> w' = rest w \<and> low_error e"
  using assms
  by (auto simp: bucketRepo_AddFile_def sql_Exec_def add_row_def Let_def split: if_splits sum.splits)

lemma bucketRepo_AddFile_frame:
  assumes "bucketRepo_AddFile bf w = (x, w')"
  shows "same_but_db w w' \<and> not_buckets (w_db w') = not_buckets (w_db w)"
    and "buckets_ok (w_db w) \<Longrightarrow> buckets_ok (w_db w')"
  using bucketRepo_AddFile_eq [OF assms] by (cases x; simp add: buckets_ok_add_row)+

lemma bucketRepo_AddFile_Inr:
  assumes "bucketRepo_AddFile bf w = (Inr u, w')" and ok: "buckets_ok (w_db w)"
  shows "(\<exists>b i. bucket_view (w_db w) (bf_BucketSlug bf) = Some b \<and>
      bucket_view (w_db w') = (bucket_view (w_db w))(bf_BucketSlug bf \<mapsto> add_file i bf b)) \<and>
    bucket_used (w_db w') = bucket_used (w_db w)"
proof -
  note w' = bucketRepo_AddFile_eq(1) [OF assms(1) refl]
  then obtain r where r: "tbl_select br_slug (bf_BucketSlug bf) (db_buckets (w_db w)) = Some r" by auto
  have "bf_of_row (row_of_bf i bf) = bf\<lparr>bf_ID := i\<rparr>" for i
    by (cases bf) (simp add: bf_of_row_def row_of_bf_def)
  with w' r show ?thesis
    by (auto simp: bucket_view_def fun_eq_iff add_file_def bucket_of_row_def
        select_add_row [OF ok conjunct2 [OF w']])
qed

lemma bucketRepo_AddFile_Inl:
  "bucketRepo_AddFile bf w = (Inl e, w') \<Longrightarrow> w_db w' = w_db w \<and> low_error e"
  by (frule bucketRepo_AddFile_eq(2) [OF _ refl]) simp

lemma bucketRepo_AddFile_calm:
  assumes "all_calm w" and "bucket_view (w_db w) (bf_BucketSlug bf) \<noteq> None"
  shows "fst (bucketRepo_AddFile bf w) = Inr ()"
  using assms by (auto simp: bucketRepo_AddFile_def sql_Exec_def bucket_view_def Let_def)

interpretation br: bucket_repository bucketRepo bucket_view bucket_used buckets_ok not_buckets
  Bucket_ErrNotFound
  by (unfold_locales, unfold bucketRepo_sel)
    ((rule bucketRepo_laws bucketRepo_AddFile_frame bucketRepo_AddFile_Inr bucketRepo_AddFile_calm bucketRepo_AddFile_Inl,
        assumption+) | simp)+

end
