(* ===== verification/Bucket_Service.thy ===== *)
theory Bucket_Service
  imports Service_Common Bucket_Repo
begin

text \<open>
  Package internal/domain/bucket, service.go: creation of a bucket of files with its rollback,
  metadata, ZIP streaming, single-file download and deletion, on any file store and bucket
  repository that meet their contracts (locale \<open>bucket_service_laws\<close>) and on the program's own
  (interpretation \<open>bsv\<close>).
\<close>

section \<open>The code\<close>

record bucket_service =
  bsv_repo :: bucket_repo
  bsv_store :: backend
  bsv_baseURL :: string

record bucket_FileInput =
  fi_Filename :: string
  fi_MimeType :: string
  fi_Size :: int
  fi_Content :: reader

record bucket_CreateRequest =
  bq_Files :: "bucket_FileInput list"
  bq_Expiry :: string
  bq_Password :: string
  bq_OneUse :: bool

record bucket_FileInfo =
  fin_Filename :: string
  fin_Size :: int
  fin_MimeType :: string

record bucket_CreateResult =
  bcr_Slug :: string
  bcr_URL :: string
  bcr_DeleteURL :: string
  bcr_ExpiresAt :: "instant option"
  bcr_FileCount :: int
  bcr_Files :: "bucket_FileInfo list"

record bucket_GetResult =
  bg_B :: bucket_ent
  bg_ExpiresAt :: "instant option"

record storedFile =
  sf_storageKey :: string
  sf_bf :: bucket_file_ent

subsection \<open>Create\<close>

text \<open>The best-effort cleanup of the files already written.\<close>

fun delete_stored :: "bucket_service \<Rightarrow> storedFile list \<Rightarrow> world \<Rightarrow> world" where
  "delete_stored s [] w = w"
| "delete_stored s (sf # sfs) w = delete_stored s sfs (snd (be_Delete (bsv_store s) (sf_storageKey sf) w))"

definition stored_entry :: "string \<Rightarrow> bucket_FileInput \<Rightarrow> string \<Rightarrow> storedFile" where
  "stored_entry bucketSlug fi storageKey =
     (let mimeType = (if fi_MimeType fi = [] then ''application/octet-stream'' else fi_MimeType fi) in
      \<lparr>sf_storageKey = storageKey,
       sf_bf = \<lparr>bf_ID = 0, bf_BucketSlug = bucketSlug, bf_Filename = fi_Filename fi, bf_Size = fi_Size fi,
                bf_MimeType = mimeType, bf_StorageKey = storageKey\<rparr>\<rparr>)"

fun store_files :: "bucket_service \<Rightarrow> string \<Rightarrow> storedFile list \<Rightarrow> bucket_FileInput list \<Rightarrow> storedFile list io" where
  "store_files s bucketSlug stored [] = pure_result (Inr stored)"
| "store_files s bucketSlug stored (fi # fis) =
     wrap_undo ''bucket service create: generate file key'' (slug_io slugLength)
       (delete_stored s stored) (\<lambda>storageKey.
     wrap_undo ''bucket service create: write file'' (be_Write (bsv_store s) storageKey (fi_Content fi))
       (delete_stored s stored) (\<lambda>u.
     store_files s bucketSlug (stored @ [stored_entry bucketSlug fi storageKey]) fis))"

definition file_info :: "storedFile \<Rightarrow> bucket_FileInfo" where
  "file_info sf =
     \<lparr>fin_Filename = bf_Filename (sf_bf sf), fin_Size = bf_Size (sf_bf sf), fin_MimeType = bf_MimeType (sf_bf sf)\<rparr>"

text \<open>The rows of the files: an error here leaves bucket, rows and bytes as they are.\<close>

fun add_files :: "bucket_service \<Rightarrow> bucket_FileInfo list \<Rightarrow> storedFile list \<Rightarrow> bucket_FileInfo list io" where
  "add_files s fileInfos [] = pure_result (Inr fileInfos)"
| "add_files s fileInfos (sf # sfs) =
     wrap ''bucket service create: persist file'' (rp_AddFile (bsv_repo s) (sf_bf sf)) (\<lambda>u.
     add_files s (fileInfos @ [file_info sf]) sfs)"

definition Bucket_result :: "bucket_service \<Rightarrow> string \<Rightarrow> string \<Rightarrow> instant option \<Rightarrow> storedFile list \<Rightarrow>
    bucket_FileInfo list \<Rightarrow> bucket_CreateResult" where
  "Bucket_result s bucketSlug deleteSecret expiresAt stored fileInfos =
     \<lparr>bcr_Slug = bucketSlug,
      bcr_URL = bsv_baseURL s @ ''/b/'' @ bucketSlug,
      bcr_DeleteURL = bsv_baseURL s @ ''/b/delete/'' @ bucketSlug @ ''/'' @ deleteSecret,
      bcr_ExpiresAt = expiresAt,
      bcr_FileCount = int (length stored),
      bcr_Files = fileInfos\<rparr>"

text \<open>Everything after the entity is constructed: files, bucket row, file rows.\<close>

definition Bucket_persist :: "bucket_service \<Rightarrow> bucket_ent \<Rightarrow> instant option \<Rightarrow> bucket_FileInput list \<Rightarrow>
    (storedFile list \<times> bucket_FileInfo list) io" where
  "Bucket_persist s b expiresAt files w =
     (case store_files s (b_Slug b) [] files w of
        (Inl e, w1) \<Rightarrow> (Inl e, w1)
      | (Inr stored, w1) \<Rightarrow>
          wrap_undo ''bucket service create: persist bucket'' (rp_Create (bsv_repo s) b expiresAt)
            (delete_stored s stored) (\<lambda>u w2.
          case add_files s [] stored w2 of
            (Inl e, w3) \<Rightarrow> (Inl e, w3)
          | (Inr fileInfos, w3) \<Rightarrow> (Inr (stored, fileInfos), w3)) w1)"

definition Bucket_Create :: "bcrypt \<Rightarrow> bucket_service \<Rightarrow> bucket_CreateRequest \<Rightarrow> bucket_CreateResult io" where
  "Bucket_Create bc s req =
     wrap ''bucket service create: generate slug'' (slug_io slugLength) (\<lambda>bucketSlug.
     wrap ''bucket service create: generate delete secret'' (slug_io deleteSecretLength) (\<lambda>deleteSecret.
     wrap ''bucket service create: hash password'' (hash_password bc (bq_Password req)) (\<lambda>passwordHash.
     wrap ''bucket service create: construct entity''
       (pure_result (bucket_New bucketSlug deleteSecret passwordHash (bq_Expiry req) (bq_OneUse req))) (\<lambda>b w.
     case bucket_ExpiryDuration (bq_Expiry req) of
       Inl p \<Rightarrow> (Inl p, w)
     | Inr d \<Rightarrow>
         let expiresAt = expiry_instant d (w_now w) in
         case Bucket_persist s b expiresAt (bq_Files req) w of
           (Inl e, w1) \<Rightarrow> (Inl e, w1)
         | (Inr (stored, fileInfos), w1) \<Rightarrow>
             (Inr (Bucket_result s bucketSlug deleteSecret expiresAt stored fileInfos), w1)))))"

subsection \<open>Reading\<close>

text \<open>The prefix common to GetMeta, StreamZIP and GetFile: lookup, expiry, password.\<close>

definition bucket_open :: "bcrypt \<Rightarrow> bucket_service \<Rightarrow> string \<Rightarrow> string \<Rightarrow> string \<Rightarrow> bucket_ent io" where
  "bucket_open bc s ctx bucketSlug passwordAttempt =
     lookup Bucket_ErrNotFound ctx (rp_GetBySlug (bsv_repo s) bucketSlug) (\<lambda>b w.
       if is_expired (w_now w) (b_ExpiresAt b) then (Inl (Sentinel Bucket_ErrExpired), w)
       else if \<not> check_password bc (b_PasswordHash b) passwordAttempt
       then (Inl (Sentinel Bucket_ErrWrongPassword), w)
       else (Inr b, w))"

definition Bucket_GetMeta :: "bcrypt \<Rightarrow> bucket_service \<Rightarrow> string \<Rightarrow> string \<Rightarrow> bucket_GetResult io" where
  "Bucket_GetMeta bc s bucketSlug passwordAttempt w =
     (case bucket_open bc s ''bucket service get meta: lookup'' bucketSlug passwordAttempt w of
        (Inl e, w1) \<Rightarrow> (Inl e, w1)
      | (Inr b, w1) \<Rightarrow> (Inr \<lparr>bg_B = b, bg_ExpiresAt = b_ExpiresAt b\<rparr>, w1))"

definition Bucket_GetFile :: "bcrypt \<Rightarrow> bucket_service \<Rightarrow> string \<Rightarrow> string \<Rightarrow> string \<Rightarrow> (bucket_file_ent \<times> bytes) io" where
  "Bucket_GetFile bc s bucketSlug storageKey passwordAttempt w =
     (case bucket_open bc s ''bucket service get file: lookup'' bucketSlug passwordAttempt w of
        (Inl e, w1) \<Rightarrow> (Inl e, w1)
      | (Inr b, w1) \<Rightarrow>
          (case List.find (\<lambda>bf. bf_StorageKey bf = storageKey) (b_Files b) of
             None \<Rightarrow> (Inl (Sentinel Bucket_ErrNotFound), w1)
           | Some target \<Rightarrow>
               wrap ''bucket service get file: read storage'' (be_Read (bsv_store s) storageKey) (\<lambda>rc.
                 pure_result (Inr (target, rc))) w1))"

text \<open>
  The response a ZIP is written to: the headers set, the entries written so far (name and data)
  and whether the archive was completed with its central directory. A write to the client takes
  a choice, as every call that can fail; a failed copy leaves a prefix of the entry.
\<close>

record zip_response =
  zr_header :: "(string \<times> string) list"
  zr_entries :: "(string \<times> bytes) list"
  zr_complete :: bool

definition zip_add :: "string \<Rightarrow> bytes \<Rightarrow> zip_response \<Rightarrow> zip_response" where
  "zip_add name data zr = zr\<lparr>zr_entries := zr_entries zr @ [(name, data)]\<rparr>"

fun zip_files :: "bucket_service \<Rightarrow> bucket_file_ent list \<Rightarrow> zip_response \<Rightarrow> world \<Rightarrow> (unit result \<times> zip_response) \<times> world" where
  "zip_files s [] zr w = ((Inr (), zr), w)"
| "zip_files s (bf # bfs) zr w =
     (case next_choice w of (c, w1) \<Rightarrow>
        if c \<noteq> 0 then ((Inl (Wrap ''bucket service stream zip: create entry'' (External ''write'')), zr), w1)
        else case be_Read (bsv_store s) (bf_StorageKey bf) w1 of
          (Inl e, w2) \<Rightarrow>
            ((Inl (Wrap ''bucket service stream zip: read file'' e), zip_add (bf_Filename bf) [] zr), w2)
        | (Inr d, w2) \<Rightarrow>
            (case next_choice w2 of (c', w3) \<Rightarrow>
               if c' \<noteq> 0
               then ((Inl (Wrap ''bucket service stream zip: stream file'' (External ''write'')),
                      zip_add (bf_Filename bf) (take (c' - 1) d) zr), w3)
               else zip_files s bfs (zip_add (bf_Filename bf) d zr) w3))"

text \<open>The deferred Close of the ZIP writer runs on every path out of the loop; its error is ignored.\<close>

definition zip_close :: "zip_response \<Rightarrow> world \<Rightarrow> zip_response \<times> world" where
  "zip_close zr w = (case next_choice w of (c, w1) \<Rightarrow> (zr\<lparr>zr_complete := (c = 0)\<rparr>, w1))"

definition Bucket_mark :: "bucket_service \<Rightarrow> bool \<Rightarrow> string \<Rightarrow> unit io" where
  "Bucket_mark s oneUse bucketSlug w =
     (if oneUse
      then wrap ''bucket service stream zip: mark downloaded'' (rp_Mark (bsv_repo s) bucketSlug) (\<lambda>consumed.
             if \<not> consumed then pure_result (Inl (Sentinel Bucket_ErrAlreadyConsumed))
             else pure_result (Inr ())) w
      else (Inr (), w))"

definition Bucket_StreamZIP :: "bcrypt \<Rightarrow> bucket_service \<Rightarrow> string \<Rightarrow> string \<Rightarrow> zip_response \<Rightarrow> world \<Rightarrow>
    (unit result \<times> zip_response) \<times> world" where
  "Bucket_StreamZIP bc s bucketSlug passwordAttempt zr w =
     (case bucket_open bc s ''bucket service stream zip: lookup'' bucketSlug passwordAttempt w of
        (Inl e, w1) \<Rightarrow> ((Inl e, zr), w1)
      | (Inr b, w1) \<Rightarrow>
          (case Bucket_mark s (b_OneUse b) bucketSlug w1 of
             (Inl e, w2) \<Rightarrow> ((Inl e, zr), w2)
           | (Inr u, w2) \<Rightarrow>
               let zr1 = zr\<lparr>zr_header := zr_header zr @
                 [(''Content-Type'', ''application/zip''),
                  (''Content-Disposition'', ''attachment; filename=\"'' @ bucketSlug @ ''.zip\"'')]\<rparr> in
               (case zip_files s (b_Files b) zr1 w2 of
                  ((r, zr2), w3) \<Rightarrow> (case zip_close zr2 w3 of (zr3, w4) \<Rightarrow> ((r, zr3), w4)))))"

subsection \<open>Delete\<close>

fun delete_bytes :: "bucket_service \<Rightarrow> bucket_file_ent list \<Rightarrow> world \<Rightarrow> world" where
  "delete_bytes s [] w = w"
| "delete_bytes s (bf # bfs) w = delete_bytes s bfs (snd (be_Delete (bsv_store s) (bf_StorageKey bf) w))"

definition Bucket_Delete :: "bucket_service \<Rightarrow> string \<Rightarrow> string \<Rightarrow> unit io" where
  "Bucket_Delete s bucketSlug deleteSecret =
     lookup Bucket_ErrNotFound ''bucket service delete: lookup'' (rp_GetBySlug (bsv_repo s) bucketSlug) (\<lambda>b w.
       if ConstantTimeCompare (b_DeleteSecret b) deleteSecret \<noteq> 1
       then (Inl (Sentinel Bucket_ErrBadDeleteSecret), w)
       else wrap ''bucket service delete: remove record'' (rp_Delete (bsv_repo s) bucketSlug)
              (\<lambda>u. pure_result (Inr ())) (delete_bytes s (b_Files b) w))"

section \<open>The service on its contracts\<close>

text \<open>The bytes under the keys of stored files: a later write to the same key wins.\<close>

definition stored_bytes :: "storedFile list \<Rightarrow> bucket_FileInput list \<Rightarrow> string \<Rightarrow> bytes option" where
  "stored_bytes sfs fis = map_of (rev (zip (map sf_storageKey sfs) (map (rd_data \<circ> fi_Content) fis)))"

lemma stored_bytes_dom: "dom (stored_bytes sfs fis) \<subseteq> sf_storageKey ` set sfs"
proof
  fix k assume "k \<in> dom (stored_bytes sfs fis)"
  then obtain d where "(k, d) \<in> set (zip (map sf_storageKey sfs) (map (rd_data \<circ> fi_Content) fis))"
    by (auto simp: stored_bytes_def dest: map_of_SomeD)
  from set_zip_leftD [OF this] have "k \<in> set (map sf_storageKey sfs)" .
  then show "k \<in> sf_storageKey ` set sfs" by simp
qed

text \<open>What the loop makes of each input file.\<close>

definition stores :: "string \<Rightarrow> storedFile \<Rightarrow> bucket_FileInput \<Rightarrow> bool" where
  "stores bucketSlug sf fi \<longleftrightarrow> sf = stored_entry bucketSlug fi (sf_storageKey sf) \<and>
     length (sf_storageKey sf) = 12 \<and> set (sf_storageKey sf) \<subseteq> set charset \<and> \<not> rd_fails (fi_Content fi)"

lemma stored_entry_sel [simp]:
  "sf_storageKey (stored_entry b fi k) = k" "bf_BucketSlug (sf_bf (stored_entry b fi k)) = b"
  "bf_StorageKey (sf_bf (stored_entry b fi k)) = k" "bf_Filename (sf_bf (stored_entry b fi k)) = fi_Filename fi"
  "bf_Size (sf_bf (stored_entry b fi k)) = fi_Size fi"
  by (simp_all add: stored_entry_def Let_def)

text \<open>A bucket after rows for some of its files were added, with the ids they got.\<close>

definition with_files :: "bucket_ent \<Rightarrow> int list \<Rightarrow> storedFile list \<Rightarrow> bucket_ent" where
  "with_files b ids sfs = b\<lparr>b_Files := b_Files b @ map2 (\<lambda>i sf. (sf_bf sf)\<lparr>bf_ID := i\<rparr>) ids sfs\<rparr>"

lemma with_files_simps [simp]:
  "with_files b [] [] = b"
  "with_files (add_file i (sf_bf sf) b) ids sfs = with_files b (i # ids) (sf # sfs)"
  by (simp_all add: with_files_def add_file_def)

lemma with_files_sel [simp]:
  "b_Slug (with_files b ids sfs) = b_Slug b" "b_ExpiresAt (with_files b ids sfs) = b_ExpiresAt b"
  "b_PasswordHash (with_files b ids sfs) = b_PasswordHash b" "b_OneUse (with_files b ids sfs) = b_OneUse b"
  "b_DeleteSecret (with_files b ids sfs) = b_DeleteSecret b"
  "b_Files (with_files b ids sfs) = b_Files b @ map2 (\<lambda>i sf. (sf_bf sf)\<lparr>bf_ID := i\<rparr>) ids sfs"
  by (simp_all add: with_files_def)

text \<open>The bucket a creation stores, without its files, as it comes back from the repository.\<close>

definition created_bucket :: "bucket_CreateRequest \<Rightarrow> string \<Rightarrow> string \<Rightarrow> string \<Rightarrow> instant option \<Rightarrow> bucket_ent" where
  "created_bucket req slug secret h t =
     \<lparr>b_Slug = slug, b_PasswordHash = h, b_OneUse = bq_OneUse req, b_Expiry = [], b_DeleteSecret = secret,
      b_ExpiresAt = map_option to_second t, b_Files = []\<rparr>"

text \<open>What bucket_open decides on an existing bucket.\<close>

definition bucket_access :: "bcrypt \<Rightarrow> instant \<Rightarrow> string \<Rightarrow> bucket_ent \<Rightarrow> unit result" where
  "bucket_access bc now password b =
     (if is_expired now (b_ExpiresAt b) then Inl (Sentinel Bucket_ErrExpired)
      else if \<not> check_password bc (b_PasswordHash b) password then Inl (Sentinel Bucket_ErrWrongPassword)
      else Inr ())"

lemma bucket_access_Inr:
  "bucket_access bc now pw b = Inr x \<longleftrightarrow> \<not> is_expired now (b_ExpiresAt b) \<and> check_password bc (b_PasswordHash b) pw"
  by (simp add: bucket_access_def)

lemma bucket_access_Inl:
  "bucket_access bc now pw b = Inl er \<longleftrightarrow> is_expired now (b_ExpiresAt b) \<and> er = Sentinel Bucket_ErrExpired \<or>
     \<not> is_expired now (b_ExpiresAt b) \<and> \<not> check_password bc (b_PasswordHash b) pw \<and>
       er = Sentinel Bucket_ErrWrongPassword"
  by (auto simp: bucket_access_def)

locale bucket_service_laws =
  store: file_store B content key_ok fok clean +
  repo: bucket_repository R view used dok other Bucket_ErrNotFound
  for B :: backend and content key_ok fok clean
    and R :: bucket_repo and view used dok and other :: "db \<Rightarrow> 'o" +
  assumes slug_key: "s \<noteq> [] \<Longrightarrow> list_all alnum s \<Longrightarrow> key_ok s"
begin

abbreviation svc :: "string \<Rightarrow> bucket_service" where
  "svc url \<equiv> \<lparr>bsv_repo = R, bsv_store = B, bsv_baseURL = url\<rparr>"

lemma AddFile_keeps: "keeps (svc_frame other dok fok) (rp_AddFile R bf)"
  by (rule keepsI, rule svc_frame_db, erule repo.AddFile_frame, erule (1) repo.AddFile_inv)

lemmas frames = frame store.store_frames store.delete_undo repo.repo_frames AddFile_keeps

lemma delete_stored_frame [frame]: "svc_frame other dok fok w (delete_stored (svc url) sfs w)"
  by (induction sfs arbitrary: w) (auto intro: svc_frame.refl svc_frame.trans [OF store.delete_undo])

lemma delete_bytes_frame [frame]: "svc_frame other dok fok w (delete_bytes (svc url) bfs w)"
  by (induction bfs arbitrary: w) (auto intro: svc_frame.refl svc_frame.trans [OF store.delete_undo])

text \<open>One best-effort deletion removes the key or, failing, leaves it; calm, it removes it.\<close>

lemma delete_step:
  obtains K where "K \<subseteq> {k}" "content (w_fs (snd (be_Delete B k w))) = content (w_fs w) |` (- K)"
    "w_db (snd (be_Delete B k w)) = w_db w" "all_calm w \<Longrightarrow> key_ok k \<Longrightarrow> K = {k}"
proof (cases "be_Delete B k w")
  case (Pair x w1)
  note db = same_but_fsD(3) [OF store.Delete_frame [OF Pair]]
  show thesis
  proof (cases x)
    case (Inl e)
    with Pair db store.Delete_Inl [of k w e w1] store.Delete_calm [of w k] that [of "{}"] show thesis
      by (auto simp: restrict_map_def)
  next
    case (Inr u)
    with Pair db store.Delete_Inr [of k w u w1] that [of "{k}"] show thesis
      by (auto simp: restrict_map_def fun_eq_iff)
  qed
qed

lemma delete_stored_content:
  "\<exists>K \<subseteq> sf_storageKey ` set sfs. content (w_fs (delete_stored (svc url) sfs w)) = content (w_fs w) |` (- K) \<and>
     w_db (delete_stored (svc url) sfs w) = w_db w \<and>
     (all_calm w \<and> (\<forall>sf \<in> set sfs. key_ok (sf_storageKey sf)) \<longrightarrow> K = sf_storageKey ` set sfs)"
proof (induction sfs arbitrary: w)
  case (Cons sf sfs)
  let ?w1 = "snd (be_Delete B (sf_storageKey sf) w)"
  obtain K where K: "K \<subseteq> {sf_storageKey sf}" "content (w_fs ?w1) = content (w_fs w) |` (- K)" "w_db ?w1 = w_db w"
    "all_calm w \<Longrightarrow> key_ok (sf_storageKey sf) \<Longrightarrow> K = {sf_storageKey sf}"
    using delete_step [of "sf_storageKey sf" w] by blast
  have calm: "all_calm w \<Longrightarrow> all_calm ?w1"
    using store.delete_undo [where w = w] by (auto simp: svc_frame_def)
  from Cons.IH [of ?w1] obtain L where L: "L \<subseteq> sf_storageKey ` set sfs"
    "content (w_fs (delete_stored (svc url) sfs ?w1)) = content (w_fs ?w1) |` (- L)"
    "w_db (delete_stored (svc url) sfs ?w1) = w_db ?w1"
    "all_calm ?w1 \<and> (\<forall>sf \<in> set sfs. key_ok (sf_storageKey sf)) \<longrightarrow> L = sf_storageKey ` set sfs" by blast
  from K L calm show ?case
    by (intro exI [of _ "K \<union> L"]) (auto simp: restrict_restrict)
qed (simp add: restrict_map_def)

lemma stored_bytes_Cons:
  "m ++ stored_bytes (sf # sfs) (fi # fis) =
     m(sf_storageKey sf \<mapsto> rd_data (fi_Content fi)) ++ stored_bytes sfs fis"
  by (simp add: stored_bytes_def)

lemma stored_bytes_Nil [simp]: "stored_bytes [] fis = Map.empty"
  by (simp add: stored_bytes_def)

lemma stores_entry:
  assumes "slug_io slugLength w = (Inr k, w1)" and "\<not> rd_fails (fi_Content fi)"
  shows "stores b (stored_entry b fi k) fi" "key_ok k"
  using slug_io_ok [OF assms(1)] slug_key assms(2) by (simp_all add: stores_def slugLength_def)

text \<open>The loop writes the files in order; on an error it rolls back what it wrote.\<close>

lemma store_files_frame [frame]: "keeps (svc_frame other dok fok) (store_files (svc url) b stored fis)"
  by (induction fis arbitrary: stored) (auto intro!: frames delete_stored_frame)

lemma add_files_frame [frame]: "keeps (svc_frame other dok fok) (add_files (svc url) infos sfs)"
  by (induction sfs arbitrary: infos) (auto intro!: frames)

lemma store_files_Inr:
  "store_files (svc url) b stored fis w = (Inr out, w') \<Longrightarrow> w_db w' = w_db w \<and>
    (\<exists>new. out = stored @ new \<and> list_all2 (stores b) new fis \<and> (\<forall>sf \<in> set new. key_ok (sf_storageKey sf)) \<and>
       content (w_fs w') = content (w_fs w) ++ stored_bytes new fis)"
proof (induction fis arbitrary: stored w)
  case (Cons fi fis)
  from Cons.prems obtain k w1 w2 where k: "slug_io slugLength w = (Inr k, w1)"
    and wr: "be_Write B k (fi_Content fi) w1 = (Inr (), w2)"
    and st: "store_files (svc url) b (stored @ [stored_entry b fi k]) fis w2 = (Inr out, w')"
    by (auto simp: wrap_undo_eq)
  from Cons.IH [OF st] obtain new where new: "w_db w' = w_db w2" "out = stored @ stored_entry b fi k # new"
    "list_all2 (stores b) new fis" "\<forall>sf \<in> set new. key_ok (sf_storageKey sf)"
    "content (w_fs w') = content (w_fs w2) ++ stored_bytes new fis" by auto
  note c = store.Write_Inr [OF wr] and fs = same_but_fsD(3) [OF store.Write_frame [OF wr]]
  have "content (w_fs w') = content (w_fs w) ++ stored_bytes (stored_entry b fi k # new) (fi # fis)"
    using c new(5) slug_io_frame(3) [OF k] by (simp add: stored_bytes_Cons)
  moreover have "stores b (stored_entry b fi k) fi" "key_ok k"
    using stores_entry [OF k] c by auto
  ultimately show ?case
    using new fs slug_io_frame(4) [OF k] by (intro conjI exI [of _ "stored_entry b fi k # new"]) auto
qed simp

lemma store_files_Inl:
  "store_files (svc url) b stored fis w = (Inl er, w') \<Longrightarrow> w_db w' = w_db w \<and> low_error er \<and>
    (\<exists>new K. list_all2 (stores b) new (take (length new) fis) \<and> K \<subseteq> sf_storageKey ` set (stored @ new) \<and>
       content (w_fs w') = (content (w_fs w) ++ stored_bytes new fis) |` (- K) \<and>
       (all_calm w \<and> (\<forall>sf \<in> set stored. key_ok (sf_storageKey sf)) \<longrightarrow> K = sf_storageKey ` set (stored @ new)))"
proof (induction fis arbitrary: stored w)
  case (Cons fi fis)
  have undo: ?case if w': "w' = delete_stored (svc url) stored v" and v: "content (w_fs v) = content (w_fs w)"
    "w_db v = w_db w" "all_calm w \<Longrightarrow> all_calm v" and "low_error er" for v
  proof -
    from delete_stored_content [of stored url v] obtain K where "K \<subseteq> sf_storageKey ` set stored"
      "content (w_fs w') = content (w_fs v) |` (- K)" "w_db w' = w_db v"
      "all_calm v \<and> (\<forall>sf \<in> set stored. key_ok (sf_storageKey sf)) \<longrightarrow> K = sf_storageKey ` set stored"
      by (auto simp: w')
    with v \<open>low_error er\<close> show ?thesis by (intro conjI exI [of _ "[]"] exI [of _ K]) auto
  qed
  obtain x w1 where k: "slug_io slugLength w = (x, w1)" by force
  note fr = slug_io_frame [OF k]
  show ?case
  proof (cases x)
    case (Inl e)
    with Cons.prems k fr slug_io_low_error show ?thesis by (intro undo [of w1]) auto
  next
    case (Inr k')
    obtain y w2 where wr: "be_Write B k' (fi_Content fi) w1 = (y, w2)" by force
    note fs = same_but_fsD [OF store.Write_frame [OF wr]]
    show ?thesis
    proof (cases y)
      case (Inl e)
      with Cons.prems k wr Inr fr fs store.Write_Inl [of k' _ w1 e w2] store.Write_low [of k' _ w1 e w2]
      show ?thesis by (intro undo [of w2]) auto
    next
      case Inr': (Inr u)
      let ?sf = "stored_entry b fi k'"
      from Cons.prems k wr Inr Inr' have "store_files (svc url) b (stored @ [?sf]) fis w2 = (Inl er, w')" by simp
      from Cons.IH [OF this] obtain new K where IH: "w_db w' = w_db w2" "low_error er"
        "list_all2 (stores b) new (take (length new) fis)" "K \<subseteq> sf_storageKey ` set ((stored @ [?sf]) @ new)"
        "content (w_fs w') = (content (w_fs w2) ++ stored_bytes new fis) |` (- K)"
        "all_calm w2 \<and> (\<forall>sf \<in> set (stored @ [?sf]). key_ok (sf_storageKey sf)) \<longrightarrow>
           K = sf_storageKey ` set ((stored @ [?sf]) @ new)" by blast
      note c = store.Write_Inr [OF wr [unfolded Inr']]
      have "content (w_fs w') = (content (w_fs w) ++ stored_bytes (?sf # new) (fi # fis)) |` (- K)"
        using c IH(5) fr by (simp add: stored_bytes_Cons)
      moreover have "stores b ?sf fi" "key_ok k'"
        using stores_entry [OF k [unfolded Inr]] c by auto
      ultimately show ?thesis
        using IH fr fs by (intro conjI exI [of _ "?sf # new"] exI [of _ K]) auto
    qed
  qed
qed simp

text \<open>The rows of the files, in order, up to the first failure.\<close>

lemma add_files_spec:
  assumes "add_files (svc url) infos sfs w = (x, w')" and "dok (w_db w)" and "view (w_db w) slug = Some b"
    and "\<forall>sf \<in> set sfs. bf_BucketSlug (sf_bf sf) = slug"
  shows "w_fs w' = w_fs w \<and> used (w_db w') = used (w_db w) \<and>
    (\<exists>n ids. n \<le> length sfs \<and> length ids = n \<and>
       view (w_db w') = (view (w_db w))(slug \<mapsto> with_files b ids (take n sfs)) \<and>
       (case x of Inl er \<Rightarrow> low_error er \<and> n < length sfs \<and> \<not> all_calm w
        | Inr out \<Rightarrow> n = length sfs \<and> out = infos @ map file_info sfs))"
  using assms
proof (induction sfs arbitrary: infos w b)
  case Nil
  then show ?case by (auto simp: fun_upd_idem)
next
  case (Cons sf sfs)
  obtain y w1 where a: "rp_AddFile R (sf_bf sf) w = (y, w1)" by force
  note fs = same_but_dbD(3) [OF conjunct1 [OF repo.AddFile_frame [OF a]]]
  show ?case
  proof (cases y)
    case (Inl e)
    with Cons.prems a have "x = Inl (Wrap ''bucket service create: persist file'' e)" "w' = w1" by simp_all
    moreover have "\<not> all_calm w"
      using repo.AddFile_calm [of w "sf_bf sf"] Cons.prems(3,4) a Inl by auto
    ultimately show ?thesis
      using repo.AddFile_Inl [OF a [unfolded Inl]] fs Cons.prems(3)
      by (intro conjI exI [of _ 0] exI [of _ "[]"]) (simp_all add: fun_upd_idem)
  next
    case (Inr u)
    from Cons.prems(1) a Inr have rest: "add_files (svc url) (infos @ [file_info sf]) sfs w1 = (x, w')" by simp
    have slug: "bf_BucketSlug (sf_bf sf) = slug" "\<forall>sf \<in> set sfs. bf_BucketSlug (sf_bf sf) = slug"
      using Cons.prems(4) by simp_all
    from repo.AddFile_Inr [OF a [unfolded Inr] Cons.prems(2)] Cons.prems(3) slug(1) obtain i where
      v: "view (w_db w1) = (view (w_db w))(slug \<mapsto> add_file i (sf_bf sf) b)" and u: "used (w_db w1) = used (w_db w)"
      by auto
    then have "view (w_db w1) slug = Some (add_file i (sf_bf sf) b)" by simp
    from Cons.IH [OF rest repo.AddFile_inv [OF a Cons.prems(2)] this slug(2)]
    obtain n ids where IH: "w_fs w' = w_fs w1" "used (w_db w') = used (w_db w1)" "n \<le> length sfs" "length ids = n"
      "view (w_db w') = (view (w_db w1))(slug \<mapsto> with_files (add_file i (sf_bf sf) b) ids (take n sfs))"
      "case x of Inl er \<Rightarrow> low_error er \<and> n < length sfs \<and> \<not> all_calm w1
        | Inr out \<Rightarrow> n = length sfs \<and> out = (infos @ [file_info sf]) @ map file_info sfs" by blast
    have "all_calm w \<Longrightarrow> all_calm w1" using same_but_dbD(4) [OF conjunct1 [OF repo.AddFile_frame [OF a]]] .
    with IH v u fs show ?thesis
      by (intro conjI exI [of _ "Suc n"] exI [of _ "i # ids"]) (auto split: sum.splits)
  qed
qed

text \<open>
  Persisting a bucket. Failing before the bucket row exists, it leaves the database as it was
  and runs the rollback over all bytes it wrote. Failing after that, it leaves the row with
  the first files and all bytes.
\<close>

lemma persist_cases:
  assumes "Bucket_persist (svc url) b t fis w = (x, w')" and ok: "dok (w_db w)"
  obtains (rolled_back) er new K where "x = Inl er" "low_error er" "w_db w' = w_db w"
      "list_all2 (stores (b_Slug b)) new (take (length new) fis)" "K \<subseteq> sf_storageKey ` set new"
      "content (w_fs w') = (content (w_fs w) ++ stored_bytes new fis) |` (- K)"
      "all_calm w \<Longrightarrow> K = sf_storageKey ` set new"
  | (partial) er stored ids n where "x = Inl er" "low_error er" "n < length stored" "length ids = n"
      "list_all2 (stores (b_Slug b)) stored fis" "\<not> all_calm w"
      "content (w_fs w') = content (w_fs w) ++ stored_bytes stored fis"
      "view (w_db w) (b_Slug b) = None"
      "view (w_db w') = (view (w_db w))(b_Slug b \<mapsto> with_files (bucket_stored b t) ids (take n stored))"
      "used (w_db w') = (used (w_db w))(b_Slug b := False)"
  | (created) stored ids where "x = Inr (stored, map file_info stored)" "length ids = length stored"
      "list_all2 (stores (b_Slug b)) stored fis"
      "content (w_fs w') = content (w_fs w) ++ stored_bytes stored fis"
      "view (w_db w) (b_Slug b) = None"
      "view (w_db w') = (view (w_db w))(b_Slug b \<mapsto> with_files (bucket_stored b t) ids stored)"
      "used (w_db w') = (used (w_db w))(b_Slug b := False)"
proof -
  obtain y w1 where st: "store_files (svc url) (b_Slug b) [] fis w = (y, w1)" by force
  show thesis
  proof (cases y)
    case (Inl e)
    with assms(1) st have "x = Inl e" "w' = w1" by (simp_all add: Bucket_persist_def)
    with store_files_Inl [OF st [unfolded Inl]] show thesis by (auto intro: rolled_back)
  next
    case (Inr stored)
    from store_files_Inr [OF st [unfolded Inr]] have s: "list_all2 (stores (b_Slug b)) stored fis"
      "content (w_fs w1) = content (w_fs w) ++ stored_bytes stored fis" "w_db w1 = w_db w"
      "\<forall>sf \<in> set stored. key_ok (sf_storageKey sf)" by auto
    have bs: "\<forall>sf \<in> set stored. bf_BucketSlug (sf_bf sf) = b_Slug b"
      using s(1) by (auto simp: list_all2_conv_all_nth stores_def in_set_conv_nth) (metis stored_entry_sel(2))
    have calm1: "all_calm w \<Longrightarrow> all_calm w1"
      using keepsD [OF store_files_frame st] by (simp add: svc_frame_def)
    obtain z w2 where cr: "rp_Create R b t w1 = (z, w2)" by force
    note fr = same_but_dbD [OF conjunct1 [OF repo.Create_frame [OF cr]]]
    show thesis
    proof (cases z)
      case Inl': (Inl e)
      with assms(1) st Inr cr have x: "x = Inl (Wrap ''bucket service create: persist bucket'' e)"
        and w': "w' = delete_stored (svc url) stored w2" by (simp_all add: Bucket_persist_def)
      from delete_stored_content [of stored url w2] obtain K where K: "K \<subseteq> sf_storageKey ` set stored"
        "content (w_fs w') = content (w_fs w2) |` (- K)" "w_db w' = w_db w2"
        "all_calm w2 \<Longrightarrow> K = sf_storageKey ` set stored" using s(4) by (auto simp: w')
      with repo.Create_Inl [OF cr [unfolded Inl']] x s fr calm1 show thesis
        by (intro rolled_back [of _ stored K]) (auto simp: list_all2_lengthD)
    next
      case Inr': (Inr u)
      note c = repo.Create_Inr [OF cr [unfolded Inr'], unfolded s(3), OF ok]
      obtain v w3 where ad: "add_files (svc url) [] stored w2 = (v, w3)" by force
      with assms(1) st Inr cr Inr' have x: "w' = w3" "x = (case v of Inl e \<Rightarrow> Inl e | Inr infos \<Rightarrow> Inr (stored, infos))"
        by (auto simp: Bucket_persist_def split: sum.splits)
      have "view (w_db w2) (b_Slug b) = Some (bucket_stored b t)" using c by simp
      from add_files_spec [OF ad repo.Create_inv [OF cr] this bs] ok s(3) x(1) obtain n ids where
        f: "w_fs w' = w_fs w2" "used (w_db w') = used (w_db w2)" "n \<le> length stored" "length ids = n"
        "view (w_db w') = (view (w_db w2))(b_Slug b \<mapsto> with_files (bucket_stored b t) ids (take n stored))"
        "case v of Inl er \<Rightarrow> low_error er \<and> n < length stored \<and> \<not> all_calm w2
          | Inr out \<Rightarrow> n = length stored \<and> out = [] @ map file_info stored" by auto
      show thesis
      proof (cases v)
        case (Inl e)
        with f x s c fr calm1 show thesis by (intro partial [of e n stored ids]) auto
      next
        case (Inr infos)
        with f x s c fr show thesis by (intro created [of stored ids]) auto
      qed
    qed
  qed
qed

lemma persist_frame [frame]: "keeps (svc_frame other dok fok) (Bucket_persist (svc url) b t fis)"
proof (rule keepsI)
  fix w x w' assume p: "Bucket_persist (svc url) b t fis w = (x, w')"
  obtain y w1 where y: "store_files (svc url) (b_Slug b) [] fis w = (y, w1)" by force
  have insert: "keeps (svc_frame other dok fok) (wrap_undo c (rp_Create R b t) (delete_stored (svc url) sfs)
      (\<lambda>u w2. case add_files (svc url) [] sfs w2 of (Inl e, w3) \<Rightarrow> (Inl e, w3)
        | (Inr is, w3) \<Rightarrow> (Inr (sfs, is), w3)))" for c sfs
    using add_files_frame by (intro frames delete_stored_frame) (fastforce simp: keeps_def split: sum.splits prod.splits)
  note store = keepsD [OF store_files_frame y]
  show "svc_frame other dok fok w w'"
  proof (cases y)
    case (Inl e)
    with p y store show ?thesis by (simp add: Bucket_persist_def)
  next
    case (Inr sfs)
    with p y have "wrap_undo ''bucket service create: persist bucket'' (rp_Create R b t) (delete_stored (svc url) sfs)
        (\<lambda>u w2. case add_files (svc url) [] sfs w2 of (Inl e, w3) \<Rightarrow> (Inl e, w3)
          | (Inr is, w3) \<Rightarrow> (Inr (sfs, is), w3)) w1 = (x, w')" by (simp add: Bucket_persist_def)
    from svc_frame.trans [OF store keepsD [OF insert this]] show ?thesis .
  qed
qed

lemma Create_frame: "keeps (svc_frame other dok fok) (Bucket_Create bc (svc url) req)"
proof -
  have "keeps (svc_frame other dok fok) (\<lambda>w. case bucket_ExpiryDuration (bq_Expiry req) of
       Inl p \<Rightarrow> (Inl p, w)
     | Inr d \<Rightarrow>
         let expiresAt = expiry_instant d (w_now w) in
         case Bucket_persist (svc url) b expiresAt (bq_Files req) w of
           (Inl e, w1) \<Rightarrow> (Inl e, w1)
         | (Inr (stored, fileInfos), w1) \<Rightarrow>
             (Inr (Bucket_result (svc url) slug secret expiresAt stored fileInfos), w1))" for b slug secret
    using persist_frame svc_frame.refl
    by (fastforce simp: keeps_def Let_def split: sum.splits prod.splits)
  then show ?thesis unfolding Bucket_Create_def by (intro frames)
qed

lemma Create_cases:
  assumes "Bucket_Create bc (svc url) req w = (x, w')" and ok: "dok (w_db w)" and bc: "bcrypt_ok bc"
  obtains (failed) er new K where "x = Inl er" "w_db w' = w_db w"
      "low_error er \<or> map_of bucket_validExpiries (bq_Expiry req) = None \<and>
        er = Wrap ''bucket service create: construct entity'' (Sentinel Bucket_ErrInvalidExpiry)"
      "K \<subseteq> sf_storageKey ` set new" "all_calm w \<Longrightarrow> K = sf_storageKey ` set new"
      "content (w_fs w') = (content (w_fs w) ++ stored_bytes new (bq_Files req)) |` (- K)"
  | (partial) er slug secret h d stored ids n where "x = Inl er" "low_error er" "\<not> all_calm w"
      "fst (slug_io slugLength w) = Inr slug" "length slug = 12" "n < length stored" "length ids = n" "list_all2 (stores slug) stored (bq_Files req)"
      "content (w_fs w') = content (w_fs w) ++ stored_bytes stored (bq_Files req)" "view (w_db w) slug = None"
      "view (w_db w') = (view (w_db w))(slug \<mapsto>
         with_files (created_bucket req slug secret h (expiry_instant d (w_now w))) ids (take n stored))"
      "used (w_db w') = (used (w_db w))(slug := False)"
      "set slug \<subseteq> set charset" "length secret = 24" "check_password bc h (bq_Password req)" "h = [] \<longleftrightarrow> bq_Password req = []"
      "map_of bucket_validExpiries (bq_Expiry req) = Some d"
  | (created) slug secret h d stored ids where "fst (slug_io slugLength w) = Inr slug" "length slug = 12" "set slug \<subseteq> set charset" "length secret = 24"
      "check_password bc h (bq_Password req)" "h = [] \<longleftrightarrow> bq_Password req = []"
      "map_of bucket_validExpiries (bq_Expiry req) = Some d"
      "x = Inr (Bucket_result (svc url) slug secret (expiry_instant d (w_now w)) stored (map file_info stored))"
      "length ids = length stored" "list_all2 (stores slug) stored (bq_Files req)"
      "content (w_fs w') = content (w_fs w) ++ stored_bytes stored (bq_Files req)" "view (w_db w) slug = None"
      "view (w_db w') = (view (w_db w))(slug \<mapsto>
         with_files (created_bucket req slug secret h (expiry_instant d (w_now w))) ids stored)"
      "used (w_db w') = (used (w_db w))(slug := False)"
proof -
  obtain xs w1 where 1: "slug_io slugLength w = (xs, w1)" by force
  obtain y w2 where 2: "slug_io deleteSecretLength w1 = (y, w2)" by force
  obtain z w3 where 3: "hash_password bc (bq_Password req) w2 = (z, w3)" by force
  note fr = slug_io_frame [OF 1] slug_io_frame [OF 2] hash_password_frame [OF 3]
  have early: thesis if "x = Inl er" "w' = w1 \<or> w' = w2 \<or> w' = w3"
    "low_error er \<or> map_of bucket_validExpiries (bq_Expiry req) = None \<and>
      er = Wrap ''bucket service create: construct entity'' (Sentinel Bucket_ErrInvalidExpiry)" for er
    using that fr by (intro failed [of er "{}" "[]"]) (auto simp: restrict_map_def)
  consider (no) e where "xs = Inl e \<or> y = Inl e \<or> z = Inl e"
    | (yes) slug secret h where "xs = Inr slug" "y = Inr secret" "z = Inr h"
    by (cases xs; cases y; cases z) auto
  then show thesis
  proof cases
    case no
    have low: "xs = Inl e \<Longrightarrow> low_error e" "y = Inl e \<Longrightarrow> low_error e" "z = Inl e \<Longrightarrow> low_error e" for e
      using 1 2 3 slug_io_low_error hash_password_low [OF bc] by blast+
    have "\<exists>er. x = Inl er \<and> low_error er \<and> (w' = w1 \<or> w' = w2 \<or> w' = w3)"
      using no assms(1) 1 2 3 low by (cases xs; cases y; cases z) (auto simp: Bucket_Create_def)
    then show thesis using early by blast
  next
    case yes
    note s = slug_io_ok [OF 1 [unfolded yes]] and s2 = slug_io_ok [OF 2 [unfolded yes]]
      and h = hash_password_check [OF bc 3 [unfolded yes]]
    show thesis
    proof (cases "map_of bucket_validExpiries (bq_Expiry req)")
      case None
      with assms(1) 1 2 3 yes s(3) show thesis
        by (intro early [of "Wrap ''bucket service create: construct entity'' (Sentinel Bucket_ErrInvalidExpiry)"])
          (simp_all add: Bucket_Create_def bucket_New_def)
    next
      case (Some d)
      let ?t = "expiry_instant d (w_now w)"
      define b where "b = (created_bucket req slug secret h None)\<lparr>b_Expiry := bq_Expiry req\<rparr>"
      have b: "b_Slug b = slug" "bucket_stored b ?t = created_bucket req slug secret h ?t"
        by (simp_all add: b_def created_bucket_def bucket_stored_def)
      obtain v w4 where p: "Bucket_persist (svc url) b ?t (bq_Files req) w3 = (v, w4)" by force
      have new: "bucket_New slug secret h (bq_Expiry req) (bq_OneUse req) = Inr b"
        using s(3) Some by (simp add: bucket_New_def b_def created_bucket_def)
      with assms(1) 1 2 3 yes Some fr p have x: "w' = w4"
        "x = (case v of Inl e \<Rightarrow> Inl e | Inr (stored, infos) \<Rightarrow> Inr (Bucket_result (svc url) slug secret ?t stored infos))"
        by (auto simp: Bucket_Create_def bucket_ExpiryDuration_def Let_def split: sum.splits)
      have "dok (w_db w3)" using ok fr by simp
      with p show thesis
      proof (cases rule: persist_cases)
        case (rolled_back er new K)
        with x fr show thesis by (intro failed [of er K new]) simp_all
      next
        case (partial er stored ids n)
        with x fr b s s2 h Some show thesis
          by (intro that(2) [of er slug n stored ids secret h d]) (simp_all add: 1 [unfolded slugLength_def] yes(1) slugLength_def deleteSecretLength_def)
      next
        case (created stored ids)
        with x fr b s s2 h Some show thesis
          by (intro that(3) [of slug secret h d stored ids]) (simp_all add: 1 [unfolded slugLength_def] yes(1) slugLength_def deleteSecretLength_def)
      qed
    qed
  qed
qed

subsection \<open>Reading\<close>

lemma open_spec:
  assumes "bucket_open bc (svc url) c slug pw w = (x, w')"
  shows "same_but_env w w'"
    and "x = Inr b \<Longrightarrow> view (w_db w) slug = Some b \<and> bucket_access bc (w_now w) pw b = Inr ()"
    and "x = Inl er \<Longrightarrow> (er = Sentinel Bucket_ErrNotFound \<and> view (w_db w) slug = None) \<or>
      (\<exists>b. view (w_db w) slug = Some b \<and> bucket_access bc (w_now w) pw b = Inl er) \<or> low_error er"
  using assms unfolding bucket_open_def bucket_service.simps
  by (cases rule: repo.lookup_cases;
      auto simp: bucket_access_def split: if_splits dest: same_but_envD(1))+

lemma open_calm:
  assumes "all_calm w"
  shows "fst (bucket_open bc (svc url) c slug pw w) =
    (case view (w_db w) slug of
       None \<Rightarrow> Inl (Sentinel Bucket_ErrNotFound)
     | Some b \<Rightarrow> (case bucket_access bc (w_now w) pw b of Inl e \<Rightarrow> Inl e | Inr u \<Rightarrow> Inr b))"
proof (cases "view (w_db w) slug")
  case None
  with repo.lookup_calm_None [OF assms] show ?thesis by (simp add: bucket_open_def)
next
  case (Some b)
  from repo.lookup_calm_Some [OF assms Some] obtain w1 where w1: "same_but_env w w1"
    and g: "\<And>c k. lookup Bucket_ErrNotFound c (rp_GetBySlug R slug) k w = (k b :: bucket_ent io) w1" by blast
  with Some same_but_envD(1) [OF w1] show ?thesis by (simp add: bucket_open_def g bucket_access_def)
qed

lemma GetMeta_spec:
  assumes "Bucket_GetMeta bc (svc url) slug pw w = (x, w')"
  shows "same_but_env w w'"
    and "x = Inr g \<Longrightarrow> view (w_db w) slug = Some (bg_B g) \<and> bucket_access bc (w_now w) pw (bg_B g) = Inr () \<and>
      bg_ExpiresAt g = b_ExpiresAt (bg_B g)"
    and "x = Inl er \<Longrightarrow> (er = Sentinel Bucket_ErrNotFound \<and> view (w_db w) slug = None) \<or>
      (\<exists>b. view (w_db w) slug = Some b \<and> bucket_access bc (w_now w) pw b = Inl er) \<or> low_error er"
proof -
  obtain y w1 where o: "bucket_open bc (svc url) ''bucket service get meta: lookup'' slug pw w = (y, w1)" by force
  note spec = open_spec [OF o]
  from assms o have w': "w' = w1" and x: "x = (case y of Inl e \<Rightarrow> Inl e | Inr b \<Rightarrow> Inr \<lparr>bg_B = b, bg_ExpiresAt = b_ExpiresAt b\<rparr>)"
    by (auto simp: Bucket_GetMeta_def split: sum.splits)
  show "same_but_env w w'" using spec(1) w' by simp
  show "x = Inr g \<Longrightarrow> view (w_db w) slug = Some (bg_B g) \<and> bucket_access bc (w_now w) pw (bg_B g) = Inr () \<and>
      bg_ExpiresAt g = b_ExpiresAt (bg_B g)"
    using spec(2) x by (auto split: sum.splits)
  show "x = Inl er \<Longrightarrow> (er = Sentinel Bucket_ErrNotFound \<and> view (w_db w) slug = None) \<or>
      (\<exists>b. view (w_db w) slug = Some b \<and> bucket_access bc (w_now w) pw b = Inl er) \<or> low_error er"
    using spec(3) x by (simp split: sum.splits)
qed

text \<open>A single file: no mark is read or set, whatever the bucket's one-use flag.\<close>

lemma GetFile_spec:
  assumes "Bucket_GetFile bc (svc url) slug key pw w = (x, w')"
  shows "same_but_env w w'"
    and "x = Inr (bf, d) \<Longrightarrow> \<exists>b. view (w_db w) slug = Some b \<and> bucket_access bc (w_now w) pw b = Inr () \<and>
      bf \<in> set (b_Files b) \<and> bf_StorageKey bf = key \<and> content (w_fs w) key = Some d"
proof -
  obtain y w1 where o: "bucket_open bc (svc url) ''bucket service get file: lookup'' slug pw w = (y, w1)" by force
  note spec = open_spec [OF o] and same = same_but_envD [OF open_spec(1) [OF o]]
  have "same_but_env w w' \<and> (x = Inr (bf, d) \<longrightarrow> (\<exists>b. view (w_db w) slug = Some b \<and>
      bucket_access bc (w_now w) pw b = Inr () \<and> bf \<in> set (b_Files b) \<and> bf_StorageKey bf = key \<and>
      content (w_fs w) key = Some d))"
  proof (cases y)
    case (Inl e)
    with assms o spec(1) show ?thesis by (auto simp: Bucket_GetFile_def)
  next
    case (Inr b)
    obtain r w2 where rd: "be_Read B key w1 = (r, w2)" by force
    note env = store.Read_frame [OF rd]
    have "same_but_env w w2" using spec(1) env by (rule same_but_env_trans)
    with assms o Inr rd spec(1,2) same store.Read_Inr [of key w1 _ w2] show ?thesis
      by (cases "List.find (\<lambda>bf. bf_StorageKey bf = key) (b_Files b)"; cases r)
        (auto simp: Bucket_GetFile_def find_Some_iff)
  qed
  then show "same_but_env w w'" "x = Inr (bf, d) \<Longrightarrow> \<exists>b. view (w_db w) slug = Some b \<and> bucket_access bc (w_now w) pw b = Inr () \<and>
      bf \<in> set (b_Files b) \<and> bf_StorageKey bf = key \<and> content (w_fs w) key = Some d" by blast+
qed

lemma zip_files_spec:
  assumes "zip_files (svc url) bfs zr w = ((r, zr'), w')"
  shows "same_but_env w w' \<and> zr_header zr' = zr_header zr \<and>
    (case r of Inl e \<Rightarrow> low_error e
     | Inr u \<Rightarrow> \<exists>ds. list_all2 (\<lambda>bf d. content (w_fs w) (bf_StorageKey bf) = Some d) bfs ds \<and>
         zr_entries zr' = zr_entries zr @ zip (map bf_Filename bfs) ds)"
  using assms
proof (induction bfs arbitrary: zr w)
  case (Cons bf bfs)
  show ?case
  proof (cases "choice w = 0")
    case False
    with Cons.prems show ?thesis by auto
  next
    case True
    obtain y w2 where rd: "be_Read B (bf_StorageKey bf) (rest w) = (y, w2)" by force
    have env: "same_but_env w w2" using same_but_env_trans [OF _ store.Read_frame [OF rd]] by simp
    show ?thesis
    proof (cases y)
      case (Inl e)
      with Cons.prems True rd env store.Read_low [of _ _ e w2] show ?thesis by (auto simp: zip_add_def)
    next
      case (Inr d)
      note c = store.Read_Inr [OF rd [unfolded Inr]]
      show ?thesis
      proof (cases "choice w2 = 0")
        case False
        with Cons.prems True rd Inr env show ?thesis by (auto simp: zip_add_def)
      next
        case True': True
        with Cons.prems True rd Inr have "zip_files (svc url) bfs (zip_add (bf_Filename bf) d zr) (rest w2) = ((r, zr'), w')"
          by simp
        note IH = Cons.IH [OF this]
        have "same_but_env w w'" using same_but_env_trans [OF same_but_rest(3) [OF env]] IH by blast
        moreover have "w_fs (rest w2) = w_fs w" using same_but_envD(3) [OF env] by simp
        moreover have "content (w_fs w) (bf_StorageKey bf) = Some d" using c by simp
        ultimately show ?thesis using IH by (auto simp: zip_add_def list_all2_Cons1 split: sum.splits)
      qed
    qed
  qed
qed auto

text \<open>The mark in front of the stream.\<close>

lemma mark_spec:
  assumes "Bucket_mark (svc url) one slug w = (x, w')" and "dok (w_db w)" and "view (w_db w) slug \<noteq> None"
  shows "same_but_db w w' \<and> other (w_db w') = other (w_db w) \<and> dok (w_db w') \<and> view (w_db w') = view (w_db w) \<and>
    (used (w_db w') = used (w_db w) \<or> one \<and> used (w_db w') = (used (w_db w))(slug := True)) \<and>
    (case x of
       Inl e \<Rightarrow> low_error e \<or> (e = Sentinel Bucket_ErrAlreadyConsumed \<and> one \<and> used (w_db w) slug)
     | Inr u \<Rightarrow> (one \<longrightarrow> \<not> used (w_db w) slug \<and> used (w_db w') = (used (w_db w))(slug := True)))"
proof (cases one)
  case True
  obtain b w1 where m: "rp_Mark R slug w = (b, w1)" by force
  note f = repo.Mark_frame [OF m] repo.Mark_inv [OF m assms(2)] repo.Mark_view [OF m]
  show ?thesis
  proof (cases b)
    case (Inl e)
    with assms(1) True m have "x = Inl (Wrap ''bucket service stream zip: mark downloaded'' e)" "w' = w1"
      by (simp_all add: Bucket_mark_def)
    with repo.Mark_Inl [OF m [unfolded Inl]] f assms(3) True show ?thesis by auto
  next
    case (Inr c)
    with assms(1) True m have "x = (if c then Inr () else Inl (Sentinel Bucket_ErrAlreadyConsumed))" "w' = w1"
      by (auto simp: Bucket_mark_def split: if_splits)
    with repo.Mark_Inr [OF m [unfolded Inr] assms(2)] f assms(3) True show ?thesis by auto
  qed
qed (use assms in \<open>auto simp: Bucket_mark_def\<close>)

lemma StreamZIP_spec:
  assumes "Bucket_StreamZIP bc (svc url) slug pw zr w = ((r, zr'), w')" and ok: "dok (w_db w)"
  shows "same_but_db w w' \<and> other (w_db w') = other (w_db w) \<and> dok (w_db w') \<and> view (w_db w') = view (w_db w) \<and>
    (used (w_db w') = used (w_db w) \<or>
     (\<exists>b. view (w_db w) slug = Some b \<and> b_OneUse b) \<and> used (w_db w') = (used (w_db w))(slug := True)) \<and>
    (case r of
       Inr u \<Rightarrow> \<exists>b ds. view (w_db w) slug = Some b \<and> bucket_access bc (w_now w) pw b = Inr () \<and>
         (b_OneUse b \<longrightarrow> \<not> used (w_db w) slug \<and> used (w_db w') slug) \<and>
         list_all2 (\<lambda>bf d. content (w_fs w) (bf_StorageKey bf) = Some d) (b_Files b) ds \<and>
         zr_entries zr' = zr_entries zr @ zip (map bf_Filename (b_Files b)) ds
     | Inl er \<Rightarrow> zr' = zr \<and>
        ((er = Sentinel Bucket_ErrNotFound \<and> view (w_db w) slug = None) \<or>
         (\<exists>b. view (w_db w) slug = Some b \<and> (bucket_access bc (w_now w) pw b = Inl er \<or>
            er = Sentinel Bucket_ErrAlreadyConsumed \<and> b_OneUse b \<and> used (w_db w) slug))) \<or> low_error er)"
proof -
  obtain y w1 where o: "bucket_open bc (svc url) ''bucket service stream zip: lookup'' slug pw w = (y, w1)" by force
  note spec = open_spec [OF o]
  note same = same_but_envD [OF spec(1)] same_but_env_db [OF spec(1)]
  show ?thesis
  proof (cases y)
    case (Inl e)
    with assms(1) o have "r = Inl e" "zr' = zr" "w' = w1" by (auto simp: Bucket_StreamZIP_def)
    with spec(3) [OF Inl] same ok show ?thesis by auto
  next
    case (Inr b)
    note v = spec(2) [OF Inr]
    obtain m w2 where m: "Bucket_mark (svc url) (b_OneUse b) slug w1 = (m, w2)" by force
    have dok1: "dok (w_db w1)" and v1: "view (w_db w1) slug \<noteq> None" using ok same v by simp_all
    note ms = mark_spec [OF m dok1 v1, unfolded same(2)]
    have db2: "same_but_db w w2" using same(6) ms by (blast intro: same_but_db_trans)
    note run = assms(1) [unfolded Bucket_StreamZIP_def o Inr prod.case sum.case m]
    show ?thesis
    proof (cases m)
      case (Inl e)
      with run have "r = Inl e" "zr' = zr" "w' = w2" by auto
      with ms Inl db2 v show ?thesis by auto
    next
      case (Inr u)
      define zr1 where "zr1 = zr\<lparr>zr_header := zr_header zr @
        [(''Content-Type'', ''application/zip''),
         (''Content-Disposition'', ''attachment; filename=\"'' @ slug @ ''.zip\"'')]\<rparr>"
      obtain r' zr2 w3 where z: "zip_files (svc url) (b_Files b) zr1 w2 = ((r', zr2), w3)" by (metis prod.exhaust)
      note zs = zip_files_spec [OF z]
      from run Inr z have r: "r = r'" "zr_entries zr' = zr_entries zr2" "w' = rest w3"
        by (auto simp: zr1_def Let_def zip_close_def)
      have "w_fs w2 = w_fs w" using same_but_dbD(3) [OF db2] .
      moreover have "same_but_db w w'" "w_db w' = w_db w2"
        using zs r(3) same_but_db_trans [OF db2 same_but_env_db] same_but_envD(2) [of w2 w3] by auto
      moreover have "zr_entries zr1 = zr_entries zr" by (simp add: zr1_def)
      moreover have "b_OneUse b \<Longrightarrow> \<not> used (w_db w) slug \<and> used (w_db w2) slug" using ms Inr by simp
      ultimately show ?thesis using zs ms Inr r v by (cases r) (auto simp: fun_upd_idem_iff)
    qed
  qed
qed

text \<open>Without failures the archive of a bucket whose bytes are all there is complete.\<close>

lemma zip_files_calm:
  assumes "all_calm w" and "list_all2 (\<lambda>bf d. content (w_fs w) (bf_StorageKey bf) = Some d) bfs ds"
  shows "\<exists>w'. zip_files (svc url) bfs zr w =
    ((Inr (), zr\<lparr>zr_entries := zr_entries zr @ zip (map bf_Filename bfs) ds\<rparr>), w') \<and> all_calm w'"
  using assms
proof (induction bfs arbitrary: ds zr w)
  case (Cons bf bfs)
  then obtain d ds' where ds: "ds = d # ds'" "content (w_fs w) (bf_StorageKey bf) = Some d"
    and l: "list_all2 (\<lambda>bf d. content (w_fs w) (bf_StorageKey bf) = Some d) bfs ds'" by (auto simp: list_all2_Cons1)
  obtain w2 where rd: "be_Read B (bf_StorageKey bf) (rest w) = (Inr d, w2)"
    using store.Read_calm [of "rest w" "bf_StorageKey bf"] store.content_key_ok [OF ds(2)] Cons.prems(1) ds(2)
    by (cases "be_Read B (bf_StorageKey bf) (rest w)") auto
  note same = same_but_envD [OF store.Read_frame [OF rd]]
  have c2: "all_calm (rest w2)" using same(5) Cons.prems(1) by simp
  have "w_fs (rest w2) = w_fs w" using same by simp
  with Cons.IH [OF c2] l obtain w' where "zip_files (svc url) bfs (zip_add (bf_Filename bf) d zr) (rest w2) =
      ((Inr (), (zip_add (bf_Filename bf) d zr)\<lparr>zr_entries := zr_entries (zip_add (bf_Filename bf) d zr) @ zip (map bf_Filename bfs) ds'\<rparr>), w')"
    "all_calm w'" by metis
  with rd Cons.prems(1) c2 same(5) ds(1) show ?case by (simp add: zip_add_def)
qed simp

lemma StreamZIP_calm:
  assumes "all_calm w" and ok: "dok (w_db w)" and v: "view (w_db w) slug = Some b"
    and acc: "bucket_access bc (w_now w) pw b = Inr ()" and one: "b_OneUse b \<longrightarrow> \<not> used (w_db w) slug"
    and l: "list_all2 (\<lambda>bf d. content (w_fs w) (bf_StorageKey bf) = Some d) (b_Files b) ds"
  shows "\<exists>zr' w'. Bucket_StreamZIP bc (svc url) slug pw zr w = ((Inr (), zr'), w') \<and>
    zr_entries zr' = zr_entries zr @ zip (map bf_Filename (b_Files b)) ds \<and> zr_complete zr'"
proof -
  obtain w1 where o: "bucket_open bc (svc url) ''bucket service stream zip: lookup'' slug pw w = (Inr b, w1)"
    using open_calm [OF assms(1), of bc url "''bucket service stream zip: lookup''" slug pw] v acc
    by (cases "bucket_open bc (svc url) ''bucket service stream zip: lookup'' slug pw w") auto
  note same = same_but_envD [OF open_spec(1) [OF o]]
  have c1: "all_calm w1" using same(5) assms(1) by simp
  obtain w2 where m: "Bucket_mark (svc url) (b_OneUse b) slug w1 = (Inr (), w2)" and fs2: "w_fs w2 = w_fs w1" and c2: "all_calm w2"
  proof (cases "b_OneUse b")
    case True
    obtain w2 where k: "rp_Mark R slug w1 = (Inr True, w2)"
      using repo.Mark_calm [OF c1, of slug] ok one True v same by (cases "rp_Mark R slug w1") auto
    have "same_but_db w1 w2" using repo.Mark_frame [OF k] by blast
    with k True c1 same_but_dbD show thesis by (intro that [of w2]) (auto simp: Bucket_mark_def)
  qed (use c1 that in \<open>auto simp: Bucket_mark_def\<close>)
  define zr1 where "zr1 = zr\<lparr>zr_header := zr_header zr @
    [(''Content-Type'', ''application/zip''),
     (''Content-Disposition'', ''attachment; filename=\"'' @ slug @ ''.zip\"'')]\<rparr>"
  have "list_all2 (\<lambda>bf d. content (w_fs w2) (bf_StorageKey bf) = Some d) (b_Files b) ds" using l fs2 same by simp
  from zip_files_calm [OF c2 this] obtain w3 where "zip_files (svc url) (b_Files b) zr1 w2 =
    ((Inr (), zr1\<lparr>zr_entries := zr_entries zr1 @ zip (map bf_Filename (b_Files b)) ds\<rparr>), w3)" "all_calm w3" by blast
  with o m show ?thesis by (simp add: Bucket_StreamZIP_def zr1_def zip_close_def)
qed

subsection \<open>Delete\<close>

lemma delete_bytes_content:
  "\<exists>K \<subseteq> bf_StorageKey ` set bfs. content (w_fs (delete_bytes (svc url) bfs w)) = content (w_fs w) |` (- K) \<and>
     w_db (delete_bytes (svc url) bfs w) = w_db w \<and>
     (all_calm w \<and> (\<forall>bf \<in> set bfs. key_ok (bf_StorageKey bf)) \<longrightarrow> K = bf_StorageKey ` set bfs)"
proof (induction bfs arbitrary: w)
  case (Cons bf bfs)
  let ?w1 = "snd (be_Delete B (bf_StorageKey bf) w)"
  obtain K where K: "K \<subseteq> {bf_StorageKey bf}" "content (w_fs ?w1) = content (w_fs w) |` (- K)" "w_db ?w1 = w_db w"
    "all_calm w \<Longrightarrow> key_ok (bf_StorageKey bf) \<Longrightarrow> K = {bf_StorageKey bf}"
    using delete_step [of "bf_StorageKey bf" w] by blast
  have calm: "all_calm w \<Longrightarrow> all_calm ?w1"
    using store.delete_undo [where w = w] by (auto simp: svc_frame_def)
  from Cons.IH [of ?w1] obtain L where L: "L \<subseteq> bf_StorageKey ` set bfs"
    "content (w_fs (delete_bytes (svc url) bfs ?w1)) = content (w_fs ?w1) |` (- L)"
    "w_db (delete_bytes (svc url) bfs ?w1) = w_db ?w1"
    "all_calm ?w1 \<and> (\<forall>bf \<in> set bfs. key_ok (bf_StorageKey bf)) \<longrightarrow> L = bf_StorageKey ` set bfs" by blast
  from K L calm show ?case
    by (intro exI [of _ "K \<union> L"]) (auto simp: restrict_restrict)
qed (simp add: restrict_map_def)

lemma Delete_frame: "keeps (svc_frame other dok fok) (Bucket_Delete (svc url) slug secret)"
proof -
  have "keeps (svc_frame other dok fok) (\<lambda>w. wrap c (rp_Delete R slug) (\<lambda>u. pure_result (Inr ()))
      (delete_bytes (svc url) bfs w) :: unit result \<times> world)" for c bfs
  proof (rule keepsI)
    fix w x w' assume d: "wrap c (rp_Delete R slug) (\<lambda>u. pure_result (Inr ())) (delete_bytes (svc url) bfs w) = (x, w')"
    have k: "keeps (svc_frame other dok fok) (wrap c (rp_Delete R slug) (\<lambda>u. pure_result (Inr ())))"
      by (intro frames)
    show "svc_frame other dok fok w w'"
      by (rule svc_frame.trans [OF delete_bytes_frame keepsD [OF k d]])
  qed
  then show ?thesis unfolding Bucket_Delete_def bucket_service.simps by (intro frames)
qed

lemma Delete_cases:
  assumes "Bucket_Delete (svc url) slug secret w = (x, w')"
  obtains (refused) er where "x = Inl er" "w_db w' = w_db w" "w_fs w' = w_fs w"
      "(er = Sentinel Bucket_ErrNotFound \<and> view (w_db w) slug = None) \<or>
       (er = Sentinel Bucket_ErrBadDeleteSecret \<and> (\<exists>b. view (w_db w) slug = Some b \<and> b_DeleteSecret b \<noteq> secret)) \<or>
       low_error er"
  | (row_stays) b er K where "view (w_db w) slug = Some b" "b_DeleteSecret b = secret" "x = Inl er" "low_error er"
      "w_db w' = w_db w" "K \<subseteq> bf_StorageKey ` set (b_Files b)" "content (w_fs w') = content (w_fs w) |` (- K)"
      "\<not> all_calm w"
  | (deleted) b K where "view (w_db w) slug = Some b" "b_DeleteSecret b = secret" "x = Inr ()"
      "view (w_db w') = (view (w_db w))(slug := None)" "used (w_db w') = (used (w_db w))(slug := False)"
      "K \<subseteq> bf_StorageKey ` set (b_Files b)" "content (w_fs w') = content (w_fs w) |` (- K)"
      "all_calm w \<Longrightarrow> \<forall>bf \<in> set (b_Files b). key_ok (bf_StorageKey bf) \<Longrightarrow> K = bf_StorageKey ` set (b_Files b)"
  using assms unfolding Bucket_Delete_def bucket_service.simps
proof (cases rule: repo.lookup_cases)
  case (found b w1)
  note same = same_but_envD [OF found(2)]
  show thesis
  proof (cases "b_DeleteSecret b = secret")
    case False
    with found same refused show thesis by auto
  next
    case True
    define w2 where "w2 = delete_bytes (svc url) (b_Files b) w1"
    from delete_bytes_content [of "b_Files b" url w1] obtain K where K: "K \<subseteq> bf_StorageKey ` set (b_Files b)"
      "content (w_fs w2) = content (w_fs w1) |` (- K)" "w_db w2 = w_db w1"
      "all_calm w1 \<and> (\<forall>bf \<in> set (b_Files b). key_ok (bf_StorageKey bf)) \<longrightarrow> K = bf_StorageKey ` set (b_Files b)"
      by (auto simp: w2_def)
    have calm: "all_calm w \<Longrightarrow> all_calm w2"
      using delete_bytes_frame [of w1 url "b_Files b"] same(5) by (simp add: svc_frame_def w2_def)
    obtain z w3 where r: "rp_Delete R slug w2 = (z, w3)" by force
    note db = same_but_dbD [OF conjunct1 [OF repo.Delete_frame [OF r]]]
    show thesis
    proof (cases z)
      case (Inl e)
      with found(3) True r have "x = Inl (Wrap ''bucket service delete: remove record'' e)" "w' = w3"
        by (simp_all add: w2_def)
      moreover have "\<not> all_calm w"
        using repo.Delete_calm [of w2 slug] r Inl calm by auto
      ultimately show thesis
        using repo.Delete_Inl [OF r [unfolded Inl]] K same db found(1) True
        by (intro row_stays [of b "Wrap ''bucket service delete: remove record'' e" K]) simp_all
    next
      case (Inr u)
      with found(3) True r have "x = Inr ()" "w' = w3" by (simp_all add: w2_def)
      with repo.Delete_Inr [OF r [unfolded Inr]] K same db found(1) True show thesis
        by (intro deleted [of b K]) simp_all
    qed
  qed
qed (use refused in \<open>auto dest: same_but_envD\<close>)

end

section \<open>The service of the program\<close>

definition bucketService :: "string \<Rightarrow> bucket_service" where
  "bucketService baseURL = \<lparr>bsv_repo = bucketRepo, bsv_store = LocalFS, bsv_baseURL = baseURL\<rparr>"

interpretation bsv: bucket_service_laws LocalFS fs_content validKey fs_ok fs_clean
  bucketRepo bucket_view bucket_used buckets_ok not_buckets
  by unfold_locales (simp add: validKey_def)

end
