(* ===== verification/Cleanup.thy ===== *)
theory Cleanup
  imports File_Service Paste_Service Bucket_Service
begin

text \<open>
  Package internal/worker, cleanup.go: one sweep of the cleanup worker over the three tables.
  The loop that runs the sweeps is in theory \<open>Worker_Loop\<close>.
\<close>

section \<open>The code\<close>

record cleanup =
  cl_fileRepo :: "file_ent repo"
  cl_bucketRepo :: bucket_repo
  cl_pasteRepo :: "paste_ent repo"
  cl_store :: backend

text \<open>
  Errors are only logged: a key that cannot be deleted does not keep its row from being deleted,
  a row that cannot be deleted is not counted.
\<close>

fun sweep_file_rows :: "cleanup \<Rightarrow> nat \<Rightarrow> file_ent list \<Rightarrow> world \<Rightarrow> nat \<times> world" where
  "sweep_file_rows c n [] w = (n, w)"
| "sweep_file_rows c n (f # fs) w =
     (case rp_Delete (cl_fileRepo c) (f_Slug f) (snd (be_Delete (cl_store c) (f_Slug f) w)) of
        (Inl e, w1) \<Rightarrow> sweep_file_rows c n fs w1
      | (Inr u, w1) \<Rightarrow> sweep_file_rows c (n + 1) fs w1)"

definition sweepFiles :: "cleanup \<Rightarrow> world \<Rightarrow> nat \<times> world" where
  "sweepFiles c w =
     (case rp_ListExpired (cl_fileRepo c) w of
        (Inl e, w1) \<Rightarrow> (0, w1)
      | (Inr expired, w1) \<Rightarrow> sweep_file_rows c 0 expired w1)"

fun sweep_keys :: "cleanup \<Rightarrow> bucket_file_ent list \<Rightarrow> world \<Rightarrow> world" where
  "sweep_keys c [] w = w"
| "sweep_keys c (bf # bfs) w = sweep_keys c bfs (snd (be_Delete (cl_store c) (bf_StorageKey bf) w))"

fun sweep_bucket_rows :: "cleanup \<Rightarrow> nat \<Rightarrow> bucket_ent list \<Rightarrow> world \<Rightarrow> nat \<times> world" where
  "sweep_bucket_rows c n [] w = (n, w)"
| "sweep_bucket_rows c n (b # bs) w =
     (case rp_Delete (cl_bucketRepo c) (b_Slug b) (sweep_keys c (b_Files b) w) of
        (Inl e, w1) \<Rightarrow> sweep_bucket_rows c n bs w1
      | (Inr u, w1) \<Rightarrow> sweep_bucket_rows c (n + 1) bs w1)"

definition sweepBuckets :: "cleanup \<Rightarrow> world \<Rightarrow> nat \<times> world" where
  "sweepBuckets c w =
     (case rp_ListExpired (cl_bucketRepo c) w of
        (Inl e, w1) \<Rightarrow> (0, w1)
      | (Inr expired, w1) \<Rightarrow> sweep_bucket_rows c 0 expired w1)"

fun sweep_paste_rows :: "cleanup \<Rightarrow> nat \<Rightarrow> paste_ent list \<Rightarrow> world \<Rightarrow> nat \<times> world" where
  "sweep_paste_rows c n [] w = (n, w)"
| "sweep_paste_rows c n (p # ps) w =
     (case rp_Delete (cl_pasteRepo c) (p_Slug p) w of
        (Inl e, w1) \<Rightarrow> sweep_paste_rows c n ps w1
      | (Inr u, w1) \<Rightarrow> sweep_paste_rows c (n + 1) ps w1)"

definition sweepPastes :: "cleanup \<Rightarrow> world \<Rightarrow> nat \<times> world" where
  "sweepPastes c w =
     (case rp_ListExpired (cl_pasteRepo c) w of
        (Inl e, w1) \<Rightarrow> (0, w1)
      | (Inr expired, w1) \<Rightarrow> sweep_paste_rows c 0 expired w1)"

definition sweep :: "cleanup \<Rightarrow> world \<Rightarrow> (nat \<times> nat \<times> nat) \<times> world" where
  "sweep c w =
     (case sweepFiles c w of (nFiles, w1) \<Rightarrow>
      case sweepBuckets c w1 of (nBuckets, w2) \<Rightarrow>
      case sweepPastes c w2 of (nPastes, w3) \<Rightarrow> ((nFiles, nBuckets, nPastes), w3))"

section \<open>Each table on its contract\<close>

text \<open>The keys whose entity the list query of a sweep selects.\<close>

definition expired_keys :: "('e \<Rightarrow> instant option) \<Rightarrow> (string \<Rightarrow> 'e option) \<Rightarrow> instant \<Rightarrow> string set" where
  "expired_keys expires view now =
     {s. \<exists>e t. view s = Some e \<and> expires e = Some t \<and> unix t < unix now}"

context file_service_laws begin

lemma sweep_file_rows_spec:
  assumes "sweep_file_rows c n fs w = (m, w')" and "cl_store c = B" and "cl_fileRepo c = R"
  shows "svc_frame other dok fok w w' \<and>
    (\<exists>D K. D \<subseteq> f_Slug ` set fs \<and> K \<subseteq> f_Slug ` set fs \<and>
      view (w_db w') = view (w_db w) |` (- D) \<and> content (w_fs w') = content (w_fs w) |` (- K) \<and>
      used (w_db w') = (\<lambda>s. s \<notin> D \<and> used (w_db w) s) \<and>
      (all_calm w \<and> (\<forall>f \<in> set fs. key_ok (f_Slug f)) \<longrightarrow>
         D = f_Slug ` set fs \<and> K = f_Slug ` set fs \<and> m = n + length fs))"
  using assms(1)
proof (induction fs arbitrary: n w)
  case Nil
  then show ?case by (auto simp: restrict_map_def svc_frame.refl)
next
  case (Cons f fs)
  obtain x w1 where d: "be_Delete B (f_Slug f) w = (x, w1)" by force
  obtain y w2 where r: "rp_Delete R (f_Slug f) w1 = (y, w2)" by force
  define k where "k = n + (case y of Inl e \<Rightarrow> 0 | Inr u \<Rightarrow> 1)"
  have rest: "sweep_file_rows c k fs w2 = (m, w')"
    using Cons.prems assms(2,3) d r by (simp add: k_def split: sum.splits)
  note fr1 = keepsD [OF store.store_frames(2) d] and fr2 = keepsD [OF repo.repo_frames(4) r]
  have fr: "svc_frame other dok fok w w2" by (rule svc_frame.trans [OF fr1 fr2])
  have db: "w_db w1 = w_db w" "w_fs w2 = w_fs w1"
    using same_but_fsD(3) [OF store.Delete_frame [OF d]] same_but_dbD(3) [OF conjunct1 [OF repo.Delete_frame [OF r]]]
    by simp_all
  define K1 where "K1 = (case x of Inl e \<Rightarrow> {} | Inr u \<Rightarrow> {f_Slug f})"
  define D1 where "D1 = (case y of Inl e \<Rightarrow> {} | Inr u \<Rightarrow> {f_Slug f})"
  have c1: "content (w_fs w2) = content (w_fs w) |` (- K1)"
    using store.Delete_Inl [of "f_Slug f" w _ w1] store.Delete_Inr [of "f_Slug f" w _ w1] d db
    by (cases x) (auto simp: K1_def restrict_map_def fun_eq_iff)
  have v1: "view (w_db w2) = view (w_db w) |` (- D1)" "used (w_db w2) = (\<lambda>s. s \<notin> D1 \<and> used (w_db w) s)"
    using repo.Delete_Inl [of "f_Slug f" w1 _ w2] repo.Delete_Inr [of "f_Slug f" w1 _ w2] r db
    by (cases y; auto simp: D1_def restrict_map_def fun_eq_iff)+
  have calm: "K1 = {f_Slug f} \<and> D1 = {f_Slug f} \<and> k = n + 1" if "all_calm w" "key_ok (f_Slug f)"
  proof -
    have "x = Inr ()" using store.Delete_calm [OF that] d by simp
    moreover have "all_calm w1" using same_but_fsD(4) [OF store.Delete_frame [OF d]] that(1) by blast
    then have "y = Inr ()" using repo.Delete_calm [of w1 "f_Slug f"] r by simp
    ultimately show ?thesis by (simp add: K1_def D1_def k_def)
  qed
  from Cons.IH [OF rest] obtain D K where IH: "svc_frame other dok fok w2 w'"
    "D \<subseteq> f_Slug ` set fs" "K \<subseteq> f_Slug ` set fs" "view (w_db w') = view (w_db w2) |` (- D)"
    "content (w_fs w') = content (w_fs w2) |` (- K)" "used (w_db w') = (\<lambda>s. s \<notin> D \<and> used (w_db w2) s)"
    "all_calm w2 \<and> (\<forall>f \<in> set fs. key_ok (f_Slug f)) \<longrightarrow>
       D = f_Slug ` set fs \<and> K = f_Slug ` set fs \<and> m = k + length fs" by blast
  have "D1 \<union> D \<subseteq> f_Slug ` set (f # fs)" "K1 \<union> K \<subseteq> f_Slug ` set (f # fs)"
    using IH(2,3) by (auto simp: D1_def K1_def split: sum.splits)
  moreover have "all_calm w \<Longrightarrow> all_calm w2" using fr by (simp add: svc_frame_def)
  ultimately show ?case
    using IH c1 v1 calm svc_frame.trans [OF fr IH(1)]
    by (intro conjI exI [of _ "D1 \<union> D"] exI [of _ "K1 \<union> K"]) (auto simp: restrict_restrict)
qed

lemma sweepFiles_spec:
  assumes "sweepFiles c w = (m, w')" and "cl_store c = B" and "cl_fileRepo c = R" and ok: "dok (w_db w)"
  shows "svc_frame other dok fok w w' \<and>
    (\<exists>D K. D \<subseteq> expired_keys f_ExpiresAt (view (w_db w)) (w_now w) \<and>
      K \<subseteq> expired_keys f_ExpiresAt (view (w_db w)) (w_now w) \<and>
      view (w_db w') = view (w_db w) |` (- D) \<and> content (w_fs w') = content (w_fs w) |` (- K) \<and>
      used (w_db w') = (\<lambda>s. s \<notin> D \<and> used (w_db w) s) \<and>
      (all_calm w \<and> (\<forall>s \<in> dom (view (w_db w)). key_ok s) \<longrightarrow>
         D = expired_keys f_ExpiresAt (view (w_db w)) (w_now w) \<and>
         K = expired_keys f_ExpiresAt (view (w_db w)) (w_now w) \<and>
         m = card (expired_keys f_ExpiresAt (view (w_db w)) (w_now w))))"
proof -
  obtain x w1 where l: "rp_ListExpired R w = (x, w1)" by force
  note env = repo.List_frame [OF l]
  note same = same_but_envD [OF env]
  show ?thesis
  proof (cases x)
    case (Inl e)
    with assms l have "w' = w1" by (auto simp: sweepFiles_def)
    moreover have "\<not> all_calm w" using repo.List_calm [of w] l Inl by auto
    ultimately show ?thesis using same svc_frame_env [OF env] by (auto intro!: exI [of _ "{}"] simp: restrict_map_def)
  next
    case (Inr fs)
    with assms l have rows: "sweep_file_rows c 0 fs w1 = (m, w')" by (simp add: sweepFiles_def)
    note fs = repo.List_Inr [OF l [unfolded Inr] ok]
    have keys: "f_Slug ` set fs = expired_keys f_ExpiresAt (view (w_db w)) (w_now w)"
      using fs repo.view_slug by (force simp: expired_keys_def)
    have n: "length fs = card (f_Slug ` set fs)"
      using fs distinct_card [of "map f_Slug fs"] by simp
    have ko: "\<forall>s \<in> dom (view (w_db w)). key_ok s \<Longrightarrow> \<forall>f \<in> set fs. key_ok (f_Slug f)"
      using fs repo.view_slug by force
    from sweep_file_rows_spec [OF rows assms(2,3)] obtain D K where "svc_frame other dok fok w1 w'"
      "D \<subseteq> f_Slug ` set fs" "K \<subseteq> f_Slug ` set fs" "view (w_db w') = view (w_db w1) |` (- D)"
      "content (w_fs w') = content (w_fs w1) |` (- K)" "used (w_db w') = (\<lambda>s. s \<notin> D \<and> used (w_db w1) s)"
      "all_calm w1 \<and> (\<forall>f \<in> set fs. key_ok (f_Slug f)) \<longrightarrow>
         D = f_Slug ` set fs \<and> K = f_Slug ` set fs \<and> m = 0 + length fs" by blast
    then show ?thesis
      using same(2,3,5) svc_frame.trans [OF svc_frame_env [OF env]] ko
      unfolding keys n by (intro conjI exI [of _ D] exI [of _ K]) simp_all
  qed
qed

end

definition bucket_keys :: "bucket_ent \<Rightarrow> string set" where
  "bucket_keys b = bf_StorageKey ` set (b_Files b)"

context bucket_service_laws begin

lemma sweep_keys_eq: "cl_store c = B \<Longrightarrow> sweep_keys c bfs w = delete_bytes (svc []) bfs w"
  by (induction bfs arbitrary: w) simp_all

lemma sweep_bucket_rows_spec:
  assumes "sweep_bucket_rows c n bs w = (m, w')" and "cl_store c = B" and "cl_bucketRepo c = R"
  shows "svc_frame other dok fok w w' \<and>
    (\<exists>D K. D \<subseteq> b_Slug ` set bs \<and> K \<subseteq> \<Union> (bucket_keys ` set bs) \<and>
      view (w_db w') = view (w_db w) |` (- D) \<and> content (w_fs w') = content (w_fs w) |` (- K) \<and>
      used (w_db w') = (\<lambda>s. s \<notin> D \<and> used (w_db w) s) \<and>
      (all_calm w \<and> (\<forall>b \<in> set bs. \<forall>k \<in> bucket_keys b. key_ok k) \<longrightarrow>
         D = b_Slug ` set bs \<and> K = \<Union> (bucket_keys ` set bs) \<and> m = n + length bs))"
  using assms(1)
proof (induction bs arbitrary: n w)
  case Nil
  then show ?case by (auto simp: restrict_map_def svc_frame.refl)
next
  case (Cons b bs)
  define w1 where "w1 = delete_bytes (svc []) (b_Files b) w"
  obtain y w2 where r: "rp_Delete R (b_Slug b) w1 = (y, w2)" by force
  define k where "k = n + (case y of Inl e \<Rightarrow> 0 | Inr u \<Rightarrow> 1)"
  have rest: "sweep_bucket_rows c k bs w2 = (m, w')"
    using Cons.prems assms(2,3) r by (simp add: sweep_keys_eq w1_def k_def split: sum.splits)
  note fr1 = delete_bytes_frame [of w "[]" "b_Files b", folded w1_def] and fr2 = keepsD [OF repo.repo_frames(4) r]
  have fr: "svc_frame other dok fok w w2" by (rule svc_frame.trans [OF fr1 fr2])
  from delete_bytes_content [of "b_Files b" "[]" w] obtain K1 where K1: "K1 \<subseteq> bucket_keys b"
    "content (w_fs w1) = content (w_fs w) |` (- K1)" "w_db w1 = w_db w"
    "all_calm w \<and> (\<forall>k \<in> bucket_keys b. key_ok k) \<longrightarrow> K1 = bucket_keys b"
    unfolding bucket_keys_def w1_def by blast
  have fs2: "w_fs w2 = w_fs w1" using same_but_dbD(3) [OF conjunct1 [OF repo.Delete_frame [OF r]]] .
  define D1 where "D1 = (case y of Inl e \<Rightarrow> {} | Inr u \<Rightarrow> {b_Slug b})"
  have v1: "view (w_db w2) = view (w_db w) |` (- D1)" "used (w_db w2) = (\<lambda>s. s \<notin> D1 \<and> used (w_db w) s)"
    using repo.Delete_Inl [of "b_Slug b" w1 _ w2] repo.Delete_Inr [of "b_Slug b" w1 _ w2] r K1(3)
    by (cases y; auto simp: D1_def restrict_map_def fun_eq_iff)+
  have calm: "D1 = {b_Slug b} \<and> k = n + 1" if "all_calm w"
  proof -
    have "all_calm w1" using fr1 that by (simp add: svc_frame_def)
    then have "y = Inr ()" using repo.Delete_calm [of w1 "b_Slug b"] r by simp
    then show ?thesis by (simp add: D1_def k_def)
  qed
  from Cons.IH [OF rest] obtain D K where IH: "svc_frame other dok fok w2 w'"
    "D \<subseteq> b_Slug ` set bs" "K \<subseteq> \<Union> (bucket_keys ` set bs)" "view (w_db w') = view (w_db w2) |` (- D)"
    "content (w_fs w') = content (w_fs w2) |` (- K)" "used (w_db w') = (\<lambda>s. s \<notin> D \<and> used (w_db w2) s)"
    "all_calm w2 \<and> (\<forall>b \<in> set bs. \<forall>k \<in> bucket_keys b. key_ok k) \<longrightarrow>
       D = b_Slug ` set bs \<and> K = \<Union> (bucket_keys ` set bs) \<and> m = k + length bs" by blast
  have "D1 \<union> D \<subseteq> b_Slug ` set (b # bs)" "K1 \<union> K \<subseteq> \<Union> (bucket_keys ` set (b # bs))"
    using IH(2,3) K1(1) by (auto simp: D1_def split: sum.splits)
  moreover have "all_calm w \<Longrightarrow> all_calm w2" using fr by (simp add: svc_frame_def)
  moreover have "view (w_db w') = view (w_db w) |` (- (D1 \<union> D))"
    "content (w_fs w') = content (w_fs w) |` (- (K1 \<union> K))"
    "used (w_db w') = (\<lambda>s. s \<notin> D1 \<union> D \<and> used (w_db w) s)"
    using IH(4-6) K1(2) fs2 v1 by (auto simp: restrict_restrict)
  ultimately show ?case
    using IH(7) K1(4) calm svc_frame.trans [OF fr IH(1)]
    by (intro conjI exI [of _ "D1 \<union> D"] exI [of _ "K1 \<union> K"]) simp_all
qed

lemma sweepBuckets_spec:
  assumes "sweepBuckets c w = (m, w')" and "cl_store c = B" and "cl_bucketRepo c = R" and ok: "dok (w_db w)"
  defines "E \<equiv> expired_keys b_ExpiresAt (view (w_db w)) (w_now w)"
  shows "svc_frame other dok fok w w' \<and>
    (\<exists>D K. D \<subseteq> E \<and> K \<subseteq> \<Union> {bucket_keys b | b s. s \<in> E \<and> view (w_db w) s = Some b} \<and>
      view (w_db w') = view (w_db w) |` (- D) \<and> content (w_fs w') = content (w_fs w) |` (- K) \<and>
      used (w_db w') = (\<lambda>s. s \<notin> D \<and> used (w_db w) s) \<and>
      (all_calm w \<and> (\<forall>b \<in> ran (view (w_db w)). \<forall>k \<in> bucket_keys b. key_ok k) \<longrightarrow>
         D = E \<and> K = \<Union> {bucket_keys b | b s. s \<in> E \<and> view (w_db w) s = Some b} \<and> m = card E))"
proof -
  obtain x w1 where l: "rp_ListExpired R w = (x, w1)" by force
  note env = repo.List_frame [OF l]
  note same = same_but_envD [OF env]
  show ?thesis
  proof (cases x)
    case (Inl e)
    with assms l have "w' = w1" by (auto simp: sweepBuckets_def)
    moreover have "\<not> all_calm w" using repo.List_calm [of w] l Inl by auto
    ultimately show ?thesis using same svc_frame_env [OF env] by (auto intro!: exI [of _ "{}"] simp: restrict_map_def)
  next
    case (Inr bs)
    with assms l have rows: "sweep_bucket_rows c 0 bs w1 = (m, w')" by (simp add: sweepBuckets_def)
    note bs = repo.List_Inr [OF l [unfolded Inr] ok]
    have slugs: "b_Slug ` set bs = E"
      using bs repo.view_slug by (force simp: expired_keys_def E_def)
    have keys: "\<Union> (bucket_keys ` set bs) = \<Union> {bucket_keys b | b s. s \<in> E \<and> view (w_db w) s = Some b}"
      using bs by (fastforce simp: expired_keys_def E_def)
    have n: "length bs = card (b_Slug ` set bs)"
      using bs distinct_card [of "map b_Slug bs"] by simp
    have ko: "\<forall>b \<in> ran (view (w_db w)). \<forall>k \<in> bucket_keys b. key_ok k \<Longrightarrow>
        \<forall>b \<in> set bs. \<forall>k \<in> bucket_keys b. key_ok k"
      using bs by (auto simp: ran_def)
    from sweep_bucket_rows_spec [OF rows assms(2,3)] obtain D K where "svc_frame other dok fok w1 w'"
      "D \<subseteq> b_Slug ` set bs" "K \<subseteq> \<Union> (bucket_keys ` set bs)" "view (w_db w') = view (w_db w1) |` (- D)"
      "content (w_fs w') = content (w_fs w1) |` (- K)" "used (w_db w') = (\<lambda>s. s \<notin> D \<and> used (w_db w1) s)"
      "all_calm w1 \<and> (\<forall>b \<in> set bs. \<forall>k \<in> bucket_keys b. key_ok k) \<longrightarrow>
         D = b_Slug ` set bs \<and> K = \<Union> (bucket_keys ` set bs) \<and> m = 0 + length bs" by blast
    then show ?thesis
      using same(2,3,5) svc_frame.trans [OF svc_frame_env [OF env]] ko
      unfolding keys n slugs by (intro conjI exI [of _ D] exI [of _ K]) simp_all
  qed
qed

end

context paste_service_laws begin

lemma sweep_paste_rows_spec:
  assumes "sweep_paste_rows c n ps w = (m, w')" and "cl_pasteRepo c = R"
  shows "same_but_db w w' \<and> other (w_db w') = other (w_db w) \<and> (dok (w_db w) \<longrightarrow> dok (w_db w')) \<and>
    (\<exists>D. D \<subseteq> p_Slug ` set ps \<and> view (w_db w') = view (w_db w) |` (- D) \<and>
      used (w_db w') = (\<lambda>s. s \<notin> D \<and> used (w_db w) s) \<and>
      (all_calm w \<longrightarrow> D = p_Slug ` set ps \<and> m = n + length ps))"
  using assms(1)
proof (induction ps arbitrary: n w)
  case Nil
  then show ?case by (auto simp: restrict_map_def)
next
  case (Cons p ps)
  obtain y w2 where r: "rp_Delete R (p_Slug p) w = (y, w2)" by force
  define k where "k = n + (case y of Inl e \<Rightarrow> 0 | Inr u \<Rightarrow> 1)"
  have rest: "sweep_paste_rows c k ps w2 = (m, w')"
    using Cons.prems assms(2) r by (simp add: k_def split: sum.splits)
  note fr = repo.Delete_frame [OF r] and inv = repo.Delete_inv [OF r]
  define D1 where "D1 = (case y of Inl e \<Rightarrow> {} | Inr u \<Rightarrow> {p_Slug p})"
  have v1: "view (w_db w2) = view (w_db w) |` (- D1)" "used (w_db w2) = (\<lambda>s. s \<notin> D1 \<and> used (w_db w) s)"
    using repo.Delete_Inl [of "p_Slug p" w _ w2] repo.Delete_Inr [of "p_Slug p" w _ w2] r
    by (cases y; auto simp: D1_def restrict_map_def fun_eq_iff)+
  have calm: "D1 = {p_Slug p} \<and> k = n + 1" if "all_calm w"
    using repo.Delete_calm [OF that, of "p_Slug p"] r by (simp add: D1_def k_def)
  from Cons.IH [OF rest] obtain D where IH: "same_but_db w2 w'" "other (w_db w') = other (w_db w2)"
    "dok (w_db w2) \<longrightarrow> dok (w_db w')" "D \<subseteq> p_Slug ` set ps" "view (w_db w') = view (w_db w2) |` (- D)"
    "used (w_db w') = (\<lambda>s. s \<notin> D \<and> used (w_db w2) s)"
    "all_calm w2 \<longrightarrow> D = p_Slug ` set ps \<and> m = k + length ps" by blast
  have "D1 \<union> D \<subseteq> p_Slug ` set (p # ps)"
    using IH(4) by (auto simp: D1_def split: sum.splits)
  moreover have "same_but_db w w'" using fr IH(1) by (blast intro: same_but_db_trans)
  moreover have "all_calm w \<Longrightarrow> all_calm w2" using same_but_dbD(4) fr by blast
  ultimately show ?case
    using IH fr inv v1 calm
    by (intro conjI exI [of _ "D1 \<union> D"]) (auto simp: restrict_restrict)
qed

lemma sweepPastes_spec:
  assumes "sweepPastes c w = (m, w')" and "cl_pasteRepo c = R" and ok: "dok (w_db w)"
  defines "E \<equiv> expired_keys p_ExpiresAt (view (w_db w)) (w_now w)"
  shows "same_but_db w w' \<and> other (w_db w') = other (w_db w) \<and> dok (w_db w') \<and>
    (\<exists>D. D \<subseteq> E \<and> view (w_db w') = view (w_db w) |` (- D) \<and>
      used (w_db w') = (\<lambda>s. s \<notin> D \<and> used (w_db w) s) \<and> (all_calm w \<longrightarrow> D = E \<and> m = card E))"
proof -
  obtain x w1 where l: "rp_ListExpired R w = (x, w1)" by force
  note env = repo.List_frame [OF l]
  note same = same_but_envD [OF env] and db = same_but_env_db [OF env]
  show ?thesis
  proof (cases x)
    case (Inl e)
    with assms l have "w' = w1" by (auto simp: sweepPastes_def)
    moreover have "\<not> all_calm w" using repo.List_calm [of w] l Inl by auto
    ultimately show ?thesis using same db ok by (auto intro!: exI [of _ "{}"] simp: restrict_map_def)
  next
    case (Inr ps)
    with assms l have rows: "sweep_paste_rows c 0 ps w1 = (m, w')" by (simp add: sweepPastes_def)
    note ps = repo.List_Inr [OF l [unfolded Inr] ok]
    have slugs: "p_Slug ` set ps = E"
      using ps repo.view_slug by (force simp: expired_keys_def E_def)
    have n: "length ps = card (p_Slug ` set ps)"
      using ps distinct_card [of "map p_Slug ps"] by simp
    from sweep_paste_rows_spec [OF rows assms(2)] obtain D where "same_but_db w1 w'"
      "other (w_db w') = other (w_db w1)" "dok (w_db w1) \<longrightarrow> dok (w_db w')"
      "D \<subseteq> p_Slug ` set ps" "view (w_db w') = view (w_db w1) |` (- D)"
      "used (w_db w') = (\<lambda>s. s \<notin> D \<and> used (w_db w1) s)"
      "all_calm w1 \<longrightarrow> D = p_Slug ` set ps \<and> m = 0 + length ps" by blast
    then show ?thesis
      using same(2,5) same_but_db_trans [OF db] ok
      unfolding n slugs by (intro conjI exI [of _ D]) simp_all
  qed
qed

end

end
