(* ===== verification/System.thy ===== *)
theory System
  imports Cleanup
begin

text \<open>
  The program as a whole: the three services and the cleanup worker on one directory tree and
  one database, driven by an arbitrary sequence of calls (main.go wires exactly these). A run is
  a list of calls; between calls time passes, new random bytes arrive and the environment
  decides anew which steps will fail.
\<close>

section \<open>Wiring\<close>

definition program_cleanup :: cleanup where
  "program_cleanup = \<lparr>cl_fileRepo = fileRepo, cl_bucketRepo = bucketRepo, cl_pasteRepo = pasteRepo,
     cl_store = LocalFS\<rparr>"

datatype call =
    FileUpload file_UploadRequest | FileGet string string | FileMeta string | FileDelete string string
  | PasteCreate paste_CreateRequest | PasteGet string string | PasteDelete string string
  | BucketCreate bucket_CreateRequest | BucketMeta string string | BucketZIP string string
  | BucketFile string string string | BucketDelete string string
  | Sweep
  | Pass duration "8 word list" "nat list"

datatype outcome =
    FileUploaded "file_UploadResult result" | FileGot "file_GetResult result" | FileMetaGot "file_ent result"
  | Deleted "unit result"
  | PasteCreated "paste_CreateResult result" | PasteGot "paste_GetResult result"
  | BucketCreated "bucket_CreateResult result" | BucketMetaGot "bucket_GetResult result"
  | BucketZIPped "unit result" zip_response | BucketFileGot "(bucket_file_ent \<times> bytes) result"
  | Swept nat nat nat
  | Passed

definition empty_response :: zip_response where
  "empty_response = \<lparr>zr_header = [], zr_entries = [], zr_complete = False\<rparr>"

fun exec :: "bcrypt \<Rightarrow> string \<Rightarrow> call \<Rightarrow> world \<Rightarrow> outcome \<times> world" where
  "exec bc url (FileUpload req) w = map_prod FileUploaded id (File_Upload bc (fileService url) req w)"
| "exec bc url (FileGet s pw) w = map_prod FileGot id (File_Get bc (fileService url) s pw w)"
| "exec bc url (FileMeta s) w = map_prod FileMetaGot id (File_GetMeta (fileService url) s w)"
| "exec bc url (FileDelete s d) w = map_prod Deleted id (File_Delete (fileService url) s d w)"
| "exec bc url (PasteCreate req) w = map_prod PasteCreated id (Paste_Create bc (pasteService url) req w)"
| "exec bc url (PasteGet s pw) w = map_prod PasteGot id (Paste_Get bc (pasteService url) s pw w)"
| "exec bc url (PasteDelete s d) w = map_prod Deleted id (Paste_Delete (pasteService url) s d w)"
| "exec bc url (BucketCreate req) w = map_prod BucketCreated id (Bucket_Create bc (bucketService url) req w)"
| "exec bc url (BucketMeta s pw) w = map_prod BucketMetaGot id (Bucket_GetMeta bc (bucketService url) s pw w)"
| "exec bc url (BucketZIP s pw) w =
     map_prod (\<lambda>(r, z). BucketZIPped r z) id (Bucket_StreamZIP bc (bucketService url) s pw empty_response w)"
| "exec bc url (BucketFile s k pw) w = map_prod BucketFileGot id (Bucket_GetFile bc (bucketService url) s k pw w)"
| "exec bc url (BucketDelete s d) w = map_prod Deleted id (Bucket_Delete (bucketService url) s d w)"
| "exec bc url Sweep w = map_prod (\<lambda>(f, b, p). Swept f b p) id (sweep program_cleanup w)"
| "exec bc url (Pass d bs env) w =
     (Passed, w\<lparr>w_now := w_now w + \<bar>d\<bar>, w_rand := bs, w_env := env\<rparr>)"

fun run :: "bcrypt \<Rightarrow> string \<Rightarrow> call list \<Rightarrow> world \<Rightarrow> outcome list \<times> world" where
  "run bc url [] w = ([], w)"
| "run bc url (c # cs) w =
     (case exec bc url c w of (x, w1) \<Rightarrow> case run bc url cs w1 of (xs, w2) \<Rightarrow> (x # xs, w2))"

section \<open>The invariant of both layers\<close>

definition sys_ok :: "world \<Rightarrow> bool" where
  "sys_ok w \<longleftrightarrow> fs_ok (w_fs w) \<and> files_ok (w_db w) \<and> pastes_ok (w_db w) \<and> buckets_ok (w_db w)"

definition initial :: world where
  "initial = \<lparr>w_now = 0, w_rand = [], w_env = [],
     w_fs = \<lparr>fs_files = (\<lambda>p. None), fs_dirs = {[]}\<rparr>,
     w_db = \<lparr>db_files = [], db_buckets = [], db_bucket_files = [], db_bucket_files_seq = 0, db_pastes = []\<rparr>\<rparr>"

lemma sys_ok_initial: "sys_ok initial"
  by (simp add: sys_ok_def initial_def fs_ok_def files_ok_def pastes_ok_def buckets_ok_def keyed_def)

text \<open>Each table is part of what the repositories of the other two leave alone.\<close>

lemma other_tables:
  "not_files d = not_files e \<Longrightarrow> paste_view d = paste_view e \<and> paste_used d = paste_used e \<and> (pastes_ok d \<longleftrightarrow> pastes_ok e) \<and>
     bucket_view d = bucket_view e \<and> bucket_used d = bucket_used e \<and> (buckets_ok d \<longleftrightarrow> buckets_ok e)"
  "not_pastes d = not_pastes e \<Longrightarrow> file_view d = file_view e \<and> file_used d = file_used e \<and> (files_ok d \<longleftrightarrow> files_ok e) \<and>
     bucket_view d = bucket_view e \<and> bucket_used d = bucket_used e \<and> (buckets_ok d \<longleftrightarrow> buckets_ok e)"
  "not_buckets d = not_buckets e \<Longrightarrow> file_view d = file_view e \<and> file_used d = file_used e \<and> (files_ok d \<longleftrightarrow> files_ok e) \<and>
     paste_view d = paste_view e \<and> paste_used d = paste_used e \<and> (pastes_ok d \<longleftrightarrow> pastes_ok e)"
  by (simp_all add: not_files_def not_pastes_def not_buckets_def fun_eq_iff
      file_view_def file_used_def files_ok_def paste_view_def paste_used_def pastes_ok_def
      bucket_view_def bucket_used_def buckets_ok_def select_bucket_files_def)

lemma services_unfold [simp]:
  "fsv.svc url = fileService url" "psv.svc url = pasteService url" "bsv.svc url = bucketService url"
  by (simp_all add: fileService_def pasteService_def bucketService_def)

lemma program_cleanup_sel [simp]:
  "cl_fileRepo program_cleanup = fileRepo" "cl_bucketRepo program_cleanup = bucketRepo"
  "cl_pasteRepo program_cleanup = pasteRepo" "cl_store program_cleanup = LocalFS"
  by (simp_all add: program_cleanup_def)

section \<open>What a call leaves alone\<close>

fun on_files :: "call \<Rightarrow> bool" where
  "on_files (FileUpload r) = True" | "on_files (FileGet s pw) = True" | "on_files (FileMeta s) = True"
| "on_files (FileDelete s d) = True" | "on_files c = False"

fun on_pastes :: "call \<Rightarrow> bool" where
  "on_pastes (PasteCreate r) = True" | "on_pastes (PasteGet s pw) = True"
| "on_pastes (PasteDelete s d) = True" | "on_pastes c = False"

fun on_buckets :: "call \<Rightarrow> bool" where
  "on_buckets (BucketCreate r) = True" | "on_buckets (BucketMeta s pw) = True" | "on_buckets (BucketZIP s pw) = True"
| "on_buckets (BucketFile s k pw) = True" | "on_buckets (BucketDelete s d) = True" | "on_buckets c = False"

lemma exec_file_frame:
  assumes "exec bc url c w = (x, w')" and "on_files c"
  shows "svc_frame not_files files_ok fs_ok w w'"
proof -
  have conv: "same_but_db v v' \<and> not_files (w_db v') = not_files (w_db v) \<and> (files_ok (w_db v) \<longrightarrow> files_ok (w_db v')) \<and> P
      \<Longrightarrow> svc_frame not_files files_ok fs_ok v v'" for v v' P
    by (auto intro: svc_frame_db)
  show ?thesis
    using assms fsv.Upload_frame [where bc = bc and url = url] fsv.Delete_frame [where url = url] conv [OF fsv.Get_frame [of bc url]]
      svc_frame_env [OF fsv.GetMeta_spec(1) [of url]]
    by (cases c) (auto simp: map_prod_def keeps_def split: prod.splits)
qed

lemma exec_paste_frame:
  assumes "exec bc url c w = (x, w')" and "on_pastes c"
  shows "svc_frame not_pastes pastes_ok fs_ok w w'"
proof -
  have conv: "same_but_db v v' \<and> not_pastes (w_db v') = not_pastes (w_db v) \<and> (pastes_ok (w_db v) \<longrightarrow> pastes_ok (w_db v')) \<and> P
      \<Longrightarrow> svc_frame not_pastes pastes_ok fs_ok v v'" for v v' P
    by (auto intro: svc_frame_db)
  show ?thesis
    using assms psv.Create_frame [where bc = bc and url = url] psv.Delete_frame [where url = url] conv [OF psv.Get_frame [of bc url]]
    by (cases c) (auto simp: map_prod_def keeps_def split: prod.splits)
qed

lemma exec_bucket_frame:
  assumes "exec bc url c w = (x, w')" and "on_buckets c" and "buckets_ok (w_db w)"
  shows "svc_frame not_buckets buckets_ok fs_ok w w'"
proof -
  have conv: "same_but_db v v' \<and> not_buckets (w_db v') = not_buckets (w_db v) \<and> buckets_ok (w_db v') \<and> P
      \<Longrightarrow> svc_frame not_buckets buckets_ok fs_ok v v'" for v v' P
    by (auto intro: svc_frame_db)
  show ?thesis
    using assms bsv.Create_frame [where bc = bc and url = url] bsv.Delete_frame [where url = url] conv [OF bsv.StreamZIP_spec [of bc url]]
      svc_frame_env [OF bsv.GetMeta_spec(1) [of bc url]] svc_frame_env [OF bsv.GetFile_spec(1) [of bc url]]
    by (cases c) (auto simp: map_prod_def keeps_def split: prod.splits)
qed

section \<open>A sweep\<close>

abbreviation expired_files :: "world \<Rightarrow> string set" where
  "expired_files w \<equiv> expired_keys f_ExpiresAt (file_view (w_db w)) (w_now w)"

abbreviation expired_buckets :: "world \<Rightarrow> string set" where
  "expired_buckets w \<equiv> expired_keys b_ExpiresAt (bucket_view (w_db w)) (w_now w)"

abbreviation expired_pastes :: "world \<Rightarrow> string set" where
  "expired_pastes w \<equiv> expired_keys p_ExpiresAt (paste_view (w_db w)) (w_now w)"

definition expired_bytes :: "world \<Rightarrow> string set" where
  "expired_bytes w = expired_files w \<union>
     \<Union> {bucket_keys b | b s. s \<in> expired_buckets w \<and> bucket_view (w_db w) s = Some b}"

text \<open>The keys of every entity are ones the file store accepts.\<close>

definition keys_ok :: "db \<Rightarrow> bool" where
  "keys_ok d \<longleftrightarrow> (\<forall>s \<in> dom (file_view d). validKey s) \<and>
     (\<forall>b \<in> ran (bucket_view d). \<forall>k \<in> bucket_keys b. validKey k)"

lemma svc_frame_sys_ok:
  "svc_frame not_files files_ok fs_ok w w' \<Longrightarrow> sys_ok w \<Longrightarrow> sys_ok w'"
  "svc_frame not_pastes pastes_ok fs_ok w w' \<Longrightarrow> sys_ok w \<Longrightarrow> sys_ok w'"
  "svc_frame not_buckets buckets_ok fs_ok w w' \<Longrightarrow> sys_ok w \<Longrightarrow> sys_ok w'"
  using other_tables [of "w_db w'" "w_db w"] by (auto simp: sys_ok_def svc_frame_def)

lemma sweep_effect:
  assumes sw: "sweep program_cleanup w = ((nf, nb, np), w')" and ok: "sys_ok w"
  obtains Df Db Dp K where "sys_ok w'" "w_now w' = w_now w" "all_calm w \<Longrightarrow> all_calm w'"
    "Df \<subseteq> expired_files w" "Db \<subseteq> expired_buckets w" "Dp \<subseteq> expired_pastes w" "K \<subseteq> expired_bytes w"
    "file_view (w_db w') = file_view (w_db w) |` (- Df)"
    "file_used (w_db w') = (\<lambda>s. s \<notin> Df \<and> file_used (w_db w) s)"
    "bucket_view (w_db w') = bucket_view (w_db w) |` (- Db)"
    "bucket_used (w_db w') = (\<lambda>s. s \<notin> Db \<and> bucket_used (w_db w) s)"
    "paste_view (w_db w') = paste_view (w_db w) |` (- Dp)"
    "paste_used (w_db w') = (\<lambda>s. s \<notin> Dp \<and> paste_used (w_db w) s)"
    "fs_content (w_fs w') = fs_content (w_fs w) |` (- K)"
    "all_calm w \<Longrightarrow> keys_ok (w_db w) \<Longrightarrow> Df = expired_files w \<and> Db = expired_buckets w \<and> Dp = expired_pastes w \<and>
       K = expired_bytes w \<and> nf = card (expired_files w) \<and> nb = card (expired_buckets w) \<and>
       np = card (expired_pastes w)"
proof -
  from sw obtain w1 w2 where 1: "sweepFiles program_cleanup w = (nf, w1)"
    and 2: "sweepBuckets program_cleanup w1 = (nb, w2)" and 3: "sweepPastes program_cleanup w2 = (np, w')"
    by (auto simp: sweep_def split: prod.splits)
  have oks: "files_ok (w_db w)" "buckets_ok (w_db w)" "pastes_ok (w_db w)" using ok by (simp_all add: sys_ok_def)
  from fsv.sweepFiles_spec [OF 1 _ _ oks(1)] obtain Df Kf where f: "svc_frame not_files files_ok fs_ok w w1"
    "Df \<subseteq> expired_files w" "Kf \<subseteq> expired_files w" "file_view (w_db w1) = file_view (w_db w) |` (- Df)"
    "fs_content (w_fs w1) = fs_content (w_fs w) |` (- Kf)"
    "file_used (w_db w1) = (\<lambda>s. s \<notin> Df \<and> file_used (w_db w) s)"
    "all_calm w \<and> (\<forall>s \<in> dom (file_view (w_db w)). validKey s) \<longrightarrow>
       Df = expired_files w \<and> Kf = expired_files w \<and> nf = card (expired_files w)" by auto
  note t1 = other_tables(1) [of "w_db w1" "w_db w"]
  have fr1: "w_now w1 = w_now w" "all_calm w \<Longrightarrow> all_calm w1" "not_files (w_db w1) = not_files (w_db w)"
    using f(1) by (simp_all add: svc_frame_def)
  let ?KB = "\<Union> {bucket_keys b | b s. s \<in> expired_buckets w \<and> bucket_view (w_db w) s = Some b}"
  have b1: "bucket_view (w_db w1) = bucket_view (w_db w)" "paste_view (w_db w1) = paste_view (w_db w)"
    "bucket_used (w_db w1) = bucket_used (w_db w)" "paste_used (w_db w1) = paste_used (w_db w)"
    and ok1: "buckets_ok (w_db w1)" using t1 fr1(3) oks by simp_all
  from bsv.sweepBuckets_spec [OF 2 _ _ ok1] obtain Db Kb where b: "svc_frame not_buckets buckets_ok fs_ok w1 w2"
    "Db \<subseteq> expired_buckets w" "Kb \<subseteq> ?KB" "bucket_view (w_db w2) = bucket_view (w_db w) |` (- Db)"
    "fs_content (w_fs w2) = fs_content (w_fs w1) |` (- Kb)"
    "bucket_used (w_db w2) = (\<lambda>s. s \<notin> Db \<and> bucket_used (w_db w) s)"
    "all_calm w1 \<and> (\<forall>b \<in> ran (bucket_view (w_db w)). \<forall>k \<in> bucket_keys b. validKey k) \<longrightarrow>
       Db = expired_buckets w \<and> Kb = ?KB \<and> nb = card (expired_buckets w)"
    unfolding b1 fr1(1) program_cleanup_sel by blast
  note t2 = other_tables(3) [of "w_db w2" "w_db w1"]
  have fr2: "w_now w2 = w_now w1" "all_calm w1 \<Longrightarrow> all_calm w2" "not_buckets (w_db w2) = not_buckets (w_db w1)"
    using b(1) by (simp_all add: svc_frame_def)
  have ok3: "pastes_ok (w_db w2)" and p2: "paste_view (w_db w2) = paste_view (w_db w)" "paste_used (w_db w2) = paste_used (w_db w)"
    "file_view (w_db w2) = file_view (w_db w1)" "file_used (w_db w2) = file_used (w_db w1)"
    using t1 t2 fr1(3) fr2(3) oks by simp_all
  from psv.sweepPastes_spec [OF 3 _ ok3] obtain Dp where p: "same_but_db w2 w'" "not_pastes (w_db w') = not_pastes (w_db w2)"
    "pastes_ok (w_db w')" "Dp \<subseteq> expired_pastes w" "paste_view (w_db w') = paste_view (w_db w) |` (- Dp)"
    "paste_used (w_db w') = (\<lambda>s. s \<notin> Dp \<and> paste_used (w_db w) s)"
    "all_calm w2 \<longrightarrow> Dp = expired_pastes w \<and> np = card (expired_pastes w)"
    unfolding p2 fr2(1) fr1(1) program_cleanup_sel by blast
  note t3 = other_tables(2) [OF p(2)] and fr3 = same_but_dbD [OF p(1)]
  have "sys_ok w'"
    using svc_frame_sys_ok(2) [OF svc_frame_db [OF conjI [OF p(1,2)]]] p(3)
      svc_frame_sys_ok(3) [OF b(1)] svc_frame_sys_ok(1) [OF f(1) ok] by blast
  moreover have "fs_content (w_fs w') = fs_content (w_fs w) |` (- (Kf \<union> Kb))"
    using f(5) b(5) fr3(3) by (simp add: restrict_restrict)
  moreover have "Kf \<union> Kb \<subseteq> expired_bytes w" using f(3) b(3) by (auto simp: expired_bytes_def)
  moreover have "Df = expired_files w \<and> Db = expired_buckets w \<and> Dp = expired_pastes w \<and> Kf \<union> Kb = expired_bytes w \<and>
      nf = card (expired_files w) \<and> nb = card (expired_buckets w) \<and> np = card (expired_pastes w)"
    if "all_calm w" "keys_ok (w_db w)"
    using that f(7) b(7) p(7) fr1(2) fr2(2) by (simp add: keys_ok_def expired_bytes_def)
  ultimately show thesis
    using f(2,4,6) b(2,4,6) p(4-6) t3 p2 fr1 fr2 fr3 by (intro that [of Df Db Dp "Kf \<union> Kb"]) simp_all
qed

section \<open>Runs\<close>

lemma exec_sys_ok:
  assumes "exec bc url c w = (x, w')" and ok: "sys_ok w"
  shows "sys_ok w'" and "w_now w \<le> w_now w'"
proof -
  have b: "buckets_ok (w_db w)" using ok by (simp add: sys_ok_def)
  consider "on_files c" | "on_pastes c" | "on_buckets c" | "c = Sweep" | d bs env where "c = Pass d bs env"
    by (cases c) auto
  then have "sys_ok w' \<and> w_now w \<le> w_now w'"
  proof cases
    case 1
    from exec_file_frame [OF assms(1) this] show ?thesis using svc_frame_sys_ok(1) [OF _ ok] by (simp add: svc_frame_def)
  next
    case 2
    from exec_paste_frame [OF assms(1) this] show ?thesis using svc_frame_sys_ok(2) [OF _ ok] by (simp add: svc_frame_def)
  next
    case 3
    from exec_bucket_frame [OF assms(1) this b] show ?thesis using svc_frame_sys_ok(3) [OF _ ok] by (simp add: svc_frame_def)
  next
    case 4
    obtain nf nb np v where sw: "sweep program_cleanup w = ((nf, nb, np), v)" by (metis prod.exhaust)
    with assms(1) 4 have "v = w'" by simp
    show ?thesis by (rule sweep_effect [OF sw [unfolded \<open>v = w'\<close>] ok]) simp
  next
    case 5
    with assms show ?thesis by (auto simp: sys_ok_def)
  qed
  then show "sys_ok w'" "w_now w \<le> w_now w'" by blast+
qed

lemma run_sys_ok:
  "run bc url cs w = (xs, w') \<Longrightarrow> sys_ok w \<Longrightarrow> sys_ok w' \<and> w_now w \<le> w_now w'"
proof (induction cs arbitrary: w xs)
  case (Cons c cs)
  then obtain x w1 ys where 1: "exec bc url c w = (x, w1)" and 2: "run bc url cs w1 = (ys, w')"
    by (auto split: prod.splits)
  from Cons.IH [OF 2] exec_sys_ok [OF 1 Cons.prems(2)] show ?case by simp
qed simp

text \<open>
  A creating call draws its slug from the random source; \<open>redraws s\<close>: one of the calls draws s.
  By chance alone that happens with probability 56 to the power of -12 per call.
\<close>

fun draws :: "call \<Rightarrow> world \<Rightarrow> string \<Rightarrow> bool" where
  "draws (FileUpload r) w s \<longleftrightarrow> fst (slug_io slugLength w) = Inr s"
| "draws (PasteCreate r) w s \<longleftrightarrow> fst (slug_io slugLength w) = Inr s"
| "draws (BucketCreate r) w s \<longleftrightarrow> fst (slug_io slugLength w) = Inr s"
| "draws c w s \<longleftrightarrow> False"

fun redraws :: "bcrypt \<Rightarrow> string \<Rightarrow> string \<Rightarrow> call list \<Rightarrow> world \<Rightarrow> bool" where
  "redraws bc url s [] w \<longleftrightarrow> False"
| "redraws bc url s (c # cs) w \<longleftrightarrow> draws c w s \<or> redraws bc url s cs (snd (exec bc url c w))"

text \<open>An entity that is not drawn anew only loses its mark's freshness or disappears.\<close>

definition evolves :: "(db \<Rightarrow> string \<Rightarrow> 'e option) \<Rightarrow> (db \<Rightarrow> string \<Rightarrow> bool) \<Rightarrow> string \<Rightarrow> db \<Rightarrow> db \<Rightarrow> bool" where
  "evolves view used s d d' \<longleftrightarrow> view d' s = None \<or> view d' s = view d s \<and> (used d s \<longrightarrow> used d' s)"

lemma evolves_refl: "view d' s = view d s \<Longrightarrow> used d' s = used d s \<Longrightarrow> evolves view used s d d'"
  by (simp add: evolves_def)

lemma evolves_trans: "evolves view used s d e \<Longrightarrow> evolves view used s e f \<Longrightarrow> evolves view used s d f"
  by (auto simp: evolves_def)

lemma evolves_restrict:
  "view d' = view d |` (- D) \<Longrightarrow> used d' = (\<lambda>s. s \<notin> D \<and> used d s) \<Longrightarrow> evolves view used s d d'"
  by (cases "s \<in> D") (simp_all add: evolves_def)

lemma sweep_evolves:
  assumes "exec bc url Sweep w = (x, w')" and "sys_ok w"
  shows "evolves file_view file_used s (w_db w) (w_db w')"
    and "evolves paste_view paste_used s (w_db w) (w_db w')"
    and "evolves bucket_view bucket_used s (w_db w) (w_db w')"
proof -
  obtain nf nb np v where sw: "sweep program_cleanup w = ((nf, nb, np), v)" by (metis prod.exhaust)
  with assms(1) have sw': "sweep program_cleanup w = ((nf, nb, np), w')" by simp
  have "evolves file_view file_used s (w_db w) (w_db w') \<and> evolves paste_view paste_used s (w_db w) (w_db w') \<and>
      evolves bucket_view bucket_used s (w_db w) (w_db w')"
    by (rule sweep_effect [OF sw' assms(2)]) (intro conjI evolves_restrict)
  then show "evolves file_view file_used s (w_db w) (w_db w')"
    "evolves paste_view paste_used s (w_db w) (w_db w')"
    "evolves bucket_view bucket_used s (w_db w) (w_db w')" by blast+
qed

lemma map_prod_eq: "map_prod F id p = (x, w') \<longleftrightarrow> (\<exists>r. p = (r, w') \<and> x = F r)"
  by (cases p) auto

lemma file_evolves:
  assumes "exec bc url c w = (x, w')" and ok: "sys_ok w" and bc: "bcrypt_ok bc" and "\<not> draws c w s"
  shows "evolves file_view file_used s (w_db w) (w_db w')"
proof -
  have dok: "files_ok (w_db w)" using ok by (simp add: sys_ok_def)
  show ?thesis
  proof (cases "on_pastes c \<or> on_buckets c")
    case True
    then show ?thesis
      using exec_paste_frame [OF assms(1)] exec_bucket_frame [OF assms(1)] ok
        other_tables(2,3) [of "w_db w'" "w_db w"] by (auto simp: sys_ok_def svc_frame_def evolves_def)
  next
    case False
    then show ?thesis
    proof (cases c)
      case (FileUpload req)
      with assms(1) obtain r where r: "File_Upload bc (fsv.svc url) req w = (r, w')" by (auto simp: map_prod_eq)
      show ?thesis
      proof (cases r)
        case (Inl e)
        with fsv.Upload_Inl [OF r [unfolded Inl] bc] show ?thesis by (simp add: evolves_def)
      next
        case (Inr res)
        from r [unfolded Inr] dok bc show ?thesis
        proof (cases rule: fsv.Upload_Inr)
          case (1 slug secret h d)
          moreover have "slug \<noteq> s" using assms(4) FileUpload 1(1) by auto
          ultimately show ?thesis by (simp add: evolves_def)
        qed
      qed
    next
      case (FileGet k pw)
      with assms(1) obtain r where r: "File_Get bc (fsv.svc url) k pw w = (r, w')" by (auto simp: map_prod_eq)
      from fsv.Get_frame [OF r] dok fr.used_view [of "w_db w" s] show ?thesis
        by (auto simp: evolves_def split: if_splits)
    next
      case (FileMeta k)
      with assms(1) obtain r where r: "File_GetMeta (fsv.svc url) k w = (r, w')" by (auto simp: map_prod_eq)
      from same_but_envD(2) [OF fsv.GetMeta_spec(1) [OF r]] show ?thesis by (simp add: evolves_def)
    next
      case (FileDelete k d)
      with assms(1) obtain r where r: "File_Delete (fsv.svc url) k d w = (r, w')" by (auto simp: map_prod_eq)
      from r dok show ?thesis
        by (cases rule: fsv.Delete_cases) (auto simp: evolves_def dest: same_but_envD(2))
    next
      case Sweep
      from sweep_evolves(1) [OF assms(1) [unfolded Sweep] ok] show ?thesis .
    qed (use assms in \<open>auto simp: evolves_def\<close>)
  qed
qed

lemma paste_evolves:
  assumes "exec bc url c w = (x, w')" and ok: "sys_ok w" and bc: "bcrypt_ok bc" and "\<not> draws c w s"
  shows "evolves paste_view paste_used s (w_db w) (w_db w')"
proof -
  have dok: "pastes_ok (w_db w)" using ok by (simp add: sys_ok_def)
  show ?thesis
  proof (cases "on_files c \<or> on_buckets c")
    case True
    then show ?thesis
      using exec_file_frame [OF assms(1)] exec_bucket_frame [OF assms(1)] ok
        other_tables(1,3) [of "w_db w'" "w_db w"] by (auto simp: sys_ok_def svc_frame_def evolves_def)
  next
    case False
    then show ?thesis
    proof (cases c)
      case (PasteCreate req)
      with assms(1) obtain r where r: "Paste_Create bc (psv.svc url) req w = (r, w')" by (auto simp: map_prod_eq)
      from r dok bc show ?thesis
      proof (cases rule: psv.Create_cases)
        case (created slug secret h d)
        moreover have "slug \<noteq> s" using assms(4) PasteCreate created(1) by auto
        ultimately show ?thesis by (simp add: evolves_def)
      qed (simp add: evolves_def)
    next
      case (PasteGet k pw)
      with assms(1) obtain r where r: "Paste_Get bc (psv.svc url) k pw w = (r, w')" by (auto simp: map_prod_eq)
      from psv.Get_frame [OF r] dok pr.used_view [of "w_db w" s] show ?thesis
        by (auto simp: evolves_def split: if_splits)
    next
      case (PasteDelete k d)
      with assms(1) obtain r where r: "Paste_Delete (psv.svc url) k d w = (r, w')" by (auto simp: map_prod_eq)
      from r dok show ?thesis
        by (cases rule: psv.Delete_cases) (auto simp: evolves_def)
    next
      case Sweep
      from sweep_evolves(2) [OF assms(1) [unfolded Sweep] ok] show ?thesis .
    qed (use assms in \<open>auto simp: evolves_def\<close>)
  qed
qed

lemma bucket_evolves:
  assumes "exec bc url c w = (x, w')" and ok: "sys_ok w" and bc: "bcrypt_ok bc" and "\<not> draws c w s"
  shows "evolves bucket_view bucket_used s (w_db w) (w_db w')"
proof -
  have dok: "buckets_ok (w_db w)" using ok by (simp add: sys_ok_def)
  show ?thesis
  proof (cases "on_files c \<or> on_pastes c")
    case True
    then show ?thesis
      using exec_file_frame [OF assms(1)] exec_paste_frame [OF assms(1)] ok
        other_tables(1,2) [of "w_db w'" "w_db w"] by (auto simp: sys_ok_def svc_frame_def evolves_def)
  next
    case False
    then show ?thesis
    proof (cases c)
      case (BucketCreate req)
      with assms(1) obtain r where r: "Bucket_Create bc (bsv.svc url) req w = (r, w')" by (auto simp: map_prod_eq)
      from r dok bc show ?thesis
      proof (cases rule: bsv.Create_cases)
        case (partial er slug secret h d stored ids n)
        moreover have "slug \<noteq> s" using assms(4) BucketCreate partial(4) by auto
        ultimately show ?thesis by (simp add: evolves_def)
      next
        case (created slug secret h d stored ids)
        moreover have "slug \<noteq> s" using assms(4) BucketCreate created(1) by auto
        ultimately show ?thesis by (simp add: evolves_def)
      qed (simp add: evolves_def)
    next
      case (BucketMeta k pw)
      with assms(1) obtain r where r: "Bucket_GetMeta bc (bsv.svc url) k pw w = (r, w')" by (auto simp: map_prod_eq)
      from same_but_envD(2) [OF bsv.GetMeta_spec(1) [OF r]] show ?thesis by (simp add: evolves_def)
    next
      case (BucketFile k key pw)
      with assms(1) obtain r where r: "Bucket_GetFile bc (bsv.svc url) k key pw w = (r, w')" by (auto simp: map_prod_eq)
      from same_but_envD(2) [OF bsv.GetFile_spec(1) [OF r]] show ?thesis by (simp add: evolves_def)
    next
      case (BucketZIP k pw)
      with assms(1) obtain r z where r: "Bucket_StreamZIP bc (bsv.svc url) k pw empty_response w = ((r, z), w')"
        by (auto simp: map_prod_eq)
      from bsv.StreamZIP_spec [OF r dok] show ?thesis
        by (auto simp: evolves_def split: if_splits)
    next
      case (BucketDelete k d)
      with assms(1) obtain r where r: "Bucket_Delete (bsv.svc url) k d w = (r, w')" by (auto simp: map_prod_eq)
      from r show ?thesis
        by (cases rule: bsv.Delete_cases) (auto simp: evolves_def)
    next
      case Sweep
      from sweep_evolves(3) [OF assms(1) [unfolded Sweep] ok] show ?thesis .
    qed (use assms in \<open>auto simp: evolves_def\<close>)
  qed
qed

lemma run_evolves:
  assumes "run bc url cs w = (xs, w')" and "sys_ok w" and "bcrypt_ok bc" and "\<not> redraws bc url s cs w"
  shows "evolves file_view file_used s (w_db w) (w_db w')"
    and "evolves paste_view paste_used s (w_db w) (w_db w')"
    and "evolves bucket_view bucket_used s (w_db w) (w_db w')"
proof -
  have "evolves file_view file_used s (w_db w) (w_db w') \<and> evolves paste_view paste_used s (w_db w) (w_db w') \<and>
      evolves bucket_view bucket_used s (w_db w) (w_db w')"
    using assms(1,2,4)
  proof (induction cs arbitrary: w xs)
    case (Cons c cs)
    then obtain x w1 ys where 1: "exec bc url c w = (x, w1)" and 2: "run bc url cs w1 = (ys, w')"
      by (auto split: prod.splits)
    from Cons.prems 1 have nd: "\<not> draws c w s" and "\<not> redraws bc url s cs w1" by simp_all
    with Cons.IH [OF 2] exec_sys_ok [OF 1] Cons.prems file_evolves [OF 1 _ assms(3) nd]
      paste_evolves [OF 1 _ assms(3) nd] bucket_evolves [OF 1 _ assms(3) nd]
    show ?case by (auto intro: evolves_trans)
  qed (simp add: evolves_def)
  then show "evolves file_view file_used s (w_db w) (w_db w')"
    "evolves paste_view paste_used s (w_db w) (w_db w')" "evolves bucket_view bucket_used s (w_db w) (w_db w')"
    by blast+
qed

text \<open>Nobody but its owner or its expiry removes an entity.\<close>

lemma expired_keysD:
  assumes "s \<in> expired_keys expires view now" and "view s = Some e"
    and seconds: "\<And>i. expires e = Some i \<Longrightarrow> time_Unix (unix i) = i"
  shows "is_expired now (expires e)"
proof -
  from assms(1,2) obtain t where t: "expires e = Some t" "unix t < unix now" by (auto simp: expired_keys_def)
  from unix_less_time_Unix [OF t(2)] seconds [OF t(1)] t(1) show ?thesis
    by (simp add: is_expired_def time_After_def)
qed

fun deletes :: "string \<Rightarrow> call \<Rightarrow> bool" where
  "deletes s (FileDelete k d) \<longleftrightarrow> k = s" | "deletes s (PasteDelete k d) \<longleftrightarrow> k = s"
| "deletes s (BucketDelete k d) \<longleftrightarrow> k = s" | "deletes s c \<longleftrightarrow> False"

lemma sweep_keeps:
  assumes "exec bc url Sweep w = (x, w')" and "sys_ok w"
  shows "s \<notin> expired_files w \<Longrightarrow> file_view (w_db w') s = file_view (w_db w) s"
    and "s \<notin> expired_pastes w \<Longrightarrow> paste_view (w_db w') s = paste_view (w_db w) s"
    and "s \<notin> expired_buckets w \<Longrightarrow> bucket_view (w_db w') s = bucket_view (w_db w) s"
    and "fs_content (w_fs w') k \<noteq> fs_content (w_fs w) k \<Longrightarrow> k \<in> expired_bytes w \<and> fs_content (w_fs w') k = None"
proof -
  obtain nf nb np v where sw: "sweep program_cleanup w = ((nf, nb, np), v)" by (metis prod.exhaust)
  with assms(1) have sw': "sweep program_cleanup w = ((nf, nb, np), w')" by simp
  have "(s \<notin> expired_files w \<longrightarrow> file_view (w_db w') s = file_view (w_db w) s) \<and>
    (s \<notin> expired_pastes w \<longrightarrow> paste_view (w_db w') s = paste_view (w_db w) s) \<and>
    (s \<notin> expired_buckets w \<longrightarrow> bucket_view (w_db w') s = bucket_view (w_db w) s) \<and>
    (fs_content (w_fs w') k \<noteq> fs_content (w_fs w) k \<longrightarrow> k \<in> expired_bytes w \<and> fs_content (w_fs w') k = None)"
    by (rule sweep_effect [OF sw' assms(2)]) (auto simp: restrict_map_def)
  then show "s \<notin> expired_files w \<Longrightarrow> file_view (w_db w') s = file_view (w_db w) s"
    "s \<notin> expired_pastes w \<Longrightarrow> paste_view (w_db w') s = paste_view (w_db w) s"
    "s \<notin> expired_buckets w \<Longrightarrow> bucket_view (w_db w') s = bucket_view (w_db w) s"
    "fs_content (w_fs w') k \<noteq> fs_content (w_fs w) k \<Longrightarrow> k \<in> expired_bytes w \<and> fs_content (w_fs w') k = None"
    by blast+
qed

lemma file_survives:
  assumes e: "exec bc url c w = (x, w')" and ok: "sys_ok w" and bc: "bcrypt_ok bc" and "\<not> deletes s c"
    and v: "file_view (w_db w) s = Some f" and live: "\<not> is_expired (w_now w') (f_ExpiresAt f)"
  shows "file_view (w_db w') s = Some f"
proof (cases "c = Sweep")
  case True
  have "s \<notin> expired_files w"
    using expired_keysD [of s f_ExpiresAt "file_view (w_db w)" "w_now w" f, OF _ v fr.view_seconds [OF v]]
      is_expired_mono exec_sys_ok(2) [OF e ok] live by blast
  with sweep_keeps(1) [OF e [unfolded True] ok] v show ?thesis by simp
next
  case False
  have dok: "files_ok (w_db w)" using ok by (simp add: sys_ok_def)
  show ?thesis
  proof (cases c)
    case (FileUpload req)
    with e obtain r where r: "File_Upload bc (fsv.svc url) req w = (r, w')" by (auto simp: map_prod_eq)
    show ?thesis
    proof (cases r)
      case (Inl er)
      with fsv.Upload_Inl [OF r [unfolded Inl] bc] v show ?thesis by simp
    next
      case (Inr res)
      from r [unfolded Inr] dok bc show ?thesis
        by (cases rule: fsv.Upload_Inr) (use v in auto)
    qed
  next
    case (FileGet k pw)
    with e obtain r where r: "File_Get bc (fsv.svc url) k pw w = (r, w')" by (auto simp: map_prod_eq)
    from fsv.Get_frame [OF r] v show ?thesis by simp
  next
    case (FileMeta k)
    with e obtain r where r: "File_GetMeta (fsv.svc url) k w = (r, w')" by (auto simp: map_prod_eq)
    from same_but_envD(2) [OF fsv.GetMeta_spec(1) [OF r]] v show ?thesis by simp
  next
    case (FileDelete k d)
    with e obtain r where r: "File_Delete (fsv.svc url) k d w = (r, w')" by (auto simp: map_prod_eq)
    from r dok show ?thesis
      by (cases rule: fsv.Delete_cases) (use v assms(4) FileDelete in \<open>auto dest: same_but_envD(2)\<close>)
  qed (use False v e exec_paste_frame [OF e] exec_bucket_frame [OF e] ok other_tables(2,3) [of "w_db w'" "w_db w"]
      in \<open>auto simp: sys_ok_def svc_frame_def simp del: exec.simps(5-12)\<close>)
qed

lemma paste_survives:
  assumes e: "exec bc url c w = (x, w')" and ok: "sys_ok w" and bc: "bcrypt_ok bc" and "\<not> deletes s c"
    and v: "paste_view (w_db w) s = Some p" and live: "\<not> is_expired (w_now w') (p_ExpiresAt p)"
  shows "paste_view (w_db w') s = Some p"
proof (cases "c = Sweep")
  case True
  have "s \<notin> expired_pastes w"
    using expired_keysD [of s p_ExpiresAt "paste_view (w_db w)" "w_now w" p, OF _ v pr.view_seconds [OF v]]
      is_expired_mono exec_sys_ok(2) [OF e ok] live by blast
  with sweep_keeps(2) [OF e [unfolded True] ok] v show ?thesis by simp
next
  case False
  have dok: "pastes_ok (w_db w)" using ok by (simp add: sys_ok_def)
  show ?thesis
  proof (cases c)
    case (PasteCreate req)
    with e obtain r where r: "Paste_Create bc (psv.svc url) req w = (r, w')" by (auto simp: map_prod_eq)
    from r dok bc show ?thesis
      by (cases rule: psv.Create_cases) (use v in auto)
  next
    case (PasteGet k pw)
    with e obtain r where r: "Paste_Get bc (psv.svc url) k pw w = (r, w')" by (auto simp: map_prod_eq)
    from psv.Get_frame [OF r] v show ?thesis by simp
  next
    case (PasteDelete k d)
    with e obtain r where r: "Paste_Delete (psv.svc url) k d w = (r, w')" by (auto simp: map_prod_eq)
    from r dok show ?thesis
      by (cases rule: psv.Delete_cases) (use v assms(4) PasteDelete in auto)
  qed (use False v e exec_file_frame [OF e] exec_bucket_frame [OF e] ok other_tables(1,3) [of "w_db w'" "w_db w"]
      in \<open>auto simp: sys_ok_def svc_frame_def simp del: exec.simps(1-4) exec.simps(8-12)\<close>)
qed

lemma bucket_survives:
  assumes e: "exec bc url c w = (x, w')" and ok: "sys_ok w" and bc: "bcrypt_ok bc" and "\<not> deletes s c"
    and v: "bucket_view (w_db w) s = Some b" and live: "\<not> is_expired (w_now w') (b_ExpiresAt b)"
  shows "bucket_view (w_db w') s = Some b"
proof (cases "c = Sweep")
  case True
  have "s \<notin> expired_buckets w"
    using expired_keysD [of s b_ExpiresAt "bucket_view (w_db w)" "w_now w" b, OF _ v br.view_seconds [OF v]]
      is_expired_mono exec_sys_ok(2) [OF e ok] live by blast
  with sweep_keeps(3) [OF e [unfolded True] ok] v show ?thesis by simp
next
  case False
  have dok: "buckets_ok (w_db w)" using ok by (simp add: sys_ok_def)
  show ?thesis
  proof (cases c)
    case (BucketCreate req)
    with e obtain r where r: "Bucket_Create bc (bsv.svc url) req w = (r, w')" by (auto simp: map_prod_eq)
    from r dok bc show ?thesis
      by (cases rule: bsv.Create_cases) (use v in auto)
  next
    case (BucketMeta k pw)
    with e obtain r where r: "Bucket_GetMeta bc (bsv.svc url) k pw w = (r, w')" by (auto simp: map_prod_eq)
    from same_but_envD(2) [OF bsv.GetMeta_spec(1) [OF r]] v show ?thesis by simp
  next
    case (BucketFile k key pw)
    with e obtain r where r: "Bucket_GetFile bc (bsv.svc url) k key pw w = (r, w')" by (auto simp: map_prod_eq)
    from same_but_envD(2) [OF bsv.GetFile_spec(1) [OF r]] v show ?thesis by simp
  next
    case (BucketZIP k pw)
    with e obtain r z where r: "Bucket_StreamZIP bc (bsv.svc url) k pw empty_response w = ((r, z), w')"
      by (auto simp: map_prod_eq)
    from bsv.StreamZIP_spec [OF r dok] v show ?thesis by simp
  next
    case (BucketDelete k d)
    with e obtain r where r: "Bucket_Delete (bsv.svc url) k d w = (r, w')" by (auto simp: map_prod_eq)
    from r show ?thesis
      by (cases rule: bsv.Delete_cases) (use v assms(4) BucketDelete in auto)
  qed (use False v e exec_file_frame [OF e] exec_paste_frame [OF e] other_tables(1,2) [of "w_db w'" "w_db w"]
      in \<open>auto simp: sys_ok_def svc_frame_def simp del: exec.simps(1-7)\<close>)
qed

text \<open>The same over a run in which nobody deletes s.\<close>

lemma run_survives:
  assumes "run bc url cs w = (xs, w')" and "sys_ok w" and "bcrypt_ok bc" and "list_all (\<lambda>c. \<not> deletes s c) cs"
  shows "file_view (w_db w) s = Some f \<Longrightarrow> \<not> is_expired (w_now w') (f_ExpiresAt f) \<Longrightarrow> file_view (w_db w') s = Some f"
    and "paste_view (w_db w) s = Some p \<Longrightarrow> \<not> is_expired (w_now w') (p_ExpiresAt p) \<Longrightarrow> paste_view (w_db w') s = Some p"
    and "bucket_view (w_db w) s = Some b \<Longrightarrow> \<not> is_expired (w_now w') (b_ExpiresAt b) \<Longrightarrow> bucket_view (w_db w') s = Some b"
proof -
  have "(file_view (w_db w) s = Some f \<longrightarrow> \<not> is_expired (w_now w') (f_ExpiresAt f) \<longrightarrow> file_view (w_db w') s = Some f) \<and>
    (paste_view (w_db w) s = Some p \<longrightarrow> \<not> is_expired (w_now w') (p_ExpiresAt p) \<longrightarrow> paste_view (w_db w') s = Some p) \<and>
    (bucket_view (w_db w) s = Some b \<longrightarrow> \<not> is_expired (w_now w') (b_ExpiresAt b) \<longrightarrow> bucket_view (w_db w') s = Some b)"
    using assms(1,2,4)
  proof (induction cs arbitrary: w xs)
    case (Cons c cs)
    then obtain x w1 ys where 1: "exec bc url c w = (x, w1)" and 2: "run bc url cs w1 = (ys, w')"
      by (auto split: prod.splits)
    have nd: "\<not> deletes s c" and nds: "list_all (\<lambda>c. \<not> deletes s c) cs" using Cons.prems(3) by simp_all
    note ok1 = exec_sys_ok(1) [OF 1 Cons.prems(2)]
    have le: "w_now w1 \<le> w_now w'" using run_sys_ok [OF 2 ok1] by blast
    have live: "\<not> is_expired (w_now w') t \<Longrightarrow> \<not> is_expired (w_now w1) t" for t
      using is_expired_mono [OF _ le] by blast
    show ?case
      using Cons.IH [OF 2 ok1 nds] file_survives [OF 1 Cons.prems(2) assms(3) nd]
        paste_survives [OF 1 Cons.prems(2) assms(3) nd] bucket_survives [OF 1 Cons.prems(2) assms(3) nd] live by blast
  qed simp
  then show "file_view (w_db w) s = Some f \<Longrightarrow> \<not> is_expired (w_now w') (f_ExpiresAt f) \<Longrightarrow> file_view (w_db w') s = Some f"
    "paste_view (w_db w) s = Some p \<Longrightarrow> \<not> is_expired (w_now w') (p_ExpiresAt p) \<Longrightarrow> paste_view (w_db w') s = Some p"
    "bucket_view (w_db w) s = Some b \<Longrightarrow> \<not> is_expired (w_now w') (b_ExpiresAt b) \<Longrightarrow> bucket_view (w_db w') s = Some b"
    by blast+
qed

section \<open>Every key is one the store accepts\<close>

lemma validKey_charset: "set k \<subseteq> set charset \<Longrightarrow> length k = 12 \<Longrightarrow> validKey k"
  using charset_alnum by (auto simp: validKey_def list_all_iff)

lemma draws_valid: "draws c w s \<Longrightarrow> validKey s"
  using slug_io_ok by (cases c; cases "slug_io slugLength w"; fastforce simp: validKey_def)

lemma with_files_keys:
  assumes "list_all2 (stores slug) stored fis" and "length ids = n"
    and "k \<in> bucket_keys (with_files (created_bucket req slug secret h t) ids (take n stored))"
  shows "validKey k"
proof -
  from assms(3) obtain sf i where "sf \<in> set (take n stored)" and k: "k = bf_StorageKey (sf_bf sf)"
    by (auto simp: bucket_keys_def created_bucket_def dest: set_zip_rightD)
  then have "sf \<in> set stored" by (auto dest: in_set_takeD)
  with assms(1) obtain fi where "stores slug sf fi"
    by (auto simp: list_all2_conv_all_nth in_set_conv_nth)
  with k show ?thesis unfolding stores_def by (metis stored_entry_sel(3) validKey_charset)
qed

lemma exec_keys_ok:
  assumes e: "exec bc url c w = (x, w')" and ok: "sys_ok w" and bc: "bcrypt_ok bc" and k: "keys_ok (w_db w)"
  shows "keys_ok (w_db w')"
proof -
  have f: "validKey s" if s: "s \<in> dom (file_view (w_db w'))" for s
  proof (cases "draws c w s")
    case False
    with file_evolves [OF e ok bc False] s have "s \<in> dom (file_view (w_db w))" by (auto simp: evolves_def)
    with k show ?thesis by (simp add: keys_ok_def)
  qed (rule draws_valid)
  have b: "validKey key" if b: "bucket_view (w_db w') s = Some b" "key \<in> bucket_keys b" for s b key
  proof (cases "bucket_view (w_db w') s = bucket_view (w_db w) s")
    case True
    with b k show ?thesis by (auto simp: keys_ok_def ran_def)
  next
    case False
    with b(1) bucket_evolves [OF e ok bc, of s] have d: "draws c w s" by (auto simp: evolves_def)
    show ?thesis
    proof (cases c)
      case (BucketCreate req)
      with e obtain r where r: "Bucket_Create bc (bsv.svc url) req w = (r, w')" by (auto simp: map_prod_eq)
      have dok: "buckets_ok (w_db w)" using ok by (simp add: sys_ok_def)
      from r dok bc show ?thesis
      proof (cases rule: bsv.Create_cases)
        case (partial er slug secret h d stored ids n)
        with b False with_files_keys [OF partial(8,7)] show ?thesis by (auto split: if_splits)
      next
        case (created slug secret h d stored ids)
        with b False with_files_keys [OF created(10,9)] show ?thesis by (auto split: if_splits)
      qed (use False in simp)
    next
      case (FileUpload r)
      with False exec_file_frame [OF e] other_tables(1) [of "w_db w'" "w_db w"] show ?thesis
        by (simp add: svc_frame_def del: exec.simps)
    next
      case (PasteCreate r)
      with False exec_paste_frame [OF e] other_tables(2) [of "w_db w'" "w_db w"] show ?thesis
        by (simp add: svc_frame_def del: exec.simps)
    qed (use d in simp_all)
  qed
  from f b show ?thesis by (auto simp: keys_ok_def ran_def)
qed

lemma run_keys_ok:
  "run bc url cs w = (xs, w') \<Longrightarrow> sys_ok w \<Longrightarrow> bcrypt_ok bc \<Longrightarrow> keys_ok (w_db w) \<Longrightarrow> keys_ok (w_db w')"
proof (induction cs arbitrary: w xs)
  case (Cons c cs)
  then obtain x w1 ys where 1: "exec bc url c w = (x, w1)" and 2: "run bc url cs w1 = (ys, w')"
    by (auto split: prod.splits)
  from Cons.IH [OF 2 exec_sys_ok(1) [OF 1 Cons.prems(2)] Cons.prems(3)]
    exec_keys_ok [OF 1 Cons.prems(2-4)] show ?case by simp
qed simp

lemma keys_ok_initial: "keys_ok (w_db initial)"
proof -
  have "file_view (w_db initial) = Map.empty" "bucket_view (w_db initial) = Map.empty"
    by (simp_all add: fun_eq_iff initial_def file_view_def bucket_view_def tbl_select_def)
  then show ?thesis by (simp add: keys_ok_def)
qed

section \<open>The facts of the three services on the program's store and tables\<close>

lemmas File_Upload_Inr = fsv.Upload_Inr [unfolded services_unfold, consumes 3, case_names uploaded]
lemmas File_Upload_Inl = fsv.Upload_Inl [unfolded services_unfold]
lemmas File_Upload_disconnect = fsv.Upload_disconnect [unfolded services_unfold]
lemmas File_Upload_calm = fsv.Upload_calm [unfolded services_unfold]
lemmas File_Get_Inr = fsv.Get_Inr [unfolded services_unfold]
lemmas File_Get_Inl = fsv.Get_Inl [unfolded services_unfold]
lemmas File_Get_frame = fsv.Get_frame [unfolded services_unfold]
lemmas File_Get_calm = fsv.Get_calm [unfolded services_unfold]
lemmas File_GetMeta_calm = fsv.GetMeta_calm [unfolded services_unfold]
lemmas File_GetMeta_spec = fsv.GetMeta_spec [unfolded services_unfold]
lemmas File_GetMeta_decides = fsv.GetMeta_decides [unfolded services_unfold]
lemmas File_Delete_cases = fsv.Delete_cases [unfolded services_unfold, consumes 2, case_names refused bytes_stay row_stays deleted]
lemmas File_Delete_calm = fsv.Delete_calm [unfolded services_unfold]
lemmas Paste_Create_cases = psv.Create_cases [unfolded services_unfold, consumes 3, case_names failed created]
lemmas Paste_Get_Inr = psv.Get_Inr [unfolded services_unfold]
lemmas Paste_Get_Inl = psv.Get_Inl [unfolded services_unfold]
lemmas Paste_Get_frame = psv.Get_frame [unfolded services_unfold]
lemmas Paste_Get_calm = psv.Get_calm [unfolded services_unfold]
lemmas Paste_Delete_cases = psv.Delete_cases [unfolded services_unfold, consumes 2, case_names refused deleted]
lemmas Bucket_Create_cases = bsv.Create_cases [unfolded services_unfold, consumes 3, case_names failed partial created]
lemmas Bucket_GetMeta_spec = bsv.GetMeta_spec [unfolded services_unfold]
lemmas Bucket_GetFile_spec = bsv.GetFile_spec [unfolded services_unfold]
lemmas Bucket_StreamZIP_spec = bsv.StreamZIP_spec [unfolded services_unfold]
lemmas Bucket_StreamZIP_calm = bsv.StreamZIP_calm [unfolded services_unfold]
lemmas Bucket_Delete_cases = bsv.Delete_cases [unfolded services_unfold, consumes 1, case_names refused row_stays deleted]
lemmas bucket_open_calm = bsv.open_calm [unfolded services_unfold]
lemmas bucket_open_spec = bsv.open_spec [unfolded services_unfold]

text \<open>An archive is only begun for a bucket that is live, with a password that opens it.\<close>

lemma zip_started:
  assumes "Bucket_StreamZIP bc (bucketService url) s pw zr w = ((r, zr'), w')" and "zr' \<noteq> zr"
  shows "\<exists>b. bucket_view (w_db w) s = Some b \<and> bucket_access bc (w_now w) pw b = Inr ()"
proof -
  obtain y w1 where o: "bucket_open bc (bucketService url) ''bucket service stream zip: lookup'' s pw w = (y, w1)"
    by (rule prod.exhaust)
  with assms obtain b where "y = Inr b" by (cases y) (auto simp: Bucket_StreamZIP_def)
  with bucket_open_spec(2) [OF o] show ?thesis by blast
qed

text \<open>What was uploaded comes back, up to one second before the end of the preset.\<close>

lemma file_round_trip:
  assumes "bcrypt_ok bc" and "sys_ok w"
    and up: "File_Upload bc (fileService url) req w = (Inr res, w1)"
    and x: "map_of file_validExpiries (fu_Expiry req) = Some d"
    and t: "d = 0 \<or> t \<le> w_now w + d - second"
    and w2: "w_now w2 = t" "w_db w2 = w_db w1" "w_fs w2 = w_fs w1" "all_calm w2"
  shows "\<exists>g. fst (File_Get bc (fileService url) (fur_Slug res) (fu_Password req) w2) = Inr g \<and>
    fg_Content g = rd_data (fu_Content req) \<and> f_Filename (fg_F g) = fu_Filename req \<and>
    f_MimeType (fg_F g) = fu_MimeType req \<and> f_Size (fg_F g) = fu_Size req \<and>
    fg_ExpiresAt g = map_option to_second (fur_ExpiresAt res) \<and> fg_IsImage g = fur_IsImage res"
proof -
  have dok: "files_ok (w_db w)" using assms(2) by (simp add: sys_ok_def)
  from up dok assms(1) show ?thesis
  proof (cases rule: File_Upload_Inr)
    case (uploaded slug secret h d')
    have d: "d' = d" using uploaded(7) x by simp
    have "\<not> is_expired t (map_option to_second (expiry_instant d (w_now w)))"
      using t is_expired_stored(2) [of d t "w_now w"] is_expired_never [of t "w_now w"] file_preset_range [OF x]
      by (cases "d = 0") auto
    moreover have "files_ok (w_db w2)"
      using w2 uploaded(10) fsv.Upload_frame [of bc url req] up dok by (simp add: keeps_def svc_frame_def)
    moreover have "validKey slug" using validKey_charset uploaded(2,3) by blast
    ultimately show ?thesis
      using uploaded w2 d File_Get_calm [of w2 slug bc url "fu_Password req"]
      by (simp add: file_access_def uploaded_file_def File_result_def)
  qed
qed

end
