(* ===== verification/Bucket_Handler.thy ===== *)
theory Bucket_Handler
  imports File_Handler System
begin

text \<open>
  Package internal/handler, bucket.go: the BucketHandler over the BucketService interface.
  StreamZIP gets the response writer itself; here it fills a response of its own, which the
  handler then plays on the writer: headers and archive if the service got past its checks, and
  nothing otherwise.
\<close>

section \<open>The code\<close>

record bucket_handler =
  bh_Create :: "bucket_CreateRequest \<Rightarrow> bucket_CreateResult io"
  bh_GetMeta :: "string \<Rightarrow> string \<Rightarrow> bucket_GetResult io"
  bh_GetFile :: "string \<Rightarrow> string \<Rightarrow> string \<Rightarrow> (bucket_file_ent \<times> bytes) io"
  bh_StreamZIP :: "string \<Rightarrow> string \<Rightarrow> zip_response \<Rightarrow> world \<Rightarrow> (unit result \<times> zip_response) \<times> world"
  bh_Delete :: "string \<Rightarrow> string \<Rightarrow> unit io"
  bh_maxUploadBytes :: int
  bh_IsPrint :: "string \<Rightarrow> bool"

definition json_file :: "bucket_FileInfo \<Rightarrow> json" where
  "json_file i = JObject [(''filename'', JString (fin_Filename i)), (''size'', JInt (fin_Size i)),
     (''mime_type'', JString (fin_MimeType i))]"

text \<open>A nil slice is null in JSON.\<close>

definition json_files :: "bucket_FileInfo list \<Rightarrow> json" where
  "json_files is = (if is = [] then JNull else JList (map json_file is))"

definition bucketUploadResponse :: "request \<Rightarrow> bucket_CreateResult \<Rightarrow> json" where
  "bucketUploadResponse r res = JObject
     [(''url'', JString (absURL r (bcr_URL res))), (''delete_url'', JString (absURL r (bcr_DeleteURL res))),
      (''expires_at'', json_time (bcr_ExpiresAt res)), (''file_count'', JInt (bcr_FileCount res)),
      (''files'', json_files (bcr_Files res))]"

definition file_input :: "part \<Rightarrow> bucket_FileInput" where
  "file_input p =
     \<lparr>fi_Filename = part_filename p, fi_MimeType = bucket_mime (peek p), fi_Size = pt_Size p,
      fi_Content = pt_Content p\<rparr>"

fun open_parts :: "part list \<Rightarrow> bucket_FileInput list option" where
  "open_parts [] = Some []"
| "open_parts (p # ps) =
     (if \<not> pt_opens p then None
      else case open_parts ps of None \<Rightarrow> None | Some is \<Rightarrow> Some (file_input p # is))"

definition BucketHandler_Upload :: "bucket_handler \<Rightarrow> handler" where
  "BucketHandler_Upload h r w v =
     (let w1 = securityHeaders w in
      case ParseMultipartForm (bh_maxUploadBytes h) r of
        Inl MaxBytesError \<Rightarrow>
          (writeError 413 (Sprintf ''upload exceeds maximum size of %d bytes'' [D (bh_maxUploadBytes h)]) w1, v)
      | Inl BadForm \<Rightarrow> (writeError 400 ''invalid multipart form'' w1, v)
      | Inr f \<Rightarrow>
          (let fileHeaders = map snd (filter (\<lambda>p. fst p = ''file'') (fm_File f)) in
           if fileHeaders = []
           then (writeError 400 (''missing '' @ squote # ''file'' @ squote # '' field(s) in form'') w1, v)
           else case open_parts fileHeaders of
             None \<Rightarrow> (writeError 500 ''failed to open uploaded file'' w1, v)
           | Some fileInputs \<Rightarrow>
               (case bh_Create h
                       \<lparr>bq_Files = fileInputs, bq_Expiry = form_expiry r f, bq_Password = FormValue r f ''password'',
                        bq_OneUse = (FormValue r f ''one_use'' = ''1'')\<rparr> v of
                  (Inl e, v1) \<Rightarrow> (writeError 500 ''bucket upload failed'' w1, v1)
                | (Inr res, v1) \<Rightarrow> (writeJSON 201 (bucketUploadResponse r res) w1, v1))))"

text \<open>The wrong-password answer of View and DownloadZIP.\<close>

definition bucket_wrong_password :: "request \<Rightarrow> string \<Rightarrow> writer \<Rightarrow> writer" where
  "bucket_wrong_password r slug w =
     (if wants_json r then writeError 401 ''wrong password'' w else servePasswordForm (''b/'' @ slug) w)"

definition BucketHandler_View :: "bucket_handler \<Rightarrow> handler" where
  "BucketHandler_View h r w v =
     (let w1 = securityHeaders w; slug = PathValue r ''slug''; password = password_attempt r in
      if slug = [] then (writeError 400 ''missing slug'' w1, v)
      else case bh_GetMeta h slug password v of
        (Inl e, v1) \<Rightarrow>
          (if errors_Is e Bucket_ErrWrongPassword then (bucket_wrong_password r slug w1, v1)
           else if errors_Is e Bucket_ErrExpired then (writeError 410 ''bucket has expired'' w1, v1)
           else if errors_Is e Bucket_ErrNotFound then (writeError 404 ''not found'' w1, v1)
           else (writeError 500 ''internal error'' w1, v1))
      | (Inr res, v1) \<Rightarrow>
          (Write (Bytes (bucket_page (bg_B res) (bg_ExpiresAt res) slug password))
             (Header_Set ''Content-Security-Policy'' bucketViewCSP (Header_Set ''Content-Type'' html_type w1)), v1))"

definition BucketHandler_DownloadFile :: "bucket_handler \<Rightarrow> handler" where
  "BucketHandler_DownloadFile h r w v =
     (let w1 = securityHeaders w; slug = PathValue r ''slug''; storageKey = PathValue r ''storageKey'' in
      if slug = [] \<or> storageKey = [] then (writeError 400 ''missing slug or storageKey'' w1, v)
      else case bh_GetFile h slug storageKey (password_attempt r) v of
        (Inl e, v1) \<Rightarrow>
          (if errors_Is e Bucket_ErrWrongPassword then (writeError 401 ''wrong password'' w1, v1)
           else if errors_Is e Bucket_ErrExpired then (writeError 410 ''bucket has expired'' w1, v1)
           else if errors_Is e Bucket_ErrNotFound then (writeError 404 ''not found'' w1, v1)
           else (writeError 500 ''internal error'' w1, v1))
      | (Inr (bf, rc), v1) \<Rightarrow>
          (let mimeType = (if bf_MimeType bf = [] then ''application/octet-stream'' else bf_MimeType bf) in
           (Write (Bytes rc)
              (Header_Set ''Content-Disposition'' (''attachment; filename='' @ quote_str (bh_IsPrint h) (bf_Filename bf))
                (Header_Set ''Content-Type'' mimeType w1)), v1)))"

definition play_zip :: "zip_response \<Rightarrow> writer \<Rightarrow> writer" where
  "play_zip z w =
     (if zr_header z = [] then w
      else Write (Archive (zr_entries z) (zr_complete z)) (fold (\<lambda>(k, x). Header_Set k x) (zr_header z) w))"

definition zip_error :: "request \<Rightarrow> string \<Rightarrow> error \<Rightarrow> writer \<Rightarrow> writer" where
  "zip_error r slug e w =
     (if errors_Is e Bucket_ErrWrongPassword then bucket_wrong_password r slug w
      else if errors_Is e Bucket_ErrExpired then writeError 410 ''bucket has expired'' w
      else if errors_Is e Bucket_ErrAlreadyConsumed then writeError 410 ''bucket has already been downloaded'' w
      else if errors_Is e Bucket_ErrNotFound then writeError 404 ''not found'' w
      else writeError 500 ''internal error'' w)"

definition BucketHandler_DownloadZIP :: "bucket_handler \<Rightarrow> handler" where
  "BucketHandler_DownloadZIP h r w v =
     (let w1 = securityHeaders w; slug = PathValue r ''slug'' in
      if slug = [] then (writeError 400 ''missing slug'' w1, v)
      else case bh_StreamZIP h slug (password_attempt r) empty_response v of
        ((x, z), v1) \<Rightarrow>
          (let w2 = play_zip z w1 in
           case x of
             Inl e \<Rightarrow> (zip_error r slug e w2, v1)
           | Inr u \<Rightarrow> (w2, v1)))"

definition BucketHandler_DeleteBucket :: "bucket_handler \<Rightarrow> handler" where
  "BucketHandler_DeleteBucket h r w v =
     (let w1 = securityHeaders w; slug = PathValue r ''slug''; secret = PathValue r ''secret'' in
      if slug = [] \<or> secret = [] then (writeError 400 ''missing slug or secret'' w1, v)
      else case bh_Delete h slug secret v of
        (Inl e, v1) \<Rightarrow>
          (if errors_Is e Bucket_ErrNotFound then (writeError 404 ''not found'' w1, v1)
           else if errors_Is e Bucket_ErrBadDeleteSecret then (writeError 403 ''invalid delete token'' w1, v1)
           else (writeError 500 ''internal error'' w1, v1))
      | (Inr u, v1) \<Rightarrow> (writeJSON 200 (JObject [(''deleted'', JBool True)]) w1, v1))"

definition bucketHandler :: "bcrypt \<Rightarrow> (string \<Rightarrow> bool) \<Rightarrow> int \<Rightarrow> bucket_handler" where
  "bucketHandler bc isPrint maxUploadBytes =
     \<lparr>bh_Create = Bucket_Create bc (bucketService []), bh_GetMeta = Bucket_GetMeta bc (bucketService []),
      bh_GetFile = Bucket_GetFile bc (bucketService []), bh_StreamZIP = Bucket_StreamZIP bc (bucketService []),
      bh_Delete = Bucket_Delete (bucketService []), bh_maxUploadBytes = maxUploadBytes, bh_IsPrint = isPrint\<rparr>"

section \<open>What they answer\<close>

lemma headers_set_bucket_password [intro]: "headers_set w \<Longrightarrow> headers_set (bucket_wrong_password r s w)"
  by (auto simp: bucket_wrong_password_def)

lemma headers_set_zip_error [intro]: "headers_set w \<Longrightarrow> headers_set (zip_error r s e w)"
  by (auto simp: zip_error_def)

lemma open_parts_Some: "open_parts ps = Some is \<Longrightarrow> is = map file_input ps \<and> list_all pt_opens ps"
  by (induction ps arbitrary: "is") (auto split: if_splits option.splits)

lemma open_parts_all: "list_all pt_opens ps \<Longrightarrow> open_parts ps = Some (map file_input ps)"
  by (induction ps) auto

text \<open>
  Once StreamZIP has started the archive, the status is 200 whatever happens: the error of a
  file that cannot be read only appends a JSON text to the archive.
\<close>

lemma play_zip_started:
  assumes "rw_Sent w = None" and "zr_header z \<noteq> []"
  shows "\<exists>h. rw_Sent (play_zip z w) = Some (200, h)"
    and "rw_Body (play_zip z w) = rw_Body w @ [Archive (zr_entries z) (zr_complete z)]"
proof -
  have "rw_Sent (fold (\<lambda>(k, x). Header_Set k x) kvs w) = rw_Sent w \<and>
      rw_Body (fold (\<lambda>(k, x). Header_Set k x) kvs w) = rw_Body w" for kvs
    by (induction kvs arbitrary: w) auto
  then show "\<exists>h. rw_Sent (play_zip z w) = Some (200, h)"
    "rw_Body (play_zip z w) = rw_Body w @ [Archive (zr_entries z) (zr_complete z)]"
    using assms by (simp_all add: play_zip_def)
qed

lemma play_zip_not_started [simp]: "zr_header z = [] \<Longrightarrow> play_zip z w = w"
  by (simp add: play_zip_def)

lemma zip_error_sent: "rw_Sent w = Some x \<Longrightarrow> rw_Sent (zip_error r s e w) = Some x"
  by (simp add: zip_error_def bucket_wrong_password_def servePasswordForm_def writeError_def writeJSON_def)

lemma zip_error_status:
  assumes "rw_Sent w = None"
  shows "response_status (zip_error r s e w) =
    read_status Bucket_ErrNotFound Bucket_ErrExpired Bucket_ErrAlreadyConsumed Bucket_ErrWrongPassword (Inl e)"
proof -
  have "response_status (bucket_wrong_password r s w) = 401"
    using assms by (simp add: bucket_wrong_password_def)
  then show ?thesis
    using assms errors_Is_unique [of e] by (auto simp: zip_error_def read_status_def)
qed

end
