(* ===== verification/Router.thy ===== *)
theory Router
  imports Paste_Handler Bucket_Handler
begin

text \<open>
  The HTTP side of cmd/pbin/main.go: the ServeMux patterns, the catch-all for GET and the
  dispatch between files and pastes, on the handlers wired to the services. GET patterns of the
  mux serve HEAD, too.
\<close>

section \<open>The mux\<close>

text \<open>
  The mux redirects a request whose path is not clean (empty, dot and dot-dot segments); the
  query it keeps in the location is left out here.
\<close>

fun clean_segments :: "string list \<Rightarrow> string list \<Rightarrow> string list" where
  "clean_segments acc [] = rev acc"
| "clean_segments acc (s # ss) =
     (if s = [] \<or> s = ''.'' then clean_segments acc ss
      else if s = ''..'' then clean_segments (tl acc) ss
      else clean_segments (s # acc) ss)"

definition cleanPath :: "string \<Rightarrow> string" where
  "cleanPath path =
     (if path = [] then [slash]
      else
        let p = (if hd path = slash then path else slash # path);
            np = slash # Join [slash] (clean_segments [] (Split slash p))
        in if last p = slash \<and> np \<noteq> [slash] then np @ [slash] else np)"

definition is_get :: "request \<Rightarrow> bool" where
  "is_get r \<longleftrightarrow> rq_Method r = ''GET'' \<or> rq_Method r = ''HEAD''"

definition http_MethodNotAllowed :: "string \<Rightarrow> handler" where
  "http_MethodNotAllowed allow r w v =
     (Write (Bytes (''Method Not Allowed'' @ [CHR 10]))
        (WriteHeader 405 (Header_Set ''X-Content-Type-Options'' ''nosniff''
          (Header_Set ''Content-Type'' ''text/plain; charset=utf-8'' (Header_Set ''Allow'' allow w)))), v)"

section \<open>The catch-all\<close>

record program =
  pr_bcrypt :: bcrypt
  pr_IsPrint :: "string \<Rightarrow> bool"
  pr_Auth :: auth_config
  pr_MaxBytes :: int
  pr_PublicURL :: string

definition pr_file :: "program \<Rightarrow> file_handler" where
  "pr_file p = fileHandler (pr_bcrypt p) (pr_IsPrint p) (pr_MaxBytes p)"

definition pr_paste :: "program \<Rightarrow> paste_handler" where
  "pr_paste p = pasteHandler (pr_bcrypt p)"

definition pr_bucket :: "program \<Rightarrow> bucket_handler" where
  "pr_bucket p = bucketHandler (pr_bcrypt p) (pr_IsPrint p) (pr_MaxBytes p)"

definition path_parts :: "string \<Rightarrow> string list" where
  "path_parts path = (let p = Trim [slash] path in if p \<noteq> [] then Split slash p else [])"

text \<open>GET /delete/{slug}/{secret}: a file unless the lookup says there is none, else a paste.\<close>

definition delete_dispatch :: "program \<Rightarrow> string \<Rightarrow> handler" where
  "delete_dispatch p sl r w v =
     (case File_GetMeta (fileService []) sl v of
        (x, v1) \<Rightarrow>
          (if (case x of Inr f \<Rightarrow> True | Inl e \<Rightarrow> \<not> errors_Is e File_ErrNotFound)
           then FileHandler_Delete (pr_file p) r w v1
           else PasteHandler_Delete (pr_paste p) r w v1))"

text \<open>GET /{slug}: a file if the lookup finds one, expired or not, else a paste.\<close>

definition view_dispatch :: "program \<Rightarrow> string \<Rightarrow> handler" where
  "view_dispatch p sl r w v =
     (case File_GetMeta (fileService []) sl v of
        (x, v1) \<Rightarrow>
          (if (case x of Inr f \<Rightarrow> True | Inl e \<Rightarrow> errors_Is e File_ErrWrongPassword \<or> errors_Is e File_ErrExpired)
           then FileHandler_Serve (pr_file p) r w v1
           else PasteHandler_View (pr_paste p) r w v1))"

definition catch_all :: "program \<Rightarrow> handler" where
  "catch_all p r w v =
     (let parts = path_parts (rq_Path r); n = length parts in
      if n = 0 then BasicAuth (pr_Auth p) UI_Home r w v
      else if n = 1 \<and> parts ! 0 = ''health'' then Health r w v
      else if n = 2 \<and> parts ! 1 = ''info''
      then FileHandler_Info (pr_file p) (SetPathValue ''slug'' (parts ! 0) r) w v
      else if n = 2 \<and> parts ! 1 = ''raw''
      then PasteHandler_Raw (pr_paste p) (SetPathValue ''slug'' (parts ! 0) r) w v
      else if n = 2 \<and> parts ! 0 = ''b'' \<and> parts ! 1 \<noteq> []
      then BucketHandler_View (pr_bucket p) (SetPathValue ''slug'' (parts ! 1) r) w v
      else if n = 3 \<and> parts ! 0 = ''b'' \<and> parts ! 2 = ''zip''
      then BucketHandler_DownloadZIP (pr_bucket p) (SetPathValue ''slug'' (parts ! 1) r) w v
      else if n = 4 \<and> parts ! 0 = ''b'' \<and> parts ! 2 = ''file''
      then BucketHandler_DownloadFile (pr_bucket p)
             (SetPathValue ''storageKey'' (parts ! 3) (SetPathValue ''slug'' (parts ! 1) r)) w v
      else if n = 4 \<and> parts ! 0 = ''b'' \<and> parts ! 1 = ''delete''
      then BucketHandler_DeleteBucket (pr_bucket p)
             (SetPathValue ''secret'' (parts ! 3) (SetPathValue ''slug'' (parts ! 2) r)) w v
      else if n = 3 \<and> parts ! 0 = ''delete''
      then delete_dispatch p (parts ! 1)
             (SetPathValue ''secret'' (parts ! 2) (SetPathValue ''slug'' (parts ! 1) r)) w v
      else if n = 1 then view_dispatch p (parts ! 0) (SetPathValue ''slug'' (parts ! 0) r) w v
      else http_NotFound r w v)"

definition upload_dispatch :: "program \<Rightarrow> handler" where
  "upload_dispatch p r w v =
     (if Query_Get r ''type'' = ''bucket'' then BucketHandler_Upload (pr_bucket p) r w v
      else FileHandler_Upload (pr_file p) r w v)"

definition serve_mux :: "program \<Rightarrow> handler" where
  "serve_mux p r w v =
     (let path = cleanPath (rq_Path r) in
      if path \<noteq> rq_Path r then http_Redirect path 301 r w v
      else if is_get r then
        (if path = ''/health'' then Health r w v
         else if path = ''/paste'' then BasicAuth (pr_Auth p) UI_Paste r w v
         else if path = ''/bucket'' then BasicAuth (pr_Auth p) UI_Bucket r w v
         else catch_all p r w v)
      else if rq_Method r = ''POST'' \<and> path = ''/api/upload''
      then BasicAuth (pr_Auth p) (upload_dispatch p) r w v
      else if rq_Method r = ''POST'' \<and> path = ''/api/paste''
      then BasicAuth (pr_Auth p) (PasteHandler_Create (pr_paste p)) r w v
      else http_MethodNotAllowed
             (if path = ''/api/upload'' \<or> path = ''/api/paste'' then ''GET, HEAD, POST'' else ''GET, HEAD'') r w v)"

text \<open>The handler of the server; a request starts with an empty response.\<close>

definition pbin :: "program \<Rightarrow> request \<Rightarrow> world \<Rightarrow> writer \<times> world" where
  "pbin p r v = WithBaseURL (pr_PublicURL p) (serve_mux p) r new_writer v"

section \<open>Paths\<close>

text \<open>
  A path of clean segments is clean, and its parts are its segments: the URLs the services
  hand out are of this kind.
\<close>

definition segment :: "string \<Rightarrow> bool" where
  "segment s \<longleftrightarrow> s \<noteq> [] \<and> slash \<notin> set s \<and> s \<noteq> ''.'' \<and> s \<noteq> ''..''"

definition path_of :: "string list \<Rightarrow> string" where
  "path_of ss = concat (map (\<lambda>s. slash # s) ss)"

lemma segment_alnum: "validKey s \<Longrightarrow> segment s"
  by (auto simp: validKey_def segment_def list_all_iff alnum_def)

lemma clean_segments_id: "list_all segment ss \<Longrightarrow> clean_segments acc ss = rev acc @ ss"
  by (induction ss arbitrary: acc) (auto simp: segment_def)

lemma Split_segments:
  assumes "list_all segment ss" and "ss \<noteq> []"
  shows "Split slash (tl (path_of ss)) = ss"
  using assms
proof (induction ss)
  case (Cons s ss)
  then show ?case
    by (cases ss) (auto simp: path_of_def segment_def Split_append)
qed simp

lemma path_of_Cons: "path_of (s # ss) = slash # s @ path_of ss"
  by (simp add: path_of_def)

lemma path_of_Join: "ss \<noteq> [] \<Longrightarrow> path_of ss = slash # Join [slash] ss"
  by (induction "[slash]" ss rule: Join.induct) (simp_all add: path_of_def)

lemma path_of_last:
  assumes "list_all segment ss" and "ss \<noteq> []"
  shows "last (path_of ss) \<noteq> slash"
  using assms
proof (induction ss)
  case (Cons s ss)
  then show ?case
    by (cases "ss = []") (auto simp: path_of_def segment_def dest: last_in_set)
qed simp

lemma cleanPath_segments:
  assumes "list_all segment ss" and "ss \<noteq> []"
  shows "cleanPath (path_of ss) = path_of ss"
proof -
  obtain s ss' where ss: "ss = s # ss'" using assms(2) by (cases ss) auto
  then have p: "path_of ss \<noteq> []" "hd (path_of ss) = slash" "Split slash (path_of ss) = [] # ss"
    using Split_segments [OF assms] by (simp_all add: path_of_Cons)
  have "clean_segments [] (Split slash (path_of ss)) = ss"
    using clean_segments_id [OF assms(1), of "[]"] by (simp add: p(3))
  then show ?thesis
    using p(1,2) path_of_last [OF assms] path_of_Join [OF assms(2)] by (simp add: cleanPath_def Let_def)
qed

lemma path_parts_segments:
  assumes "list_all segment ss" and "ss \<noteq> []"
  shows "path_parts (path_of ss) = ss"
proof -
  obtain s ss' where ss: "ss = s # ss'" using assms(2) by (cases ss) auto
  then have s: "s \<noteq> []" "hd s \<noteq> slash" using assms(1) by (cases s; auto simp: segment_def)+
  have tl: "tl (path_of ss) = s @ path_of ss'" by (simp add: ss path_of_Cons)
  have "TrimLeft [slash] (path_of ss) = tl (path_of ss)"
    using s by (cases s) (auto simp: ss path_of_Cons)
  moreover have "TrimRight [slash] (tl (path_of ss)) = tl (path_of ss)"
    using path_of_last [OF assms] s by (intro TrimRight_id) (auto simp: tl ss path_of_Cons split: if_splits)
  ultimately show ?thesis
    using Split_segments [OF assms] s by (simp add: path_parts_def Trim_def tl)
qed

section \<open>Routes\<close>

lemma mux_get:
  assumes "is_get r" and "rq_Path r = path_of ss" and "list_all segment ss" and "ss \<noteq> []"
    and "ss \<noteq> [''health'']" and "ss \<noteq> [''paste'']" and "ss \<noteq> [''bucket'']"
  shows "serve_mux p r w v = catch_all p r w v" and "path_parts (rq_Path r) = ss"
proof -
  have neq: "path_of ss \<noteq> slash # s" if "ss \<noteq> [s]" "segment s" for s
  proof
    assume "path_of ss = slash # s"
    then have "path_of ss = path_of [s]" by (simp add: path_of_def)
    then have "path_parts (path_of ss) = path_parts (path_of [s])" by simp
    with path_parts_segments [OF assms(3,4)] path_parts_segments [of "[s]"] that show False by simp
  qed
  have seg: "segment ''health''" "segment ''paste''" "segment ''bucket''" by (simp_all add: segment_def)
  show "serve_mux p r w v = catch_all p r w v"
    using assms(1,2) cleanPath_segments [OF assms(3,4)] neq [OF assms(5) seg(1)] neq [OF assms(6) seg(2)]
      neq [OF assms(7) seg(3)]
    by (simp add: serve_mux_def Let_def)
  show "path_parts (rq_Path r) = ss" using assms(2) path_parts_segments [OF assms(3,4)] by simp
qed

text \<open>The fixed words of the URL scheme; no slug of twelve characters is one of them.\<close>

definition plain_slug :: "string \<Rightarrow> bool" where
  "plain_slug s \<longleftrightarrow> segment s \<and> s \<notin> {''health'', ''paste'', ''bucket'', ''info'', ''raw'', ''b'', ''delete'', ''zip'', ''file''}"

lemma plain_slug_drawn: "validKey s \<Longrightarrow> length s = 12 \<Longrightarrow> plain_slug s"
  using segment_alnum by (auto simp: plain_slug_def)

lemma fixed_segments [simp]:
  "segment ''info''" "segment ''raw''" "segment ''b''" "segment ''delete''" "segment ''zip''" "segment ''file''"
  by (simp_all add: segment_def)

lemma routes:
  assumes get: "is_get r" and s: "plain_slug s" and d: "segment d"
  shows "rq_Path r = path_of [s] \<Longrightarrow> serve_mux p r w v = view_dispatch p s (SetPathValue ''slug'' s r) w v"
    and "rq_Path r = path_of [s, ''info''] \<Longrightarrow>
      serve_mux p r w v = FileHandler_Info (pr_file p) (SetPathValue ''slug'' s r) w v"
    and "rq_Path r = path_of [s, ''raw''] \<Longrightarrow>
      serve_mux p r w v = PasteHandler_Raw (pr_paste p) (SetPathValue ''slug'' s r) w v"
    and "rq_Path r = path_of [''b'', s] \<Longrightarrow>
      serve_mux p r w v = BucketHandler_View (pr_bucket p) (SetPathValue ''slug'' s r) w v"
    and "rq_Path r = path_of [''b'', s, ''zip''] \<Longrightarrow>
      serve_mux p r w v = BucketHandler_DownloadZIP (pr_bucket p) (SetPathValue ''slug'' s r) w v"
    and "rq_Path r = path_of [''b'', s, ''file'', d] \<Longrightarrow>
      serve_mux p r w v = BucketHandler_DownloadFile (pr_bucket p) (SetPathValue ''storageKey'' d (SetPathValue ''slug'' s r)) w v"
    and "rq_Path r = path_of [''b'', ''delete'', s, d] \<Longrightarrow>
      serve_mux p r w v = BucketHandler_DeleteBucket (pr_bucket p) (SetPathValue ''secret'' d (SetPathValue ''slug'' s r)) w v"
    and "rq_Path r = path_of [''delete'', s, d] \<Longrightarrow>
      serve_mux p r w v = delete_dispatch p s (SetPathValue ''secret'' d (SetPathValue ''slug'' s r)) w v"
proof -
  note seg = s [unfolded plain_slug_def] d
  show "serve_mux p r w v = view_dispatch p s (SetPathValue ''slug'' s r) w v" if "rq_Path r = path_of [s]"
    using mux_get [OF get that] seg by (simp add: catch_all_def)
  show "serve_mux p r w v = FileHandler_Info (pr_file p) (SetPathValue ''slug'' s r) w v" if "rq_Path r = path_of [s, ''info'']"
    using mux_get [OF get that] seg by (simp add: catch_all_def)
  show "serve_mux p r w v = PasteHandler_Raw (pr_paste p) (SetPathValue ''slug'' s r) w v" if "rq_Path r = path_of [s, ''raw'']"
    using mux_get [OF get that] seg by (simp add: catch_all_def)
  show "serve_mux p r w v = BucketHandler_View (pr_bucket p) (SetPathValue ''slug'' s r) w v" if "rq_Path r = path_of [''b'', s]"
    using mux_get [OF get that] seg by (simp add: catch_all_def segment_def)
  show "serve_mux p r w v = BucketHandler_DownloadZIP (pr_bucket p) (SetPathValue ''slug'' s r) w v"
    if "rq_Path r = path_of [''b'', s, ''zip'']"
    using mux_get [OF get that] seg by (simp add: catch_all_def)
  show "serve_mux p r w v = BucketHandler_DownloadFile (pr_bucket p) (SetPathValue ''storageKey'' d (SetPathValue ''slug'' s r)) w v"
    if "rq_Path r = path_of [''b'', s, ''file'', d]"
    using mux_get [OF get that] seg by (simp add: catch_all_def)
  show "serve_mux p r w v = BucketHandler_DeleteBucket (pr_bucket p) (SetPathValue ''secret'' d (SetPathValue ''slug'' s r)) w v"
    if "rq_Path r = path_of [''b'', ''delete'', s, d]"
    using mux_get [OF get that] seg by (simp add: catch_all_def)
  show "serve_mux p r w v = delete_dispatch p s (SetPathValue ''secret'' d (SetPathValue ''slug'' s r)) w v"
    if "rq_Path r = path_of [''delete'', s, d]"
    using mux_get [OF get that] seg by (simp add: catch_all_def)
qed

lemma mux_post:
  assumes "rq_Method r = ''POST''"
  shows "rq_Path r = ''/api/upload'' \<Longrightarrow> serve_mux p r w v = BasicAuth (pr_Auth p) (upload_dispatch p) r w v"
    and "rq_Path r = ''/api/paste'' \<Longrightarrow> serve_mux p r w v = BasicAuth (pr_Auth p) (PasteHandler_Create (pr_paste p)) r w v"
proof -
  have "cleanPath ''/api/upload'' = ''/api/upload''" "cleanPath ''/api/paste'' = ''/api/paste''" by code_simp+
  with assms show "rq_Path r = ''/api/upload'' \<Longrightarrow> serve_mux p r w v = BasicAuth (pr_Auth p) (upload_dispatch p) r w v"
    "rq_Path r = ''/api/paste'' \<Longrightarrow> serve_mux p r w v = BasicAuth (pr_Auth p) (PasteHandler_Create (pr_paste p)) r w v"
    by (simp_all add: serve_mux_def is_get_def Let_def)
qed

lemma pbin_cases: "\<exists>u. pbin p r v = serve_mux p (r\<lparr>rq_BaseURL := u\<rparr>) new_writer v"
proof (cases "TrimRight [slash] (pr_PublicURL p) = []")
  case True
  then show ?thesis by (intro exI [of _ "rq_BaseURL r"]) (simp add: pbin_def WithBaseURL_def)
next
  case False
  then show ?thesis by (intro exI [of _ "Some (TrimRight [slash] (pr_PublicURL p))"]) (simp add: pbin_def WithBaseURL_def Let_def)
qed

end
