(* ===== verification/Server.thy ===== *)
theory Server
  imports Router
begin

text \<open>
  What the server as a whole does to the world: every request is a short sequence of service
  calls, so the invariants of the runs hold for requests; who gets past authentication; which
  headers every answer carries.
\<close>

section \<open>Requests as calls\<close>

text \<open>
  The calls a request can make: no sweep and no passage of time. The nonce of a paste page is
  a \<^const>\<open>Pass\<close> of no time that takes bytes from the random source.
\<close>

fun http_call :: "call \<Rightarrow> bool" where
  "http_call Sweep = False"
| "http_call (Pass d bs env) = (d = 0)"
| "http_call c = True"

text \<open>The calls of a GET: none that creates anything.\<close>

fun get_call :: "call \<Rightarrow> bool" where
  "get_call (FileUpload req) = False"
| "get_call (PasteCreate req) = False"
| "get_call (BucketCreate req) = False"
| "get_call c = http_call c"

lemma get_call_http: "get_call c \<Longrightarrow> http_call c"
  by (cases c) simp_all

text \<open>The world changes by a run of at most n calls of a kind.\<close>

definition does :: "(call \<Rightarrow> bool) \<Rightarrow> bcrypt \<Rightarrow> nat \<Rightarrow> world \<Rightarrow> world \<Rightarrow> bool" where
  "does P bc n v v' \<longleftrightarrow> (\<exists>cs. list_all P cs \<and> length cs \<le> n \<and> v' = snd (run bc [] cs v))"

lemma snd_run_Cons: "snd (run bc url (c # cs) v) = snd (run bc url cs (snd (exec bc url c v)))"
  by (simp split: prod.split)

lemma run_append: "snd (run bc url (cs @ ds) v) = snd (run bc url ds (snd (run bc url cs v)))"
  by (induction cs arbitrary: v) (simp_all add: snd_run_Cons del: run.simps(2))

lemma does_refl [simp, intro]: "does P bc n v v"
  by (auto simp: does_def intro: exI [of _ "[]"])

lemma does_call [intro]: "P c \<Longrightarrow> 1 \<le> n \<Longrightarrow> does P bc n v (snd (exec bc [] c v))"
  by (auto simp: does_def split: prod.split intro!: exI [of _ "[c]"])

lemma does_trans:
  assumes "does P bc m u v" and "does P bc n v w" and "m + n \<le> k"
  shows "does P bc k u w"
proof -
  from assms obtain cs ds where "list_all P cs" "length cs \<le> m" "v = snd (run bc [] cs u)"
    "list_all P ds" "length ds \<le> n" "w = snd (run bc [] ds v)" unfolding does_def by blast
  with assms(3) show ?thesis unfolding does_def by (intro exI [of _ "cs @ ds"]) (simp add: run_append)
qed

lemma does_mono: "does P bc m u v \<Longrightarrow> m \<le> n \<Longrightarrow> does P bc n u v"
  by (auto simp: does_def)

lemma get_does: "does get_call bc n u v \<Longrightarrow> does http_call bc n u v"
  unfolding does_def by (metis get_call_http list.pred_mono_strong)

lemma create_does:
  "1 \<le> n \<Longrightarrow> File_Upload bc (fileService []) req v = (a, v1) \<Longrightarrow> does http_call bc n v v1"
  "1 \<le> n \<Longrightarrow> Paste_Create bc (pasteService []) preq v = (e, v1) \<Longrightarrow> does http_call bc n v v1"
  "1 \<le> n \<Longrightarrow> Bucket_Create bc (bucketService []) breq v = (g, v1) \<Longrightarrow> does http_call bc n v v1"
  using does_call [of http_call "FileUpload req" n bc v] does_call [of http_call "PasteCreate preq" n bc v]
    does_call [of http_call "BucketCreate breq" n bc v]
  by (simp_all add: map_prod_def split: prod.splits)

lemma exec_does:
  "1 \<le> n \<Longrightarrow> File_Get bc (fileService []) s pw v = (b, v1) \<Longrightarrow> does get_call bc n v v1"
  "1 \<le> n \<Longrightarrow> File_GetMeta (fileService []) s v = (c, v1) \<Longrightarrow> does get_call bc n v v1"
  "1 \<le> n \<Longrightarrow> File_Delete (fileService []) s d v = (u, v1) \<Longrightarrow> does get_call bc n v v1"
  "1 \<le> n \<Longrightarrow> Paste_Get bc (pasteService []) s pw v = (f, v1) \<Longrightarrow> does get_call bc n v v1"
  "1 \<le> n \<Longrightarrow> Paste_Delete (pasteService []) s d v = (u, v1) \<Longrightarrow> does get_call bc n v v1"
  "1 \<le> n \<Longrightarrow> Bucket_GetMeta bc (bucketService []) s pw v = (h, v1) \<Longrightarrow> does get_call bc n v v1"
  "1 \<le> n \<Longrightarrow> Bucket_GetFile bc (bucketService []) s k pw v = (i, v1) \<Longrightarrow> does get_call bc n v v1"
  "1 \<le> n \<Longrightarrow> Bucket_StreamZIP bc (bucketService []) s pw empty_response v = (j, v1) \<Longrightarrow> does get_call bc n v v1"
  "1 \<le> n \<Longrightarrow> Bucket_Delete (bucketService []) s d v = (u, v1) \<Longrightarrow> does get_call bc n v v1"
  using does_call [of get_call "FileGet s pw" n bc v] does_call [of get_call "FileMeta s" n bc v]
    does_call [of get_call "FileDelete s d" n bc v] does_call [of get_call "PasteGet s pw" n bc v]
    does_call [of get_call "PasteDelete s d" n bc v] does_call [of get_call "BucketMeta s pw" n bc v]
    does_call [of get_call "BucketFile s k pw" n bc v] does_call [of get_call "BucketZIP s pw" n bc v]
    does_call [of get_call "BucketDelete s d" n bc v]
  by (simp_all add: map_prod_def split: prod.splits)

lemma handlers_sel [simp]:
  "fh_Upload (pr_file p) = File_Upload (pr_bcrypt p) (fileService [])" "fh_Get (pr_file p) = File_Get (pr_bcrypt p) (fileService [])"
  "fh_GetMeta (pr_file p) = File_GetMeta (fileService [])" "fh_Delete (pr_file p) = File_Delete (fileService [])"
  "fh_maxUploadBytes (pr_file p) = pr_MaxBytes p"
  "ph_Create (pr_paste p) = Paste_Create (pr_bcrypt p) (pasteService [])" "ph_Get (pr_paste p) = Paste_Get (pr_bcrypt p) (pasteService [])"
  "ph_Delete (pr_paste p) = Paste_Delete (pasteService [])"
  "bh_Create (pr_bucket p) = Bucket_Create (pr_bcrypt p) (bucketService [])"
  "bh_GetMeta (pr_bucket p) = Bucket_GetMeta (pr_bcrypt p) (bucketService [])"
  "bh_GetFile (pr_bucket p) = Bucket_GetFile (pr_bcrypt p) (bucketService [])"
  "bh_StreamZIP (pr_bucket p) = Bucket_StreamZIP (pr_bcrypt p) (bucketService [])"
  "bh_Delete (pr_bucket p) = Bucket_Delete (bucketService [])" "bh_maxUploadBytes (pr_bucket p) = pr_MaxBytes p"
  by (simp_all add: pr_file_def pr_paste_def pr_bucket_def fileHandler_def pasteHandler_def bucketHandler_def)

lemma does_create:
  "does http_call (pr_bcrypt p) 1 v (snd (FileHandler_Upload (pr_file p) r w v))"
  "does http_call (pr_bcrypt p) 1 v (snd (PasteHandler_Create (pr_paste p) r w v))"
  "does http_call (pr_bcrypt p) 1 v (snd (BucketHandler_Upload (pr_bucket p) r w v))"
  by (auto simp: FileHandler_Upload_def PasteHandler_Create_def BucketHandler_Upload_def Let_def
      intro: create_does [of 1, simplified] split: sum.split option.split prod.split parse_error.split)

lemma does_file:
  "does get_call (pr_bcrypt p) 1 v (snd (FileHandler_Serve (pr_file p) r w v))"
  "does get_call (pr_bcrypt p) 1 v (snd (FileHandler_Info (pr_file p) r w v))"
  "does get_call (pr_bcrypt p) 1 v (snd (FileHandler_Delete (pr_file p) r w v))"
  by (auto simp: FileHandler_Serve_def FileHandler_Info_def FileHandler_Delete_def Let_def
      intro: exec_does [of 1, simplified] split: sum.split option.split prod.split)

lemma does_nonce: "generateNonce v = (n, v1) \<Longrightarrow> does get_call bc 1 v v1"
proof -
  assume "generateNonce v = (n, v1)"
  then have "\<exists>bs. v1 = v\<lparr>w_rand := bs\<rparr>" by (auto simp: generateNonce_def split: if_splits)
  then obtain bs where "v1 = snd (exec bc [] (Pass 0 bs (w_env v)) v)" by auto
  then show "does get_call bc 1 v v1" by (metis does_call get_call.simps(14) http_call.simps(2) le_refl)
qed

lemma does_paste:
  "does get_call (pr_bcrypt p) 2 v (snd (PasteHandler_View (pr_paste p) r w v))"
  "does get_call (pr_bcrypt p) 1 v (snd (PasteHandler_Raw (pr_paste p) r w v))"
  "does get_call (pr_bcrypt p) 1 v (snd (PasteHandler_Delete (pr_paste p) r w v))"
proof -
  obtain x v1 where g: "Paste_Get (pr_bcrypt p) (pasteService []) (PathValue r ''slug'') (password_attempt r) v = (x, v1)"
    by (rule prod.exhaust)
  obtain n v2 where n: "generateNonce v1 = (n, v2)" by (rule prod.exhaust)
  have "does get_call (pr_bcrypt p) 2 v v1" "does get_call (pr_bcrypt p) 2 v v2"
    using exec_does(4) [OF _ g, of 2] does_trans [OF exec_does(4) [OF _ g, of 1] does_nonce [OF n, of "pr_bcrypt p"], of 2] by simp_all
  then show "does get_call (pr_bcrypt p) 2 v (snd (PasteHandler_View (pr_paste p) r w v))"
    using g n by (auto simp: PasteHandler_View_def Let_def split: sum.split)
qed (auto simp: PasteHandler_Raw_def PasteHandler_Delete_def Let_def
    intro: exec_does [of 1, simplified] split: sum.split option.split prod.split)

lemma does_bucket:
  "does get_call (pr_bcrypt p) 1 v (snd (BucketHandler_View (pr_bucket p) r w v))"
  "does get_call (pr_bcrypt p) 1 v (snd (BucketHandler_DownloadFile (pr_bucket p) r w v))"
  "does get_call (pr_bcrypt p) 1 v (snd (BucketHandler_DownloadZIP (pr_bucket p) r w v))"
  "does get_call (pr_bcrypt p) 1 v (snd (BucketHandler_DeleteBucket (pr_bucket p) r w v))"
  by (auto simp: BucketHandler_View_def BucketHandler_DownloadFile_def
      BucketHandler_DownloadZIP_def BucketHandler_DeleteBucket_def Let_def
      intro: exec_does [of 1, simplified] split: sum.split option.split prod.split)

lemma does_view: "does get_call (pr_bcrypt p) 3 v (snd (view_dispatch p s r w v))"
  by (auto simp: view_dispatch_def intro: does_trans [OF exec_does(2) [of 1, simplified] does_file(1)]
      does_trans [OF exec_does(2) [of 1, simplified] does_paste(1)] split: prod.split)

lemma does_delete: "does get_call (pr_bcrypt p) 3 v (snd (delete_dispatch p s r w v))"
  by (auto simp: delete_dispatch_def intro: does_trans [OF exec_does(2) [of 1, simplified] does_file(3)]
      does_trans [OF exec_does(2) [of 1, simplified] does_paste(3)] split: prod.split)

lemma world_kept [simp]:
  "snd (Health r w v) = v" "snd (http_NotFound r w v) = v" "snd (http_Redirect u c r w v) = v"
  "snd (http_MethodNotAllowed a r w v) = v" "snd (UI_Home r w v) = v" "snd (UI_Paste r w v) = v" "snd (UI_Bucket r w v) = v"
  by (simp_all add: Health_def http_NotFound_def http_Redirect_def http_MethodNotAllowed_def UI_Home_def UI_Paste_def
      UI_Bucket_def Let_def)

lemma BasicAuth_world:
  assumes "\<And>r w. P (snd (next r w v))" and "P v"
  shows "P (snd (BasicAuth cfg next r w v))"
  using assms by (cases "authorized cfg r") (simp_all add: BasicAuth_granted BasicAuth_denied)

lemma does_if: "does P bc n v (snd a) \<Longrightarrow> does P bc n v (snd b) \<Longrightarrow> does P bc n v (snd (if c then a else b))"
  by simp

lemma does_kept: "snd x = v \<Longrightarrow> does P bc n v (snd x)"
  by simp

lemma does_auth_kept: "(\<And>q u. snd (H q u v) = v) \<Longrightarrow> does P bc n v (snd (BasicAuth cfg H r w v))"
  by (rule BasicAuth_world [where P = "does P bc n v"]) simp_all

lemmas does_handlers =
  does_view does_delete does_mono [OF does_file(2), of 3, simplified] does_mono [OF does_paste(2), of 3, simplified]
  does_mono [OF does_bucket(1), of 3, simplified] does_mono [OF does_bucket(2), of 3, simplified]
  does_mono [OF does_bucket(3), of 3, simplified] does_mono [OF does_bucket(4), of 3, simplified]

lemma does_catch_all: "does get_call (pr_bcrypt p) 3 v (snd (catch_all p r w v))"
  unfolding catch_all_def Let_def
  by (rule does_if does_handlers does_auth_kept does_kept world_kept)+

text \<open>A request that is not a POST, and one without the credentials, makes only the calls of a GET.\<close>

lemma does_get:
  assumes "rq_Method r = ''POST'' \<longrightarrow> \<not> authorized (pr_Auth p) r"
  shows "does get_call (pr_bcrypt p) 3 v (snd (serve_mux p r w v))"
proof -
  have post: "does get_call (pr_bcrypt p) 3 v (snd (BasicAuth (pr_Auth p) H r w v))" if "rq_Method r = ''POST''" for H
    using assms that BasicAuth_denied by simp
  show ?thesis
  proof (cases "rq_Method r = ''POST''")
    case True
    then show ?thesis
      unfolding serve_mux_def Let_def by (intro does_if does_catch_all does_auth_kept post does_kept world_kept)
  next
    case False
    then have "(rq_Method r = ''POST'' \<and> X) = False" for X by simp
    then show ?thesis
      unfolding serve_mux_def Let_def
      by (simp only: if_False) (intro does_if does_catch_all does_auth_kept does_kept world_kept)
  qed
qed

lemma does_serve_mux: "does http_call (pr_bcrypt p) 3 v (snd (serve_mux p r w v))"
proof -
  note create = does_mono [OF does_create(1), of 3, simplified] does_mono [OF does_create(2), of 3, simplified]
    does_mono [OF does_create(3), of 3, simplified]
  have "does http_call (pr_bcrypt p) 3 v (snd (upload_dispatch p q u v))" for q u
    unfolding upload_dispatch_def by (intro does_if create)
  then have up: "does http_call (pr_bcrypt p) 3 v (snd (BasicAuth (pr_Auth p) (upload_dispatch p) r w v))"
    by (rule BasicAuth_world [where P = "does http_call (pr_bcrypt p) 3 v"]) simp
  have cr: "does http_call (pr_bcrypt p) 3 v (snd (BasicAuth (pr_Auth p) (PasteHandler_Create (pr_paste p)) r w v))"
    by (rule BasicAuth_world [where P = "does http_call (pr_bcrypt p) 3 v"]) (rule create does_refl)+
  show ?thesis
    unfolding serve_mux_def Let_def by (rule does_if get_does [OF does_catch_all] up cr does_auth_kept does_kept world_kept)+
qed

lemma does_pbin: "does http_call (pr_bcrypt p) 3 v (snd (pbin p r v))"
  using pbin_cases [of p r v] does_serve_mux by auto

lemma does_sys_ok:
  assumes "does P bc n v v'" and "sys_ok v"
  shows "sys_ok v'"
proof -
  from assms(1) obtain cs xs where "run bc [] cs v = (xs, v')" by (metis does_def prod.collapse)
  from run_sys_ok [OF this assms(2)] show ?thesis by simp
qed

text \<open>The calls of a GET draw no slug, so nothing appears that was not there.\<close>

lemma get_call_draws: "get_call c \<Longrightarrow> \<not> draws c w s"
  by (cases c) simp_all

lemma get_redraws: "list_all get_call cs \<Longrightarrow> \<not> redraws bc url s cs w"
  by (induction cs arbitrary: w) (simp_all add: get_call_draws)

lemma evolves_map_le:
  assumes "\<And>s. evolves view used s d d'"
  shows "view d' \<subseteq>\<^sub>m view d"
  unfolding map_le_def
proof
  fix s assume "s \<in> dom (view d')"
  with assms [of s] show "view d' s = view d s" by (auto simp: evolves_def)
qed

lemma does_get_views:
  assumes "does get_call bc n v v'" and "sys_ok v" and "bcrypt_ok bc"
  shows "file_view (w_db v') \<subseteq>\<^sub>m file_view (w_db v)" and "paste_view (w_db v') \<subseteq>\<^sub>m paste_view (w_db v)"
    and "bucket_view (w_db v') \<subseteq>\<^sub>m bucket_view (w_db v)"
proof -
  from assms(1) obtain cs xs where cs: "list_all get_call cs" "run bc [] cs v = (xs, v')" by (metis does_def prod.collapse)
  note ev = run_evolves [OF cs(2) assms(2,3) get_redraws [OF cs(1)]]
  show "file_view (w_db v') \<subseteq>\<^sub>m file_view (w_db v)" using ev(1) by (rule evolves_map_le)
  show "paste_view (w_db v') \<subseteq>\<^sub>m paste_view (w_db v)" using ev(2) by (rule evolves_map_le)
  show "bucket_view (w_db v') \<subseteq>\<^sub>m bucket_view (w_db v)" using ev(3) by (rule evolves_map_le)
qed

end
