(* ===== verification/Demo.thy ===== *)
theory Demo
  imports Server
begin

text \<open>
  Concrete inputs on which the hypotheses of the properties are discharged: a fresh world with
  random bytes, one upload of each kind, and the worlds they lead to.
\<close>

definition demo_world :: world where
  "demo_world = initial\<lparr>w_rand := replicate 100 0\<rparr>"

definition demo_request :: file_UploadRequest where
  "demo_request = \<lparr>fu_Filename = ''a.png'', fu_MimeType = ''image/png'', fu_Size = 3, fu_Expiry = ''10m'',
     fu_Password = ''pw'', fu_OneUse = True, fu_Content = \<lparr>rd_data = ''abc'', rd_fails = False\<rparr>\<rparr>"

definition demo_slug :: string where
  "demo_slug = replicate 12 CHR ''a''"

definition demo_uploaded :: world where
  "demo_uploaded = snd (File_Upload plain_bcrypt (fileService '''') demo_request demo_world)"

lemma demo_ok [simp]: "sys_ok demo_world" "keys_ok (w_db demo_world)"
  using sys_ok_initial keys_ok_initial by (simp_all add: demo_world_def sys_ok_def)

lemma demo_upload:
  "\<exists>res. File_Upload plain_bcrypt (fileService '''') demo_request demo_world = (Inr res, demo_uploaded) \<and>
     fur_Slug res = demo_slug \<and> fur_ExpiresAt res = Some 600000000000"
proof -
  have "case fst (File_Upload plain_bcrypt (fileService '''') demo_request demo_world) of
      Inl e \<Rightarrow> False | Inr res \<Rightarrow> fur_Slug res = demo_slug \<and> fur_ExpiresAt res = Some 600000000000"
    by code_simp
  then show ?thesis
    by (cases "File_Upload plain_bcrypt (fileService '''') demo_request demo_world")
      (simp add: demo_uploaded_def split: sum.splits)
qed

definition bad_request :: file_UploadRequest where
  "bad_request = demo_request\<lparr>fu_Expiry := ''2h''\<rparr>"

lemma demo_uploaded_ok [simp]: "sys_ok demo_uploaded"
proof -
  obtain res where "exec plain_bcrypt '''' (FileUpload demo_request) demo_world = (FileUploaded (Inr res), demo_uploaded)"
    using demo_upload by auto
  from exec_sys_ok(1) [OF this demo_ok(1)] show ?thesis .
qed

lemma demo_slug_valid [simp]: "validKey demo_slug"
  by code_simp

lemma demo_uploaded_db:
  "w_db demo_uploaded =
    \<lparr>db_files = [\<lparr>fr_slug = demo_slug, fr_filename = ''a.png'', fr_size = 3, fr_mime_type = ''image/png'',
       fr_password = Some ''$2a$12$pw'', fr_one_use = 1, fr_downloaded_at = None, fr_expires_at = Some 600,
       fr_created_at = 0, fr_delete_secret = Some (replicate 24 CHR ''a'')\<rparr>],
     db_buckets = [], db_bucket_files = [], db_bucket_files_seq = 0, db_pastes = []\<rparr>"
  by code_simp

lemma demo_uploaded_now: "w_now demo_uploaded = 0"
  by code_simp

lemma demo_uploaded_bytes: "fs_content (w_fs demo_uploaded) demo_slug = Some ''abc''"
  by code_simp

lemma demo_uploaded_view:
  "file_view (w_db demo_uploaded) demo_slug = Some \<lparr>f_Slug = demo_slug, f_Filename = ''a.png'', f_Size = 3,
     f_MimeType = ''image/png'', f_PasswordHash = ''$2a$12$pw'', f_OneUse = True, f_Expiry = [],
     f_DeleteSecret = replicate 24 CHR ''a'', f_ExpiresAt = Some (600 * second)\<rparr>"
  "\<not> file_used (w_db demo_uploaded) demo_slug"
  by (simp_all add: demo_uploaded_db file_view_def file_used_def tbl_select_def file_of_row_def coalesce_def
      time_Unix_def)

lemma result_cases: "case fst p of Inl e \<Rightarrow> False | Inr r \<Rightarrow> P r \<Longrightarrow> \<exists>r. p = (Inr r, snd p) \<and> P r"
  by (cases p) (auto split: sum.splits)

definition demo_paste :: paste_CreateRequest where
  "demo_paste = \<lparr>pc_Title = ''t'', pc_Content = ''hello'', pc_Lang = [], pc_Expiry = ''1h'', pc_Password = [],
     pc_OneUse = True\<rparr>"

definition demo_pasted :: world where
  "demo_pasted = snd (Paste_Create plain_bcrypt (pasteService '''') demo_paste demo_world)"

lemma demo_paste_created:
  "\<exists>res. Paste_Create plain_bcrypt (pasteService '''') demo_paste demo_world = (Inr res, demo_pasted) \<and>
     pcr_Slug res = demo_slug"
proof -
  have "case fst (Paste_Create plain_bcrypt (pasteService '''') demo_paste demo_world) of
      Inl e \<Rightarrow> False | Inr res \<Rightarrow> pcr_Slug res = demo_slug" by code_simp
  from result_cases [OF this] show ?thesis by (simp add: demo_pasted_def)
qed

lemma demo_pasted_ok [simp]: "sys_ok demo_pasted"
proof -
  obtain res where "exec plain_bcrypt '''' (PasteCreate demo_paste) demo_world = (PasteCreated (Inr res), demo_pasted)"
    using demo_paste_created by auto
  from exec_sys_ok(1) [OF this demo_ok(1)] show ?thesis .
qed

definition demo_bucket :: bucket_CreateRequest where
  "demo_bucket = \<lparr>bq_Files = [\<lparr>fi_Filename = ''x.txt'', fi_MimeType = [], fi_Size = 2,
     fi_Content = \<lparr>rd_data = ''hi'', rd_fails = False\<rparr>\<rparr>], bq_Expiry = ''1h'', bq_Password = [], bq_OneUse = True\<rparr>"

definition demo_bucketed :: world where
  "demo_bucketed = snd (Bucket_Create plain_bcrypt (bucketService '''') demo_bucket demo_world)"

lemma demo_bucket_created:
  "\<exists>res. Bucket_Create plain_bcrypt (bucketService '''') demo_bucket demo_world = (Inr res, demo_bucketed) \<and>
     bcr_Slug res = demo_slug"
proof -
  have "case fst (Bucket_Create plain_bcrypt (bucketService '''') demo_bucket demo_world) of
      Inl e \<Rightarrow> False | Inr res \<Rightarrow> bcr_Slug res = demo_slug" by code_simp
  from result_cases [OF this] show ?thesis by (simp add: demo_bucketed_def)
qed

lemma demo_bucketed_ok [simp]: "sys_ok demo_bucketed"
proof -
  obtain res where "exec plain_bcrypt '''' (BucketCreate demo_bucket) demo_world = (BucketCreated (Inr res), demo_bucketed)"
    using demo_bucket_created by auto
  from exec_sys_ok(1) [OF this demo_ok(1)] show ?thesis .
qed

lemma demo_bucketed_view:
  "case bucket_view (w_db demo_bucketed) demo_slug of None \<Rightarrow> False
     | Some b \<Rightarrow> b_OneUse b \<and> map bf_StorageKey (b_Files b) = [demo_slug] \<and> b_ExpiresAt b = Some (3600 * second)"
  by code_simp

definition two_files :: bucket_CreateRequest where
  "two_files = demo_bucket\<lparr>bq_Files :=
     [\<lparr>fi_Filename = ''x.txt'', fi_MimeType = [], fi_Size = 2, fi_Content = \<lparr>rd_data = ''hi'', rd_fails = False\<rparr>\<rparr>,
      \<lparr>fi_Filename = ''y.txt'', fi_MimeType = [], fi_Size = 2, fi_Content = \<lparr>rd_data = ''yo'', rd_fails = False\<rparr>\<rparr>]\<rparr>"

end
