(* ===== verification/Web.thy ===== *)
theory Web
  imports Demo
begin

text \<open>
  The server from the outside: properties of whole requests, through mux, authentication,
  handler, service, database and disk.
\<close>

section \<open>Requests\<close>

lemma password_attempt_upd [simp]:
  "password_attempt (SetPathValue k x r) = password_attempt r"
  "password_attempt (r\<lparr>rq_BaseURL := u\<rparr>) = password_attempt r"
  by (simp_all add: password_attempt_def Header_Get_def Query_Get_def Let_def)

lemma request_upd [simp]:
  "is_get (r\<lparr>rq_BaseURL := u\<rparr>) = is_get r" "authorized cfg (r\<lparr>rq_BaseURL := u\<rparr>) = authorized cfg r"
  "Query_Get (r\<lparr>rq_BaseURL := u\<rparr>) k = Query_Get r k"
  "ParseMultipartForm n (r\<lparr>rq_BaseURL := u\<rparr>) = ParseMultipartForm n r"
  "form_expiry (r\<lparr>rq_BaseURL := u\<rparr>) f = form_expiry r f" "FormValue (r\<lparr>rq_BaseURL := u\<rparr>) f k = FormValue r f k"
  by (simp_all add: is_get_def authorized_def Query_Get_def ParseMultipartForm_def form_expiry_def FormValue_def)

section \<open>Concrete requests\<close>

text \<open>A configured program, an upload form and the requests on the worlds of Demo that the witnesses use.\<close>

definition demo_program :: program where
  "demo_program = \<lparr>pr_bcrypt = plain_bcrypt, pr_IsPrint = (\<lambda>s. True),
     pr_Auth = \<lparr>ac_Enabled = True, ac_Username = ''u'', ac_Password = ''p''\<rparr>, pr_MaxBytes = 1000, pr_PublicURL = ''https://h''\<rparr>"

definition demo_get :: "string \<Rightarrow> string \<Rightarrow> request" where
  "demo_get path pw = \<lparr>rq_Method = ''GET'', rq_Path = path, rq_Query = [], rq_Header = [(''X-Password'', pw)],
     rq_Host = ''h'', rq_TLS = False, rq_BasicAuth = None, rq_Body = \<lparr>bd_Read = 0, bd_Form = None, bd_Json = None\<rparr>,
     rq_BaseURL = None, rq_PathValue = []\<rparr>"

definition demo_part :: part where
  "demo_part = \<lparr>pt_Filename = ''a.png'', pt_Size = 9,
     pt_Content = \<lparr>rd_data = [CHR 0x89, CHR ''P'', CHR ''N'', CHR ''G'', CHR 0x0D, CHR 0x0A, CHR 0x1A, CHR 0x0A, CHR ''x''],
       rd_fails = False\<rparr>, pt_opens = True\<rparr>"

definition demo_form :: form where
  "demo_form = \<lparr>fm_Value = [(''password'', ''pw''), (''expiry'', ''10m'')], fm_File = [(''file'', demo_part)]\<rparr>"

definition demo_post :: request where
  "demo_post = (demo_get ''/api/upload'' [])\<lparr>rq_Method := ''POST'', rq_BasicAuth := Some (''u'', ''p''),
     rq_Body := \<lparr>bd_Read = 100, bd_Form = Some demo_form, bd_Json = None\<rparr>\<rparr>"

definition demo_posted :: world where
  "demo_posted = snd (File_Upload plain_bcrypt (fileService []) (upload_request demo_post demo_form demo_part) demo_world)"

lemma demo_program_sel [simp]:
  "pr_bcrypt demo_program = plain_bcrypt" "pr_MaxBytes demo_program = 1000"
  "authorized (pr_Auth demo_program) r \<longleftrightarrow> rq_BasicAuth r = Some (''u'', ''p'')"
  by (simp_all add: demo_program_def authorized_def)

lemma demo_get_sel [simp]:
  "is_get (demo_get path pw)" "rq_Path (demo_get path pw) = path" "password_attempt (demo_get path pw) = pw"
  "rq_BasicAuth (demo_get path pw) = None"
  by (simp_all add: demo_get_def is_get_def password_attempt_def Header_Get_def Query_Get_def first_value_def)

lemma demo_post_upload:
  "\<exists>res. File_Upload plain_bcrypt (fileService []) (upload_request demo_post demo_form demo_part) demo_world = (Inr res, demo_posted) \<and>
     fur_Slug res = demo_slug"
proof -
  have "case fst (File_Upload plain_bcrypt (fileService []) (upload_request demo_post demo_form demo_part) demo_world) of
      Inl e \<Rightarrow> False | Inr res \<Rightarrow> fur_Slug res = demo_slug" by code_simp
  from result_cases [OF this] show ?thesis by (simp add: demo_posted_def)
qed

lemma demo_slug_plain [simp]: "plain_slug demo_slug" "length demo_slug = 12"
  using plain_slug_drawn [OF demo_slug_valid] by (simp_all add: demo_slug_def)

section \<open>Share links\<close>

text \<open>GET of a share link reaches the handler of the file or, without one, of the paste.\<close>

lemma get_slug:
  assumes "is_get r" and "rq_Path r = slash # s" and "plain_slug s"
  obtains u where "pbin p r v = view_dispatch p s (SetPathValue ''slug'' s (r\<lparr>rq_BaseURL := u\<rparr>)) new_writer v"
proof -
  obtain u where "pbin p r v = serve_mux p (r\<lparr>rq_BaseURL := u\<rparr>) new_writer v" using pbin_cases by blast
  moreover have "serve_mux p (r\<lparr>rq_BaseURL := u\<rparr>) new_writer v = view_dispatch p s (SetPathValue ''slug'' s (r\<lparr>rq_BaseURL := u\<rparr>)) new_writer v"
    by (rule routes(1) [OF _ assms(3) fixed_segments(1)]) (use assms in \<open>simp_all add: path_of_def segment_def\<close>)
  ultimately show thesis using that by simp
qed

lemma plain_slug_nonempty: "plain_slug s \<Longrightarrow> s \<noteq> []"
  by (auto simp: plain_slug_def segment_def)

lemma get_file:
  assumes "is_get r" and "rq_Path r = slash # s" and s: "plain_slug s" "validKey s"
    and calm: "all_calm v" and ok: "sys_ok v" and f: "file_view (w_db v) s = Some f"
  obtains r' v1 where "pbin p r v = FileHandler_Serve (pr_file p) r' new_writer v1"
    "PathValue r' ''slug'' = s" "password_attempt r' = password_attempt r" "same_but_env v v1" "all_calm v1" "sys_ok v1"
proof -
  obtain u where p: "pbin p r v = view_dispatch p s (SetPathValue ''slug'' s (r\<lparr>rq_BaseURL := u\<rparr>)) new_writer v"
    using get_slug [OF assms(1-3)] by blast
  from File_GetMeta_decides [OF calm, of "[]" s] obtain v1 where v1: "same_but_env v v1" "all_calm v1"
    and g: "File_GetMeta (fileService []) s v =
      (case file_view (w_db v) s of None \<Rightarrow> Inl (Sentinel File_ErrNotFound)
       | Some f \<Rightarrow> if is_expired (w_now v) (f_ExpiresAt f) then Inl (Sentinel File_ErrExpired) else Inr f, v1)" by blast
  have "sys_ok v1" using ok same_but_envD [OF v1(1)] by (simp add: sys_ok_def)
  with p g f v1 show thesis
    by (intro that [of "SetPathValue ''slug'' s (r\<lparr>rq_BaseURL := u\<rparr>)" v1]) (simp_all add: view_dispatch_def)
qed

text \<open>
  C33. What a visitor of a share link is told, in full, when nothing fails: the file under the slug
  decides if there is one, otherwise the paste; expired and consumed content is 410, a missing
  or wrong password 401, an unknown slug 404, and 500 is left for bytes that are missing and for
  an empty random source.
\<close>

theorem http_view_status:
  assumes "is_get r" and "rq_Path r = slash # s" and "plain_slug s" and "validKey s"
    and "all_calm v" and "sys_ok v"
  shows "response_status (fst (pbin p r v)) =
    (let pw = password_attempt r; bc = pr_bcrypt p in
     case file_view (w_db v) s of
       Some f \<Rightarrow>
         if is_expired (w_now v) (f_ExpiresAt f) then 410
         else if \<not> check_password bc (f_PasswordHash f) pw then 401
         else if f_OneUse f \<and> file_used (w_db v) s then 410
         else if fs_content (w_fs v) s = None then 500 else 200
     | None \<Rightarrow>
         (case paste_view (w_db v) s of
            None \<Rightarrow> 404
          | Some q \<Rightarrow>
              if is_expired (w_now v) (p_ExpiresAt q) then 410
              else if \<not> check_password bc (p_PasswordHash q) pw then 401
              else if p_OneUse q \<and> paste_used (w_db v) s then 410
              else if length (w_rand v) < 16 then 500 else 200))"
proof (cases "file_view (w_db v) s")
  case (Some f)
  obtain r' v1 where r': "pbin p r v = FileHandler_Serve (pr_file p) r' new_writer v1" "PathValue r' ''slug'' = s"
    "password_attempt r' = password_attempt r" and v1: "same_but_env v v1" "all_calm v1" "sys_ok v1"
    using get_file [OF assms(1-6) Some, of p] by blast
  note same = same_but_envD [OF v1(1)]
  obtain x v2 where g: "File_Get (pr_bcrypt p) (fileService []) s (password_attempt r) v1 = (x, v2)" by (rule prod.exhaust)
  have "files_ok (w_db v1)" using v1(3) by (simp add: sys_ok_def)
  note calm = File_Get_calm [OF v1(2) this assms(4), of "pr_bcrypt p" "[]" "password_attempt r"]
  have "response_status (fst (pbin p r v)) =
      read_status File_ErrNotFound File_ErrExpired File_ErrAlreadyConsumed File_ErrWrongPassword x"
    unfolding r'(1) by (rule Serve_status(2)) (use r' g plain_slug_nonempty assms(3) in simp_all)
  with calm g same Some show ?thesis
    by (auto simp: Let_def read_status_def file_access_def split: option.splits)
next
  case None
  obtain u where p: "pbin p r v = view_dispatch p s (SetPathValue ''slug'' s (r\<lparr>rq_BaseURL := u\<rparr>)) new_writer v"
    using get_slug [OF assms(1-3)] by blast
  let ?r = "SetPathValue ''slug'' s (r\<lparr>rq_BaseURL := u\<rparr>)"
  from File_GetMeta_decides [OF assms(5), of "[]" s] None obtain v1 where v1: "same_but_env v v1" "all_calm v1"
    and g: "File_GetMeta (fileService []) s v = (Inl (Sentinel File_ErrNotFound), v1)" by auto
  note same = same_but_envD [OF v1(1)]
  have r': "pbin p r v = PasteHandler_View (pr_paste p) ?r new_writer v1" using p g by (simp add: view_dispatch_def)
  obtain x v2 where x: "Paste_Get (pr_bcrypt p) (pasteService []) s (password_attempt r) v1 = (x, v2)" by (rule prod.exhaust)
  have "pastes_ok (w_db v1)" using assms(6) same by (simp add: sys_ok_def)
  note calm = Paste_Get_calm [OF v1(2) this, of "pr_bcrypt p" "[]" s "password_attempt r"]
  have rand: "w_rand v2 = w_rand v" using Paste_Get_frame [OF x] same by (simp add: same_but_db_def)
  show ?thesis
  proof (cases "16 \<le> length (w_rand v2)")
    case True
    have "response_status (fst (pbin p r v)) =
        read_status Paste_ErrNotFound Paste_ErrExpired Paste_ErrAlreadyConsumed Paste_ErrWrongPassword x"
      unfolding r' by (rule View_status [OF _ _ _ True]) (use x plain_slug_nonempty assms(3) in simp_all)
    with calm x same None True rand show ?thesis
      by (auto simp: Let_def read_status_def paste_access_def split: option.splits)
  next
    case False
    have "response_status (fst (pbin p r v)) = (case x of Inr g \<Rightarrow> 500 | Inl e \<Rightarrow>
        read_status Paste_ErrNotFound Paste_ErrExpired Paste_ErrAlreadyConsumed Paste_ErrWrongPassword x)"
      unfolding r' using x plain_slug_nonempty [OF assms(3)] False
      by (auto simp: PasteHandler_View_def Let_def paste_get_error_status generateNonce_def split: sum.split)
    with calm x same None False rand show ?thesis
      by (auto simp: Let_def read_status_def paste_access_def split: option.splits)
  qed
qed

theorem http_view_status_witness:
  "response_status (fst (pbin demo_program (demo_get (''/'' @ demo_slug) ''no'') (demo_uploaded\<lparr>w_env := []\<rparr>))) = 401"
proof -
  let ?v = "demo_uploaded\<lparr>w_env := []\<rparr>"
  have ok: "all_calm ?v" "sys_ok ?v" using demo_uploaded_ok by (simp_all add: all_calm_def sys_ok_def)
  show ?thesis
    by (subst http_view_status [OF demo_get_sel(1) _ demo_slug_plain(1) demo_slug_valid ok])
      (simp_all add: Let_def demo_uploaded_view demo_uploaded_now plain_bcrypt_def check_password_def is_expired_def time_After_def second_def)
qed


section \<open>Headers\<close>















section \<open>Authentication\<close>

text \<open>The routes that create content or show the forms.\<close>

definition protected :: "request \<Rightarrow> bool" where
  "protected r \<longleftrightarrow> rq_Method r = ''POST'' \<and> rq_Path r \<in> {''/api/upload'', ''/api/paste''} \<or>
     is_get r \<and> rq_Path r \<in> {''/'', ''/paste'', ''/bucket''}"

lemma clean_paths [simp]:
  "cleanPath ''/api/upload'' = ''/api/upload''" "cleanPath ''/api/paste'' = ''/api/paste''" "cleanPath ''/'' = ''/''"
  "cleanPath ''/paste'' = ''/paste''" "cleanPath ''/bucket'' = ''/bucket''" "path_parts ''/'' = []"
  by code_simp+

lemma protected_denied:
  assumes "protected r" and "\<not> authorized (pr_Auth p) r"
  shows "serve_mux p r w v = (writeUnauthorized
    (Header_Set ''X-Frame-Options'' ''DENY'' (Header_Set ''X-Content-Type-Options'' ''nosniff'' w)), v)"
  using assms by (auto simp: protected_def serve_mux_def catch_all_def is_get_def BasicAuth_denied)

text \<open>
  C27. With authentication on, a request without the configured credentials creates nothing: no
  file, paste or bucket is there afterwards that was not there before. On the routes that create
  content or show the forms it gets 401 and a challenge, and the world is exactly as before.
\<close>

theorem http_auth:
  assumes "bcrypt_ok (pr_bcrypt p)" and "sys_ok v" and "\<not> authorized (pr_Auth p) r"
    and "pbin p r v = (resp, v')"
  shows "file_view (w_db v') \<subseteq>\<^sub>m file_view (w_db v) \<and> paste_view (w_db v') \<subseteq>\<^sub>m paste_view (w_db v) \<and>
    bucket_view (w_db v') \<subseteq>\<^sub>m bucket_view (w_db v) \<and>
    (protected r \<longrightarrow> response_status resp = 401 \<and> v' = v \<and>
       response_header resp ''WWW-Authenticate'' = Some ''Basic realm=\"pbin\"'')"
proof -
  obtain u where u: "pbin p r v = serve_mux p (r\<lparr>rq_BaseURL := u\<rparr>) new_writer v" using pbin_cases by blast
  have auth: "\<not> authorized (pr_Auth p) (r\<lparr>rq_BaseURL := u\<rparr>)" using assms(3) by simp
  then have "does get_call (pr_bcrypt p) 3 v v'"
    using does_get [of "r\<lparr>rq_BaseURL := u\<rparr>" p v new_writer] u assms(4) by (metis snd_conv)
  note views = does_get_views [OF this assms(2,1)]
  have "protected (r\<lparr>rq_BaseURL := u\<rparr>) = protected r" by (simp add: protected_def)
  with protected_denied [OF _ auth, of new_writer v] u assms(4) views show ?thesis
    by (auto simp: writeUnauthorized_def response_header_def)
qed

theorem http_auth_witness:
  "response_status (fst (pbin demo_program (demo_get ''/'' []) demo_uploaded)) = 401 \<and>
   snd (pbin demo_program (demo_get ''/'' []) demo_uploaded) = demo_uploaded"
  using http_auth [OF _ demo_uploaded_ok _ surjective_pairing, of demo_program "demo_get ''/'' []"] plain_bcrypt_ok
  by (simp add: protected_def)

text \<open>
  Whatever is sent, a request is at most three calls of the services in a row (none of them
  a sweep): so every property of the runs holds of requests in any order.
\<close>

theorem requests_are_calls:
  "\<exists>cs. list_all http_call cs \<and> length cs \<le> 3 \<and> snd (pbin p r v) = snd (run (pr_bcrypt p) [] cs v)"
  using does_pbin [of p v r] unfolding does_def .

end
