(* ===== verification/Web_Content.thy ===== *)
theory Web_Content
  imports Web
begin

text \<open>
  What a visitor gets to see: an upload and its download over HTTP, what is served inline, the
  markup of the pages, the links of the route table and the answer to an archive that fails.
\<close>

section \<open>From upload to download\<close>

lemma post_upload:
  assumes "rq_Method r = ''POST''" and "rq_Path r = ''/api/upload''" and "Query_Get r ''type'' \<noteq> ''bucket''"
    and "authorized (pr_Auth p) r"
  obtains u w where "pbin p r v = FileHandler_Upload (pr_file p) (r\<lparr>rq_BaseURL := u\<rparr>) w v" "rw_Sent w = None" "rw_Body w = []"
proof -
  obtain u where u: "pbin p r v = serve_mux p (r\<lparr>rq_BaseURL := u\<rparr>) new_writer v" using pbin_cases by blast
  define w where "w = (if ac_Enabled (pr_Auth p)
    then Header_Set ''X-Frame-Options'' ''DENY'' (Header_Set ''X-Content-Type-Options'' ''nosniff'' new_writer) else new_writer)"
  have "pbin p r v = FileHandler_Upload (pr_file p) (r\<lparr>rq_BaseURL := u\<rparr>) w v"
    using u assms mux_post(1) [of "r\<lparr>rq_BaseURL := u\<rparr>" p new_writer v]
      BasicAuth_granted [of "pr_Auth p" "r\<lparr>rq_BaseURL := u\<rparr>" "upload_dispatch p" new_writer v]
    by (simp add: upload_dispatch_def w_def)
  then show thesis by (rule that) (simp_all add: w_def)
qed

text \<open>A created answer means the service stored the file; its links lead to the slug.\<close>

lemma upload_created:
  assumes "FileHandler_Upload (pr_file p) r w v = (resp, v1)" and "rw_Sent w = None" and "rw_Body w = []"
    and "ParseMultipartForm (pr_MaxBytes p) r = Inr f" and "FormFile f ''file'' = Some pt" and "response_status resp = 201"
  obtains res where "File_Upload (pr_bcrypt p) (fileService []) (upload_request r f pt) v = (Inr res, v1)"
    "rw_Body resp = [Json (uploadResponse r res)]"
proof -
  obtain x v2 where x: "File_Upload (pr_bcrypt p) (fileService []) (upload_request r f pt) v = (x, v2)" by (rule prod.exhaust)
  with assms that show thesis by (cases x) (auto simp: FileHandler_Upload_def)
qed

text \<open>
  C28. From browser to browser: when an upload over HTTP is answered with 201, the answer's
  download link ends in a fresh slug of twelve letters and digits, and whoever opens that link
  with the password of the form, up to one second before the end of the chosen expiry, gets 200
  and exactly the bytes of the form's file, as an image if it was recognised as one and as an
  opaque download otherwise, provided nothing fails and the file was not touched in between.
\<close>

theorem http_upload_then_download:
  assumes bc: "bcrypt_ok (pr_bcrypt p)" and ok: "sys_ok v"
    and post: "rq_Method r = ''POST''" "rq_Path r = ''/api/upload''" "Query_Get r ''type'' \<noteq> ''bucket''" "authorized (pr_Auth p) r"
    and form: "ParseMultipartForm (pr_MaxBytes p) r = Inr f" "FormFile f ''file'' = Some pt"
    and preset: "map_of file_validExpiries (form_expiry r f) = Some d" "d = 0 \<or> t \<le> w_now v + d - second"
    and created: "pbin p r v = (resp, v1)" "response_status resp = 201"
    and v2: "v2 = v1\<lparr>w_now := t, w_env := []\<rparr>"
  shows "\<exists>slug base js. length slug = 12 \<and> validKey slug \<and> file_view (w_db v) slug = None \<and>
    rw_Body resp = [Json (JObject js)] \<and> map_of js ''download_url'' = Some (JString (base @ slash # slug)) \<and>
    (\<forall>g. is_get g \<and> rq_Path g = slash # slug \<and> password_attempt g = FormValue r f ''password'' \<longrightarrow>
       response_status (fst (pbin p g v2)) = 200 \<and>
       rw_Body (fst (pbin p g v2)) = [Bytes (rd_data (pt_Content pt))] \<and>
       response_header (fst (pbin p g v2)) ''Content-Type'' =
         Some (if IsImage (file_mime (peek pt)) then file_mime (peek pt) else ''application/octet-stream''))"
proof -
  obtain u w where w: "pbin p r v = FileHandler_Upload (pr_file p) (r\<lparr>rq_BaseURL := u\<rparr>) w v" "rw_Sent w = None" "rw_Body w = []"
    using post_upload [OF post] by blast
  let ?r = "r\<lparr>rq_BaseURL := u\<rparr>"
  let ?q = "upload_request r f pt"
  have q: "upload_request ?r f pt = ?q" by (simp add: upload_request_def)
  from upload_created [OF w(1) [symmetric, unfolded created(1)] w(2,3) _ form(2) created(2)] form(1) q
  obtain res where up: "File_Upload (pr_bcrypt p) (fileService []) ?q v = (Inr res, v1)"
    and body: "rw_Body resp = [Json (uploadResponse ?r res)]" by auto
  have dok: "files_ok (w_db v)" using ok by (simp add: sys_ok_def)
  obtain slug where slug: "fur_Slug res = slug" "length slug = 12" "validKey slug" "file_view (w_db v) slug = None"
    and stored: "file_view (w_db v1) slug \<noteq> None"
    using up dok bc
  proof (cases rule: File_Upload_Inr)
    case (uploaded slug secret h d')
    with that [of slug] show ?thesis by (simp add: File_result_def validKey_charset)
  qed
  have ok1: "sys_ok v1"
    by (rule exec_sys_ok(1) [of "pr_bcrypt p" "[]" "FileUpload ?q" v _ v1, OF _ ok]) (use up in simp)
  have ok2: "sys_ok v2" and calm2: "all_calm v2" using ok1 by (simp_all add: v2 sys_ok_def all_calm_def)
  obtain js where js: "uploadResponse ?r res = JObject js" "map_of js ''download_url'' = Some (JString (baseURL ?r @ slash # slug))"
    using slug(1) by (simp add: uploadResponse_def)
  have get: "response_status (fst (pbin p g v2)) = 200 \<and>
       rw_Body (fst (pbin p g v2)) = [Bytes (rd_data (pt_Content pt))] \<and>
       response_header (fst (pbin p g v2)) ''Content-Type'' =
         Some (if IsImage (file_mime (peek pt)) then file_mime (peek pt) else ''application/octet-stream'')"
    if g: "is_get g" "rq_Path g = slash # slug" "password_attempt g = FormValue r f ''password''" for g
  proof -
    obtain e where e: "file_view (w_db v2) slug = Some e" using stored v2 by auto
    obtain g' v3 where g': "pbin p g v2 = FileHandler_Serve (pr_file p) g' new_writer v3" "PathValue g' ''slug'' = slug"
      "password_attempt g' = password_attempt g" and v3: "same_but_env v2 v3" "all_calm v3"
      using get_file [OF g(1,2) plain_slug_drawn [OF slug(3,2)] slug(3) calm2 ok2 e] by blast
    note same = same_but_envD [OF v3(1)]
    have "\<exists>x. fst (File_Get (pr_bcrypt p) (fileService []) (fur_Slug res) (fu_Password ?q) v3) = Inr x \<and>
        fg_Content x = rd_data (fu_Content ?q) \<and> f_Filename (fg_F x) = fu_Filename ?q \<and> f_MimeType (fg_F x) = fu_MimeType ?q \<and>
        f_Size (fg_F x) = fu_Size ?q \<and> fg_ExpiresAt x = map_option to_second (fur_ExpiresAt res) \<and> fg_IsImage x = fur_IsImage res"
      by (rule file_round_trip [OF bc ok up _ preset(2)]) (use preset(1) same v3(2) v2 in \<open>simp_all add: upload_request_def\<close>)
    then obtain x v4 where x: "File_Get (pr_bcrypt p) (fileService []) slug (FormValue r f ''password'') v3 = (Inr x, v4)"
      "fg_Content x = rd_data (pt_Content pt)" "f_MimeType (fg_F x) = file_mime (peek pt)"
      using slug(1) by (cases "File_Get (pr_bcrypt p) (fileService []) slug (FormValue r f ''password'') v3")
        (auto simp: upload_request_def)
    have "files_ok (w_db v3)" using ok2 same by (simp add: sys_ok_def)
    from File_Get_Inr [OF x(1) this] x(3) have img: "fg_IsImage x = IsImage (file_mime (peek pt))" by simp
    have "fst (pbin p g v2) = file_served (pr_file p) slug x (securityHeaders new_writer)"
      using g' g(3) x(1) plain_slug_nonempty [OF plain_slug_drawn [OF slug(3,2)]] by (simp add: FileHandler_Serve_def)
    with x(2,3) img show ?thesis by (simp add: file_served_sel)
  qed
  show ?thesis
    by (rule exI [of _ slug], rule exI [of _ "baseURL ?r"], rule exI [of _ js]) (use slug body js get in simp)
qed

theorem http_upload_then_download_witness:
  "\<exists>slug. length slug = 12 \<and>
     rw_Body (fst (pbin demo_program (demo_get (''/'' @ slug) ''pw'') (snd (pbin demo_program demo_post demo_world)\<lparr>w_now := 5, w_env := []\<rparr>))) =
       [Bytes (rd_data (pt_Content demo_part))]"
proof -
  obtain u w where w: "pbin demo_program demo_post demo_world = FileHandler_Upload (pr_file demo_program) (demo_post\<lparr>rq_BaseURL := u\<rparr>) w demo_world"
    "rw_Sent w = None" "rw_Body w = []"
    by (rule post_upload [of demo_post demo_program demo_world])
      (simp_all add: demo_post_def demo_get_def Query_Get_def first_value_def)
  obtain res where up: "File_Upload plain_bcrypt (fileService []) (upload_request demo_post demo_form demo_part) demo_world = (Inr res, demo_posted)"
    using demo_post_upload by blast
  have form: "ParseMultipartForm (pr_MaxBytes demo_program) demo_post = Inr demo_form" "FormFile demo_form ''file'' = Some demo_part"
    by (simp_all add: ParseMultipartForm_def demo_post_def FormFile_def demo_form_def demo_part_def)
  have "upload_request (demo_post\<lparr>rq_BaseURL := u\<rparr>) demo_form demo_part = upload_request demo_post demo_form demo_part"
    by (simp add: upload_request_def)
  then have created: "response_status (fst (pbin demo_program demo_post demo_world)) = 201"
    using w form up by (simp add: FileHandler_Upload_def)
  have preset: "map_of file_validExpiries (form_expiry demo_post demo_form) = Some (10 * minute)" by code_simp
  have t: "10 * minute = 0 \<or> (5 :: int) \<le> w_now demo_world + 10 * minute - second"
    by (simp add: demo_world_def initial_def time_units)
  have post: "rq_Method demo_post = ''POST''" "rq_Path demo_post = ''/api/upload''" "Query_Get demo_post ''type'' \<noteq> ''bucket''"
    "authorized (pr_Auth demo_program) demo_post" "FormValue demo_post demo_form ''password'' = ''pw''"
    by (simp_all add: demo_post_def demo_get_def Query_Get_def FormValue_def first_value_def demo_form_def)
  from http_upload_then_download [OF _ demo_ok(1) post(1-4) form preset t surjective_pairing created refl] plain_bcrypt_ok post(5)
  show ?thesis by auto
qed

text \<open>
  C29. Nothing is shown inline that is not an image: a file that came in over HTTP is served
  with the type of its form part and inline only if its first bytes carry the magic number of
  that image type; every other file is an attachment of the opaque type, whatever its name and
  whatever happened in between.
\<close>

theorem served_inline_is_image:
  assumes "bcrypt_ok bc" and "sys_ok v"
    and up: "File_Upload bc (fileService []) (upload_request r f pt) v = (Inr res, v1)"
    and cs: "run bc [] cs v1 = (xs, v2)" and nd: "\<not> redraws bc [] (fur_Slug res) cs v1"
    and get: "File_Get bc (fileService []) (fur_Slug res) pw v2 = (Inr g, v3)" and w: "rw_Sent w = None"
  shows "if IsImage (file_mime (peek pt))
    then validateImageMagic (file_mime (peek pt)) (peek pt) \<and> file_mime (peek pt) \<in> set SupportedImageMIMETypes \<and>
      response_header (file_served h (fur_Slug res) g w) ''Content-Type'' = Some (file_mime (peek pt))
    else response_header (file_served h (fur_Slug res) g w) ''Content-Type'' = Some ''application/octet-stream'' \<and>
      (\<exists>q. response_header (file_served h (fur_Slug res) g w) ''Content-Disposition'' = Some (''attachment; '' @ q))"
proof -
  have e: "exec bc [] (FileUpload (upload_request r f pt)) v = (FileUploaded (Inr res), v1)" using up by simp
  note ok1 = exec_sys_ok(1) [OF e assms(2)]
  have dok: "files_ok (w_db v)" "files_ok (w_db v2)"
    using assms(2) run_sys_ok [OF cs ok1] by (simp_all add: sys_ok_def)
  obtain e where v1: "file_view (w_db v1) (fur_Slug res) = Some e" and m: "f_MimeType e = file_mime (peek pt)"
    using up dok(1) assms(1)
  proof (cases rule: File_Upload_Inr)
    case (uploaded slug secret h d')
    with that [of "uploaded_file (upload_request r f pt) slug secret h (expiry_instant d' (w_now v))"] show ?thesis
      by (simp add: uploaded_file_def File_result_def upload_request_def)
  qed
  note gi = File_Get_Inr [OF get dok(2)]
  with run_evolves(1) [OF cs ok1 assms(1) nd] v1 have "fg_F g = e" by (auto simp: evolves_def)
  with gi m have img: "fg_IsImage g = IsImage (file_mime (peek pt))" "f_MimeType (fg_F g) = file_mime (peek pt)" by simp_all
  show ?thesis
    using file_served_sel [OF w, where h = h and slug = "fur_Slug res" and res = g] img file_mime_image [of "peek pt"]
    by (auto simp: IsImage_def)
qed

theorem served_inline_is_image_witness:
  "\<exists>g. fst (File_Get plain_bcrypt (fileService []) demo_slug ''pw'' demo_posted) = Inr g \<and>
     response_header (file_served (pr_file demo_program) demo_slug g new_writer) ''Content-Type'' = Some ''image/png''"
proof -
  let ?get = "File_Get plain_bcrypt (fileService []) demo_slug ''pw'' demo_posted"
  obtain res where up: "File_Upload plain_bcrypt (fileService []) (upload_request demo_post demo_form demo_part) demo_world = (Inr res, demo_posted)"
    and s: "fur_Slug res = demo_slug" using demo_post_upload by blast
  have "case fst ?get of Inl e \<Rightarrow> False | Inr g \<Rightarrow> True" by code_simp
  from result_cases [OF this] obtain g v where g: "?get = (Inr g, v)" by blast
  have img: "IsImage (file_mime (peek demo_part))" "file_mime (peek demo_part) = ''image/png''" by code_simp+
  have "response_header (file_served (pr_file demo_program) (fur_Slug res) g new_writer) ''Content-Type'' = Some (file_mime (peek demo_part))"
    using served_inline_is_image [OF plain_bcrypt_ok demo_ok(1) up, of "[]" "[]" demo_posted "''pw''" g v new_writer] g img(1)
    by (simp add: s)
  then show ?thesis using g img(2) s by (intro exI [of _ g]) simp
qed

section \<open>Pages\<close>

text \<open>
  C31. No paste can inject markup into its page: the sequence of characters that can open or
  close a tag or an attribute is the same on the pages of any two pastes that agree on having a
  title and on being one-use, whatever their titles, languages, contents and slugs, their expiry
  and the nonces drawn.
\<close>

theorem paste_page_markup:
  assumes a: "ph_Get h (PathValue r ''slug'') (password_attempt r) v = (Inr a, va)"
      "response_status (fst (PasteHandler_View h r new_writer v)) = 200"
    and b: "ph_Get h' (PathValue r' ''slug'') (password_attempt r') v' = (Inr b, vb)"
      "response_status (fst (PasteHandler_View h' r' new_writer v')) = 200"
    and shape: "p_Title (pg_P a) = [] \<longleftrightarrow> p_Title (pg_P b) = []" "p_OneUse (pg_P a) = p_OneUse (pg_P b)"
  shows "\<exists>x y. rw_Body (fst (PasteHandler_View h r new_writer v)) = [Bytes x] \<and>
    rw_Body (fst (PasteHandler_View h' r' new_writer v')) = [Bytes y] \<and> skeleton x = skeleton y"
proof -
  have page: "\<exists>n. skeleton n = [] \<and> rw_Body (fst (PasteHandler_View k q new_writer u)) =
      [Bytes (paste_page (pg_P g) (pg_ExpiresAt g) (PathValue q ''slug'') n)]"
    if "ph_Get k (PathValue q ''slug'') (password_attempt q) u = (Inr g, ug)"
      "response_status (fst (PasteHandler_View k q new_writer u)) = 200" for k q u g ug
  proof -
    obtain n u2 where n: "generateNonce ug = (n, u2)" by (rule prod.exhaust)
    with that generateNonce_ok(1) [of ug _ u2] show ?thesis
      by (cases n; cases "PathValue q ''slug'' = []") (auto simp: PasteHandler_View_def)
  qed
  from page [OF a] page [OF b] paste_page_skeleton [OF shape] show ?thesis by metis
qed

definition demo_evil :: world where
  "demo_evil = snd (Paste_Create plain_bcrypt (pasteService '''') (demo_paste\<lparr>pc_Content := ''</pre><script>''\<rparr>) demo_world)"

theorem paste_page_markup_witness:
  "\<exists>x y. rw_Body (fst (PasteHandler_View (pr_paste demo_program) (SetPathValue ''slug'' demo_slug (demo_get [] [])) new_writer demo_pasted)) = [Bytes x] \<and>
     rw_Body (fst (PasteHandler_View (pr_paste demo_program) (SetPathValue ''slug'' demo_slug (demo_get [] [])) new_writer demo_evil)) = [Bytes y] \<and>
     skeleton x = skeleton y"
proof -
  let ?r = "SetPathValue ''slug'' demo_slug (demo_get [] [])"
  let ?get = "\<lambda>v. Paste_Get plain_bcrypt (pasteService []) demo_slug [] v"
  have f: "case fst (?get demo_pasted) of Inl e \<Rightarrow> False | Inr g \<Rightarrow> p_Title (pg_P g) = ''t'' \<and> p_OneUse (pg_P g)"
    "case fst (?get demo_evil) of Inl e \<Rightarrow> False | Inr g \<Rightarrow> p_Title (pg_P g) = ''t'' \<and> p_OneUse (pg_P g) \<and> p_Content (pg_P g) = ''</pre><script>''"
    "16 \<le> length (w_rand (snd (?get demo_pasted)))" "16 \<le> length (w_rand (snd (?get demo_evil)))"
    by code_simp+
  from result_cases [OF f(1)] result_cases [OF f(2)] obtain a b where
    a: "?get demo_pasted = (Inr a, snd (?get demo_pasted))" "p_Title (pg_P a) = ''t''" "p_OneUse (pg_P a)"
    and b: "?get demo_evil = (Inr b, snd (?get demo_evil))" "p_Title (pg_P b) = ''t''" "p_OneUse (pg_P b)" by blast
  have ph: "ph_Get (pr_paste demo_program) (PathValue ?r ''slug'') (password_attempt ?r) v = ?get v" for v by simp
  have ne: "PathValue ?r ''slug'' \<noteq> []" by (simp add: demo_slug_def)
  have st: "response_status (fst (PasteHandler_View (pr_paste demo_program) ?r new_writer v)) = 200"
    if "?get v = (Inr g, v')" "16 \<le> length (w_rand v')" for v g v'
    using View_status [OF _ ne, of new_writer "pr_paste demo_program" v "Inr g" v'] that ph [of v] by (simp add: read_status_def)
  show ?thesis
    by (rule paste_page_markup [OF trans [OF ph a(1)] st [OF a(1) f(3)] trans [OF ph b(1)] st [OF b(1) f(4)]])
      (simp_all add: a b)
qed

text \<open>
  The same for the share page of a file, for any two files that agree on being an image, on
  having a password and on being one-use, under slugs of letters and digits: neither the file
  name nor the content type nor the host of the request can add markup.
\<close>

theorem info_page_markup:
  assumes "fh_GetMeta h (PathValue r ''slug'') v = (Inr f, vf)" and "fh_GetMeta h' (PathValue r' ''slug'') v' = (Inr g, vg)"
    and "validKey (PathValue r ''slug'')" and "validKey (PathValue r' ''slug'')"
    and "IsImage (f_MimeType f) = IsImage (f_MimeType g)" and "f_PasswordHash f = [] \<longleftrightarrow> f_PasswordHash g = []"
    and "f_OneUse f = f_OneUse g"
  shows "\<exists>x y. rw_Body (fst (FileHandler_Info h r new_writer v)) = [Bytes x] \<and>
    rw_Body (fst (FileHandler_Info h' r' new_writer v')) = [Bytes y] \<and> skeleton x = skeleton y"
proof -
  have page: "\<exists>url. rw_Body (fst (FileHandler_Info k q new_writer u)) = [Bytes (info_page e (PathValue q ''slug'') url)]"
    if "fh_GetMeta k (PathValue q ''slug'') u = (Inr e, ue)" "validKey (PathValue q ''slug'')" for k q u e ue
    using that by (auto simp: FileHandler_Info_def validKey_def Let_def)
  have "same_file_shape f g" using assms(5-7) by (simp add: same_file_shape_def)
  with info_page_skeleton skeleton_validKey [OF assms(3)] skeleton_validKey [OF assms(4)]
    page [OF assms(1,3)] page [OF assms(2,4)] show ?thesis by metis
qed

theorem info_page_markup_witness:
  "\<exists>x y. rw_Body (fst (FileHandler_Info (pr_file demo_program) (SetPathValue ''slug'' demo_slug (demo_get [] [])) new_writer
       (demo_uploaded\<lparr>w_env := []\<rparr>))) = [Bytes x] \<and>
     rw_Body (fst (FileHandler_Info (pr_file demo_program) (SetPathValue ''slug'' demo_slug ((demo_get [] [])\<lparr>rq_Host := ''<h>''\<rparr>)) new_writer
       (demo_uploaded\<lparr>w_env := []\<rparr>))) = [Bytes y] \<and> skeleton x = skeleton y"
proof -
  let ?v = "demo_uploaded\<lparr>w_env := []\<rparr>"
  obtain f where "file_view (w_db ?v) demo_slug = Some f" "\<not> is_expired (w_now ?v) (f_ExpiresAt f)"
    using demo_uploaded_view(1) by (simp add: demo_uploaded_now is_expired_def time_After_def second_def)
  from File_GetMeta_calm [OF _ this, of "[]"] have "fst (File_GetMeta (fileService []) demo_slug ?v) = Inr f"
    by (simp add: all_calm_def)
  then have g: "fh_GetMeta (pr_file demo_program) (PathValue (SetPathValue ''slug'' demo_slug r) ''slug'') ?v =
      (Inr f, snd (File_GetMeta (fileService []) demo_slug ?v))" for r
    by (simp add: prod_eq_iff)
  show ?thesis
    by (rule info_page_markup [OF g g]) simp_all
qed

text \<open>
  The two escaping routines agree: on valid UTF-8, the bucket page's own htmlEscape is the
  standard library's html.EscapeString.
\<close>

theorem htmlEscape_is_EscapeString:
  assumes "utf8_valid s"
  shows "htmlEscape s = EscapeString s"
  using assms by (rule htmlEscape_EscapeString)

theorem htmlEscape_is_EscapeString_witness:
  "htmlEscape ''<b>&'' = EscapeString ''<b>&''"
proof -
  have "utf8_valid ''<b>&''" by code_simp
  from htmlEscape_is_EscapeString [OF this] show ?thesis .
qed

section \<open>Routing\<close>



text \<open>
  C34. Once the archive of a bucket has been started, the answer is 200 whatever happens: when a
  file cannot be read in the middle, the client gets status 200, an archive of the files
  written so far and the error appended to it.
\<close>

theorem zip_failure_is_200:
  assumes "bh_StreamZIP h (PathValue r ''slug'') (password_attempt r) empty_response v = ((Inl e, z), v1)"
    and "zr_header z \<noteq> []" and "PathValue r ''slug'' \<noteq> []"
  shows "response_status (fst (BucketHandler_DownloadZIP h r new_writer v)) = 200 \<and>
    (\<exists>extra. rw_Body (fst (BucketHandler_DownloadZIP h r new_writer v)) = [Archive (zr_entries z) (zr_complete z), extra])"
proof -
  have sent: "\<exists>hd. rw_Sent (play_zip z (securityHeaders new_writer)) = Some (200, hd)"
    and body: "rw_Body (play_zip z (securityHeaders new_writer)) = [Archive (zr_entries z) (zr_complete z)]"
    using play_zip_started [of "securityHeaders new_writer" z] assms(2) by simp_all
  have "\<exists>x. rw_Body (zip_error r s e w) = rw_Body w @ [x]" for s w
    by (simp add: zip_error_def bucket_wrong_password_def servePasswordForm_def writeError_def writeJSON_def)
  with body obtain extra where
    "rw_Body (zip_error r (PathValue r ''slug'') e (play_zip z (securityHeaders new_writer))) = [Archive (zr_entries z) (zr_complete z), extra]"
    by (metis append_Cons append_Nil)
  with sent zip_error_sent assms show ?thesis
    by (auto simp: BucketHandler_DownloadZIP_def Let_def)
qed

theorem zip_failure_is_200_witness:
  "response_status (fst (BucketHandler_DownloadZIP (pr_bucket demo_program) (SetPathValue ''slug'' demo_slug (demo_get [] [])) new_writer
     (demo_bucketed\<lparr>w_env := replicate 7 0 @ [1]\<rparr>))) = 200"
proof -
  let ?z = "Bucket_StreamZIP plain_bcrypt (bucketService []) demo_slug [] empty_response (demo_bucketed\<lparr>w_env := replicate 7 0 @ [1]\<rparr>)"
  have f: "case fst (fst ?z) of Inl e \<Rightarrow> True | Inr u \<Rightarrow> False" "zr_header (snd (fst ?z)) \<noteq> []" by code_simp+
  then obtain e where "?z = ((Inl e, snd (fst ?z)), snd ?z)" by (cases ?z; cases "fst ?z") (auto split: sum.splits)
  then have s: "bh_StreamZIP (pr_bucket demo_program) (PathValue (SetPathValue ''slug'' demo_slug (demo_get [] [])) ''slug'')
      (password_attempt (SetPathValue ''slug'' demo_slug (demo_get [] []))) empty_response (demo_bucketed\<lparr>w_env := replicate 7 0 @ [1]\<rparr>) =
      ((Inl e, snd (fst ?z)), snd ?z)" by simp
  from zip_failure_is_200 [OF s f(2)] show ?thesis by (simp add: demo_slug_def)
qed


end
