(* ===== verification/Worker.thy ===== *)
theory Worker
  imports Prelude
begin

text \<open>
  Package internal/worker, the life of the cleanup goroutine (NewCleanup, Start, Stop, runLoop
  in cleanup.go): a state machine of the goroutine and of the caller of Stop over the two
  channels stop and done. What a sweep does is the subject of theory Cleanup; here it takes
  one step to begin and one to end, and may panic, since the code prepares for that.

  Closing a closed channel panics. A panic in a sweep runs the deferred calls of runLoop
  (closing done), is recovered by the deferred function of Start, which sleeps and calls runLoop
  a second time; a panic there, or in the deferred close, is not recovered and ends the program.
\<close>

section \<open>The machine\<close>

text \<open>The goroutine: before Start, waiting in the select, sweeping, sleeping after a recovered
  panic, or gone. \<open>Bool\<close> arguments tell whether it is in the second run of runLoop.\<close>

datatype loop = NotStarted | Waiting bool | Sweeping bool | Sleeping | Exited

datatype stopper = Idle | Blocked | Returned

record worker =
  wk_loop :: loop
  wk_stop :: bool
  wk_done :: bool
  wk_stopper :: stopper
  wk_crashed :: bool

definition NewCleanup :: worker where
  "NewCleanup = \<lparr>wk_loop = NotStarted, wk_stop = False, wk_done = False, wk_stopper = Idle, wk_crashed = False\<rparr>"

text \<open>The deferred close(c.done) of runLoop.\<close>

definition close_done :: "worker \<Rightarrow> worker" where
  "close_done w = (if wk_done w then w\<lparr>wk_crashed := True\<rparr> else w\<lparr>wk_done := True\<rparr>)"

text \<open>runLoop returns: the deferred close, and the goroutine ends.\<close>

definition runLoop_return :: "worker \<Rightarrow> worker" where
  "runLoop_return w = (close_done w)\<lparr>wk_loop := Exited\<rparr>"

text \<open>A panic inside the sweep: the deferred close, then the recovery if this is the first run.\<close>

definition sweep_panic :: "bool \<Rightarrow> worker \<Rightarrow> worker" where
  "sweep_panic second_run w =
     (let w1 = close_done w in
      if second_run \<or> wk_crashed w1 then w1\<lparr>wk_crashed := True\<rparr> else w1\<lparr>wk_loop := Sleeping\<rparr>)"

definition close_stop :: "worker \<Rightarrow> worker" where
  "close_stop w = (if wk_stop w then w\<lparr>wk_crashed := True\<rparr> else w\<lparr>wk_stop := True, wk_stopper := Blocked\<rparr>)"

datatype event = EStart | ETick | ESweepEnd | ESweepPanic | ERestart | EStopSeen | EStop | EStopReturns

text \<open>
  One step; \<^const>\<open>None\<close> when the event cannot happen. The select takes any ready case: with
  stop closed a tick can still win.
\<close>

fun worker_step :: "event \<Rightarrow> worker \<Rightarrow> worker option" where
  "worker_step ev w =
     (if wk_crashed w then None
      else case ev of
        EStart \<Rightarrow> if wk_loop w = NotStarted then Some (w\<lparr>wk_loop := Waiting False\<rparr>) else None
      | ETick \<Rightarrow> (case wk_loop w of Waiting b \<Rightarrow> Some (w\<lparr>wk_loop := Sweeping b\<rparr>) | _ \<Rightarrow> None)
      | ESweepEnd \<Rightarrow> (case wk_loop w of Sweeping b \<Rightarrow> Some (w\<lparr>wk_loop := Waiting b\<rparr>) | _ \<Rightarrow> None)
      | ESweepPanic \<Rightarrow> (case wk_loop w of Sweeping b \<Rightarrow> Some (sweep_panic b w) | _ \<Rightarrow> None)
      | ERestart \<Rightarrow> if wk_loop w = Sleeping then Some (w\<lparr>wk_loop := Waiting True\<rparr>) else None
      | EStopSeen \<Rightarrow> (case wk_loop w of Waiting b \<Rightarrow> if wk_stop w then Some (runLoop_return w) else None | _ \<Rightarrow> None)
      | EStop \<Rightarrow> if wk_stopper w = Idle then Some (close_stop w) else None
      | EStopReturns \<Rightarrow> if wk_stopper w = Blocked \<and> wk_done w then Some (w\<lparr>wk_stopper := Returned\<rparr>) else None)"

declare worker_step.simps [simp del]

inductive worker_steps :: "worker \<Rightarrow> event list \<Rightarrow> worker \<Rightarrow> bool" where
  stop: "worker_steps w [] w"
| step: "worker_steps u evs v \<Longrightarrow> worker_step ev v = Some w \<Longrightarrow> worker_steps u (evs @ [ev]) w"

inductive_cases worker_steps_snocE: "worker_steps u (evs @ [ev]) w"

inductive_simps worker_steps_Nil [simp]: "worker_steps u [] w"

text \<open>When an event happens and what it does, one equivalence per event.\<close>

lemma worker_step_Some:
  "worker_step EStart w = Some w' \<longleftrightarrow> \<not> wk_crashed w \<and> wk_loop w = NotStarted \<and> w' = w\<lparr>wk_loop := Waiting False\<rparr>"
  "worker_step ETick w = Some w' \<longleftrightarrow> \<not> wk_crashed w \<and> (\<exists>b. wk_loop w = Waiting b \<and> w' = w\<lparr>wk_loop := Sweeping b\<rparr>)"
  "worker_step ESweepEnd w = Some w' \<longleftrightarrow> \<not> wk_crashed w \<and> (\<exists>b. wk_loop w = Sweeping b \<and> w' = w\<lparr>wk_loop := Waiting b\<rparr>)"
  "worker_step ESweepPanic w = Some w' \<longleftrightarrow> \<not> wk_crashed w \<and> (\<exists>b. wk_loop w = Sweeping b \<and> w' = sweep_panic b w)"
  "worker_step ERestart w = Some w' \<longleftrightarrow> \<not> wk_crashed w \<and> wk_loop w = Sleeping \<and> w' = w\<lparr>wk_loop := Waiting True\<rparr>"
  "worker_step EStopSeen w = Some w' \<longleftrightarrow>
     \<not> wk_crashed w \<and> (\<exists>b. wk_loop w = Waiting b) \<and> wk_stop w \<and> w' = runLoop_return w"
  "worker_step EStop w = Some w' \<longleftrightarrow> \<not> wk_crashed w \<and> wk_stopper w = Idle \<and> w' = close_stop w"
  "worker_step EStopReturns w = Some w' \<longleftrightarrow>
     \<not> wk_crashed w \<and> wk_stopper w = Blocked \<and> wk_done w \<and> w' = w\<lparr>wk_stopper := Returned\<rparr>"
  by (cases "wk_loop w"; auto simp: worker_step.simps)+

section \<open>Invariants\<close>

text \<open>What holds in every run: the channels and the two threads fit together.\<close>

definition worker_inv :: "worker \<Rightarrow> bool" where
  "worker_inv w \<longleftrightarrow>
     (wk_stopper w = Idle \<longleftrightarrow> \<not> wk_stop w) \<and> (wk_stopper w = Returned \<longrightarrow> wk_done w) \<and>
     (case wk_loop w of
        NotStarted \<Rightarrow> \<not> wk_done w | Waiting b \<Rightarrow> wk_done w = b | Sweeping b \<Rightarrow> wk_done w = b \<or> wk_crashed w
      | Sleeping \<Rightarrow> wk_done w | Exited \<Rightarrow> wk_done w \<and> wk_stop w)"

lemma worker_inv_step: "worker_step ev w = Some w' \<Longrightarrow> worker_inv w \<Longrightarrow> worker_inv w'"
  by (cases ev) (auto simp: worker_step_Some worker_inv_def sweep_panic_def runLoop_return_def close_done_def
      close_stop_def Let_def split: if_splits loop.splits)

lemma worker_inv_reachable: "worker_steps u evs w \<Longrightarrow> worker_inv u \<Longrightarrow> worker_inv w"
  by (induction rule: worker_steps.induct) (auto intro: worker_inv_step)

lemma NewCleanup_inv: "worker_inv NewCleanup"
  by (simp add: worker_inv_def NewCleanup_def)

text \<open>Runs in which no sweep panics: the goroutine never restarts and nothing crashes.\<close>

definition quiet_inv :: "worker \<Rightarrow> bool" where
  "quiet_inv w \<longleftrightarrow> worker_inv w \<and> \<not> wk_crashed w \<and>
     wk_loop w \<in> {NotStarted, Waiting False, Sweeping False, Exited}"

lemma quiet_step: "worker_step ev w = Some w' \<Longrightarrow> ev \<noteq> ESweepPanic \<Longrightarrow> quiet_inv w \<Longrightarrow> quiet_inv w'"
  using worker_inv_step [of ev w w']
  by (cases ev) (auto simp: worker_step_Some quiet_inv_def runLoop_return_def close_done_def close_stop_def
      worker_inv_def)

lemma quiet_reachable:
  "worker_steps u evs w \<Longrightarrow> ESweepPanic \<notin> set evs \<Longrightarrow> quiet_inv u \<Longrightarrow> quiet_inv w"
  by (induction rule: worker_steps.induct) (auto intro: quiet_step)

lemma NewCleanup_quiet: "quiet_inv NewCleanup"
  using NewCleanup_inv by (simp add: quiet_inv_def NewCleanup_def)

text \<open>When Stop has returned in such a run, the goroutine is gone and no sweep can start.\<close>

lemma quiet_returned: "quiet_inv w \<Longrightarrow> wk_stopper w = Returned \<Longrightarrow> wk_loop w = Exited"
  by (auto simp: quiet_inv_def worker_inv_def split: loop.splits)

lemma quiet_returned_stuck:
  assumes "quiet_inv w" and "wk_stopper w = Returned"
  shows "worker_step ev w = None"
proof -
  have "wk_loop w = Exited" by (rule quiet_returned [OF assms])
  with assms(2) show ?thesis by (cases ev) (simp_all add: worker_step.simps)
qed

text \<open>
  Stop returns: from every such state with Stop called and the goroutine started, at most three
  more steps, none of them a tick, let Stop return.
\<close>

lemma quiet_stop_returns:
  assumes "quiet_inv w" and "wk_stopper w = Blocked" and "wk_loop w \<noteq> NotStarted"
  shows "\<exists>evs w'. worker_steps w evs w' \<and> length evs \<le> 3 \<and> set evs \<subseteq> {ESweepEnd, EStopSeen, EStopReturns} \<and>
    wk_stopper w' = Returned"
proof -
  have ret: "\<exists>w'. worker_step EStopReturns v = Some w' \<and> wk_stopper w' = Returned"
    if "quiet_inv v" "wk_stopper v = Blocked" "wk_loop v = Exited" for v
    using that by (simp add: worker_step.simps quiet_inv_def worker_inv_def)
  have seen: "\<exists>v'. worker_step EStopSeen v = Some v' \<and> wk_stopper v' = Blocked \<and> wk_loop v' = Exited"
    if "quiet_inv v" "wk_stopper v = Blocked" "wk_loop v = Waiting False" for v
    using that by (auto simp: worker_step.simps quiet_inv_def worker_inv_def runLoop_return_def close_done_def)
  have finish: "\<exists>evs w'. worker_steps u (pre @ evs) w' \<and> length evs \<le> 2 \<and> set evs \<subseteq> {EStopSeen, EStopReturns} \<and> wk_stopper w' = Returned"
    if v: "worker_steps u pre v" "quiet_inv v" "wk_stopper v = Blocked" "wk_loop v = Waiting False" for u pre v
  proof -
    obtain v1 where v1: "worker_step EStopSeen v = Some v1" "wk_stopper v1 = Blocked" "wk_loop v1 = Exited"
      using seen [OF v(2-4)] by blast
    then obtain v2 where v2: "worker_step EStopReturns v1 = Some v2" "wk_stopper v2 = Returned"
      using ret [OF quiet_step [OF v1(1) _ v(2)]] by auto
    have "worker_steps u (pre @ [EStopSeen, EStopReturns]) v2"
      using worker_steps.step [OF worker_steps.step [OF v(1) v1(1)] v2(1)] by simp
    with v2(2) show ?thesis by (intro exI [of _ "[EStopSeen, EStopReturns]"] exI [of _ v2]) simp
  qed
  consider "wk_loop w = Waiting False" | "wk_loop w = Sweeping False" | "wk_loop w = Exited"
    using assms(1,3) by (auto simp: quiet_inv_def)
  then show ?thesis
  proof cases
    case 1
    from finish [OF worker_steps.stop assms(1,2) 1] show ?thesis by fastforce
  next
    case 2
    then have s: "worker_step ESweepEnd w = Some (w\<lparr>wk_loop := Waiting False\<rparr>)"
      using assms(1) by (simp add: worker_step.simps quiet_inv_def)
    from finish [of w "[ESweepEnd]", OF _ quiet_step [OF s _ assms(1)]] worker_steps.step [OF worker_steps.stop s] assms(2)
    obtain evs w' where "worker_steps w ([ESweepEnd] @ evs) w'" "length evs \<le> 2" "set evs \<subseteq> {EStopSeen, EStopReturns}"
      "wk_stopper w' = Returned" by auto
    then show ?thesis by (intro exI [of _ "[ESweepEnd] @ evs"] exI [of _ w']) auto
  next
    case 3
    from ret [OF assms(1,2) 3] obtain w' where "worker_step EStopReturns w = Some w'" "wk_stopper w' = Returned" by blast
    then show ?thesis
      using worker_steps.step [OF worker_steps.stop] by (intro exI [of _ "[EStopReturns]"] exI [of _ w']) fastforce
  qed
qed

text \<open>
  With a panic: the restarted loop closes done a second time when it sees stop, and that panic
  is not recovered. Stop may have returned before, since done was closed by the first panic.
\<close>

lemma restart_crashes:
  assumes "worker_inv w" and "wk_loop w = Waiting True" and "wk_stop w"
    and "\<not> wk_crashed w" and "worker_step EStopSeen w = Some w'"
  shows "wk_crashed w'"
  using assms by (auto simp: worker_step.simps worker_inv_def runLoop_return_def close_done_def)

end
