(* ===== verification/Database.thy ===== *)
theory Database
  imports Text
begin

text \<open>
  Package internal/storage, db.go: opening the database. A pool of database/sql is a number; the
  state is the set of open pools, the limit set on each, and a list of choices that says which
  of the calls into the driver and the migration library fail.
\<close>

record pools =
  po_env :: "nat list"
  po_open :: "nat set"
  po_limit :: "nat \<Rightarrow> nat option"
  po_next :: nat

record DBPair =
  WriteDB :: nat
  ReadDB :: nat

definition po_choice :: "pools \<Rightarrow> nat \<times> pools" where
  "po_choice s = (case po_env s of [] \<Rightarrow> (0, s) | c # cs \<Rightarrow> (c, s\<lparr>po_env := cs\<rparr>))"

text \<open>sql.Open, Ping, Close and the two calls of goose; each may fail.\<close>

definition sql_Open :: "string \<Rightarrow> pools \<Rightarrow> nat result \<times> pools" where
  "sql_Open src s =
     (case po_choice s of (c, s1) \<Rightarrow>
        if c \<noteq> 0 then (Inl (External ''sql.Open''), s1)
        else (Inr (po_next s1), s1\<lparr>po_open := insert (po_next s1) (po_open s1), po_next := po_next s1 + 1\<rparr>))"

definition external :: "string \<Rightarrow> pools \<Rightarrow> unit result \<times> pools" where
  "external what s =
     (case po_choice s of (c, s1) \<Rightarrow> if c \<noteq> 0 then (Inl (External what), s1) else (Inr (), s1))"

definition db_Close :: "nat \<Rightarrow> pools \<Rightarrow> unit result \<times> pools" where
  "db_Close h s = (case external ''close'' s of (x, s1) \<Rightarrow> (x, s1\<lparr>po_open := po_open s1 - {h}\<rparr>))"

definition SetMaxOpenConns :: "nat \<Rightarrow> nat \<Rightarrow> pools \<Rightarrow> pools" where
  "SetMaxOpenConns h n s = s\<lparr>po_limit := (po_limit s)(h \<mapsto> n)\<rparr>"

definition DBPair_Close :: "DBPair \<Rightarrow> pools \<Rightarrow> unit result \<times> pools" where
  "DBPair_Close p s =
     (case db_Close (WriteDB p) s of
        (werr, s1) \<Rightarrow> (case db_Close (ReadDB p) s1 of
          (rerr, s2) \<Rightarrow> (case werr of Inl e \<Rightarrow> (Inl e, s2) | Inr u \<Rightarrow> (rerr, s2))))"

definition dsn :: "string \<Rightarrow> string" where
  "dsn path = Sprintf ''file:%s?_pragma=journal_mode(WAL)&_pragma=busy_timeout(5000)&_pragma=foreign_keys(ON)&_pragma=synchronous(NORMAL)'' [S path]"

definition Open :: "string \<Rightarrow> pools \<Rightarrow> DBPair result \<times> pools" where
  "Open path s =
     (if path = [] then (Inl (External ''storage.Open: path must not be empty''), s)
      else case sql_Open (dsn path) s of
        (Inl e, s1) \<Rightarrow> (Inl (Wrap ''storage.Open write pool'' e), s1)
      | (Inr writeDB, s1) \<Rightarrow>
          (case external ''ping'' (SetMaxOpenConns writeDB 1 s1) of
             (Inl e, s2) \<Rightarrow> (Inl (Wrap ''storage.Open write pool ping'' e), snd (db_Close writeDB s2))
           | (Inr u, s2) \<Rightarrow>
          (case external ''goose dialect'' s2 of
             (Inl e, s3) \<Rightarrow> (Inl (Wrap ''storage.Open goose dialect'' e), snd (db_Close writeDB s3))
           | (Inr u, s3) \<Rightarrow>
          (case external ''goose up'' s3 of
             (Inl e, s4) \<Rightarrow> (Inl (Wrap ''storage.Open goose migrate'' e), snd (db_Close writeDB s4))
           | (Inr u, s4) \<Rightarrow>
          (case sql_Open (dsn path) s4 of
             (Inl e, s5) \<Rightarrow> (Inl (Wrap ''storage.Open read pool'' e), snd (db_Close writeDB s5))
           | (Inr readDB, s5) \<Rightarrow>
          (case external ''ping'' s5 of
             (Inl e, s6) \<Rightarrow> (Inl (Wrap ''storage.Open read pool ping'' e),
                snd (db_Close readDB (snd (db_Close writeDB s6))))
           | (Inr u, s6) \<Rightarrow> (Inr \<lparr>WriteDB = writeDB, ReadDB = readDB\<rparr>, s6)))))))"

section \<open>No pool leaks\<close>

definition pools_ok :: "pools \<Rightarrow> bool" where
  "pools_ok s \<longleftrightarrow> (\<forall>h \<in> po_open s. h < po_next s)"

lemma po_choice_frame:
  "po_choice s = (c, s1) \<Longrightarrow> po_open s1 = po_open s \<and> po_next s1 = po_next s \<and> po_limit s1 = po_limit s"
  by (auto simp: po_choice_def split: list.splits)

lemma external_frame:
  "external what s = (x, s1) \<Longrightarrow> po_open s1 = po_open s \<and> po_next s1 = po_next s \<and> po_limit s1 = po_limit s"
  by (auto simp: external_def dest: po_choice_frame split: prod.splits if_splits)

lemma db_Close_frame:
  "po_open (snd (db_Close h s)) = po_open s - {h}" "po_next (snd (db_Close h s)) = po_next s"
  "po_limit (snd (db_Close h s)) = po_limit s"
  by (auto simp: db_Close_def dest: external_frame split: prod.splits)

lemma sql_Open_cases:
  assumes "sql_Open src s = (x, s1)"
  shows "po_limit s1 = po_limit s \<and>
    (case x of Inl e \<Rightarrow> po_open s1 = po_open s \<and> po_next s1 = po_next s
     | Inr h \<Rightarrow> h = po_next s \<and> po_open s1 = insert h (po_open s) \<and> po_next s1 = po_next s + 1)"
  using assms by (auto simp: sql_Open_def dest: po_choice_frame split: prod.splits if_splits)

lemma SetMaxOpenConns_sel [simp]:
  "po_open (SetMaxOpenConns h n s) = po_open s" "po_next (SetMaxOpenConns h n s) = po_next s"
  "po_limit (SetMaxOpenConns h n s) = (po_limit s)(h \<mapsto> n)"
  by (simp_all add: SetMaxOpenConns_def)

lemma Open_cases:
  assumes ok: "pools_ok s" and "Open path s = (x, s')"
  shows "case x of Inl e \<Rightarrow> po_open s' = po_open s
    | Inr p \<Rightarrow> po_open s' = insert (WriteDB p) (insert (ReadDB p) (po_open s)) \<and> WriteDB p \<noteq> ReadDB p \<and>
        WriteDB p \<notin> po_open s \<and> ReadDB p \<notin> po_open s \<and> po_limit s' (WriteDB p) = Some 1"
proof -
  have fresh: "po_next s \<notin> po_open s" "Suc (po_next s) \<notin> po_open s" using ok by (auto simp: pools_ok_def)
  from assms(2) show ?thesis
    unfolding Open_def using fresh
    by (auto simp: db_Close_frame dest!: external_frame sql_Open_cases split: if_splits prod.splits sum.splits)
qed

end
