(* ===== verification/Config.thy ===== *)
theory Config
  imports Http
begin

text \<open>
  Package internal/config. The library koanf and its providers are parameters: what it answers
  for a key, the result of loading the file, and the result of loading the environment with
  the program's own key transformation.
\<close>

record server_config =
  sc_Port :: int
  sc_Host :: string
  sc_PublicURL :: string

record config =
  cf_Server :: server_config
  cf_DatabasePath :: string
  cf_StoragePath :: string
  cf_Auth :: auth_config
  cf_MaxBytes :: int

record koanf =
  ko_Exists :: "string \<Rightarrow> bool"
  ko_Int :: "string \<Rightarrow> int"
  ko_String :: "string \<Rightarrow> string"
  ko_Bool :: "string \<Rightarrow> bool"

definition defaults :: config where
  "defaults =
     \<lparr>cf_Server = \<lparr>sc_Port = 8080, sc_Host = ''0.0.0.0'', sc_PublicURL = []\<rparr>, cf_DatabasePath = ''./data/pbin.db'',
      cf_StoragePath = ''./data/uploads'', cf_Auth = \<lparr>ac_Enabled = False, ac_Username = [], ac_Password = []\<rparr>,
      cf_MaxBytes = 100 * 1024 * 1024\<rparr>"

text \<open>The key of an environment variable: prefix off, lower case, the first underscore a dot.\<close>

definition env_key :: "string \<Rightarrow> string" where
  "env_key s = replace_first CHR ''_'' ''.'' (ToLower (TrimPrefix s ''PBIN_''))"

definition override :: "koanf \<Rightarrow> string \<Rightarrow> (string \<Rightarrow> 'v) \<Rightarrow> 'v \<Rightarrow> 'v" where
  "override k key get dflt = (if ko_Exists k key then get key else dflt)"

definition apply_koanf :: "koanf \<Rightarrow> config \<Rightarrow> config" where
  "apply_koanf k c =
     \<lparr>cf_Server =
        \<lparr>sc_Port = override k ''server.port'' (ko_Int k) (sc_Port (cf_Server c)),
         sc_Host = override k ''server.host'' (ko_String k) (sc_Host (cf_Server c)),
         sc_PublicURL = override k ''server.public_url'' (\<lambda>key. TrimRight [slash] (ko_String k key)) (sc_PublicURL (cf_Server c))\<rparr>,
      cf_DatabasePath = override k ''database.path'' (ko_String k) (cf_DatabasePath c),
      cf_StoragePath = override k ''storage.path'' (ko_String k) (cf_StoragePath c),
      cf_Auth =
        \<lparr>ac_Enabled = override k ''auth.enabled'' (ko_Bool k) (ac_Enabled (cf_Auth c)),
         ac_Username = override k ''auth.username'' (ko_String k) (ac_Username (cf_Auth c)),
         ac_Password = override k ''auth.password'' (ko_String k) (ac_Password (cf_Auth c))\<rparr>,
      cf_MaxBytes = override k ''upload.max_bytes'' (ko_Int k) (cf_MaxBytes c)\<rparr>"

text \<open>
  Parse: a file that exists is loaded, a missing one is not an error; then the environment;
  then each key that is present replaces its default.
\<close>

definition Parse :: "(string \<Rightarrow> bool) \<Rightarrow> (string \<Rightarrow> koanf result) \<Rightarrow> ((string \<Rightarrow> string) \<Rightarrow> koanf \<Rightarrow> koanf result) \<Rightarrow>
    koanf \<Rightarrow> string \<Rightarrow> config result" where
  "Parse stat_ok load_file load_env k0 configPath =
     (case (if configPath \<noteq> [] \<and> stat_ok configPath
            then (case load_file configPath of Inl e \<Rightarrow> Inl (Wrap ''loading config file'' e) | Inr k \<Rightarrow> Inr k)
            else Inr k0) of
        Inl e \<Rightarrow> Inl e
      | Inr k \<Rightarrow>
          (case load_env env_key k of
             Inl e \<Rightarrow> Inl (Wrap ''loading env config'' e)
           | Inr k1 \<Rightarrow> Inr (apply_koanf k1 defaults)))"

text \<open>
  An environment source as the provider is documented: the variables with the prefix, under
  their transformed names, the value of a variable overriding what was loaded before.
\<close>

definition env_source :: "(string \<times> string) list \<Rightarrow> (string \<Rightarrow> string) \<Rightarrow> koanf \<Rightarrow> koanf result" where
  "env_source vars f k =
     (let m = map_of (map (\<lambda>(n, x). (f n, x)) (filter (\<lambda>(n, x). HasPrefix n ''PBIN_'') vars)) in
      Inr (k\<lparr>ko_Exists := (\<lambda>key. m key \<noteq> None \<or> ko_Exists k key),
        ko_String := (\<lambda>key. case m key of None \<Rightarrow> ko_String k key | Some x \<Rightarrow> x)\<rparr>))"

definition empty_koanf :: koanf where
  "empty_koanf = \<lparr>ko_Exists = (\<lambda>k. False), ko_Int = (\<lambda>k. 0), ko_String = (\<lambda>k. []), ko_Bool = (\<lambda>k. False)\<rparr>"

text \<open>Each setting has an environment variable, named by section and key.\<close>

definition config_keys :: "(string \<times> string) list" where
  "config_keys =
    [(''PBIN_SERVER_PORT'', ''server.port''), (''PBIN_SERVER_HOST'', ''server.host''),
     (''PBIN_SERVER_PUBLIC_URL'', ''server.public_url''), (''PBIN_DATABASE_PATH'', ''database.path''),
     (''PBIN_STORAGE_PATH'', ''storage.path''), (''PBIN_AUTH_ENABLED'', ''auth.enabled''),
     (''PBIN_AUTH_USERNAME'', ''auth.username''), (''PBIN_AUTH_PASSWORD'', ''auth.password''),
     (''PBIN_UPLOAD_MAX_BYTES'', ''upload.max_bytes'')]"

lemma env_keys: "list_all (\<lambda>(var, key). env_key var = key) config_keys"
  by code_simp

lemma override_simps [simp]:
  "ko_Exists k key \<Longrightarrow> override k key get d = get key" "\<not> ko_Exists k key \<Longrightarrow> override k key get d = d"
  by (simp_all add: override_def)

lemma apply_empty: "apply_koanf empty_koanf c = c"
  by (cases c; cases "cf_Server c"; cases "cf_Auth c") (simp add: apply_koanf_def empty_koanf_def)

section \<open>The sources of the settings\<close>

text \<open>The value the variables have for a key; an earlier variable wins over a later one.\<close>

definition env_value :: "(string \<times> string) list \<Rightarrow> string \<Rightarrow> string option" where
  "env_value vars key = map_of (map (\<lambda>(n, x). (env_key n, x)) (filter (\<lambda>(n, x). HasPrefix n ''PBIN_'') vars)) key"

text \<open>The settings that are strings: their key, where they are kept and what is done to the value.\<close>

definition string_settings :: "(string \<times> (config \<Rightarrow> string) \<times> (string \<Rightarrow> string)) list" where
  "string_settings =
    [(''server.host'', \<lambda>c. sc_Host (cf_Server c), id),
     (''server.public_url'', \<lambda>c. sc_PublicURL (cf_Server c), TrimRight [slash]),
     (''database.path'', cf_DatabasePath, id), (''storage.path'', cf_StoragePath, id),
     (''auth.username'', \<lambda>c. ac_Username (cf_Auth c), id), (''auth.password'', \<lambda>c. ac_Password (cf_Auth c), id)]"

text \<open>The settings after loading k, under the variables.\<close>

definition sourced :: "(string \<times> string) list \<Rightarrow> koanf \<Rightarrow> config \<Rightarrow> bool" where
  "sourced vars k c \<longleftrightarrow>
     list_all (\<lambda>(key, setting, norm). setting c =
       (case env_value vars key of
          Some x \<Rightarrow> norm x
        | None \<Rightarrow> if ko_Exists k key then norm (ko_String k key) else setting defaults)) string_settings \<and>
     (env_value vars ''server.port'' = None \<longrightarrow>
        sc_Port (cf_Server c) = (if ko_Exists k ''server.port'' then ko_Int k ''server.port'' else 8080)) \<and>
     (env_value vars ''auth.enabled'' = None \<longrightarrow>
        ac_Enabled (cf_Auth c) = (ko_Exists k ''auth.enabled'' \<and> ko_Bool k ''auth.enabled'')) \<and>
     (env_value vars ''upload.max_bytes'' = None \<longrightarrow>
        cf_MaxBytes c = (if ko_Exists k ''upload.max_bytes'' then ko_Int k ''upload.max_bytes'' else 104857600))"

lemma Parse_sourced:
  assumes "if path \<noteq> [] \<and> stat_ok path then load_file path = Inr k else k = empty_koanf"
  shows "\<exists>c. Parse stat_ok load_file (env_source vars) empty_koanf path = Inr c \<and> sourced vars k c"
proof -
  let ?k = "k\<lparr>ko_Exists := (\<lambda>key. env_value vars key \<noteq> None \<or> ko_Exists k key),
        ko_String := (\<lambda>key. case env_value vars key of None \<Rightarrow> ko_String k key | Some x \<Rightarrow> x)\<rparr>"
  have "env_source vars env_key k = Inr ?k" by (simp add: env_source_def env_value_def Let_def)
  with assms have "Parse stat_ok load_file (env_source vars) empty_koanf path = Inr (apply_koanf ?k defaults)"
    by (simp add: Parse_def split: if_splits)
  moreover have "sourced vars k (apply_koanf ?k defaults)"
    unfolding sourced_def string_settings_def list.pred_inject prod.case
    by (intro conjI) (simp_all add: apply_koanf_def override_def defaults_def split: option.split)
  ultimately show ?thesis by blast
qed

end
