(* ===== verification/Lifecycle.thy ===== *)
theory Lifecycle
  imports Worker Database Config
begin

text \<open>
  The life cycle around the requests: the cleanup goroutine from Start to Stop, the two pools of the
  database from Open on, and where each setting of the configuration comes from.
\<close>

section \<open>The cleanup goroutine\<close>


fun worker_play :: "event list \<Rightarrow> worker \<Rightarrow> worker option" where
  "worker_play [] w = Some w"
| "worker_play (ev # evs) w = (case worker_step ev w of None \<Rightarrow> None | Some w' \<Rightarrow> worker_play evs w')"

lemma worker_play_steps: "worker_play evs v = Some w \<Longrightarrow> worker_steps u pre v \<Longrightarrow> worker_steps u (pre @ evs) w"
proof (induction evs arbitrary: v pre)
  case (Cons ev evs)
  then obtain v' where v': "worker_step ev v = Some v'" "worker_play evs v' = Some w" by (auto split: option.splits)
  from Cons.IH [OF v'(2) worker_steps.step [OF Cons.prems(2) v'(1)]] show ?case by simp
qed simp


text \<open>
  C39. A sweep that panics is not survived: the panic closes the done channel, so Stop no longer
  waits for anything, and when the restarted loop sees the stop signal it closes the channel a
  second time and takes the whole program down.
\<close>

theorem worker_panic:
  assumes "worker_steps NewCleanup evs w" and "wk_loop w = Waiting True" and "\<not> wk_crashed w"
  shows "wk_done w \<and> (wk_stop w \<longrightarrow> (\<exists>w'. worker_step EStopSeen w = Some w' \<and> wk_crashed w'))"
proof -
  have inv: "worker_inv w" using worker_inv_reachable [OF assms(1) NewCleanup_inv] .
  with assms(2) have "wk_done w" by (simp add: worker_inv_def)
  moreover have "\<exists>w'. worker_step EStopSeen w = Some w' \<and> wk_crashed w'" if "wk_stop w"
  proof -
    have "worker_step EStopSeen w = Some (runLoop_return w)" using assms(2,3) that by (simp add: worker_step.simps)
    with restart_crashes [OF inv assms(2) that assms(3)] show ?thesis by blast
  qed
  ultimately show ?thesis by blast
qed

theorem worker_panic_witness:
  "\<exists>w w'. worker_play [EStart, ETick, ESweepPanic, ERestart, EStop] NewCleanup = Some w \<and> worker_step EStopSeen w = Some w' \<and> wk_crashed w'"
proof -
  let ?evs = "[EStart, ETick, ESweepPanic, ERestart, EStop]"
  have "case worker_play ?evs NewCleanup of None \<Rightarrow> False
      | Some w \<Rightarrow> wk_loop w = Waiting True \<and> \<not> wk_crashed w \<and> wk_stop w" by code_simp
  then obtain w where w: "worker_play ?evs NewCleanup = Some w" "wk_loop w = Waiting True" "\<not> wk_crashed w" "wk_stop w"
    by (auto split: option.splits)
  have "worker_steps NewCleanup ?evs w" using worker_play_steps [OF w(1) worker_steps.stop] by simp
  from worker_panic [OF this w(2,3)] w show ?thesis by blast
qed

section \<open>Opening the database\<close>

text \<open>
  Opening the database leaks nothing: after an error at any step exactly the pools that were
  open before are open; after success exactly the two new ones are, and the one for writing is
  limited to a single connection.
\<close>

theorem open_leaks_nothing:
  assumes "pools_ok s" and "Open path s = (x, s')"
  shows "case x of
      Inl e \<Rightarrow> po_open s' = po_open s
    | Inr p \<Rightarrow> po_open s' = po_open s \<union> {WriteDB p, ReadDB p} \<and> WriteDB p \<noteq> ReadDB p \<and>
        {WriteDB p, ReadDB p} \<inter> po_open s = {} \<and> po_limit s' (WriteDB p) = Some 1"
  using Open_cases [OF assms] by (auto split: sum.splits)

theorem open_leaks_nothing_witness:
  "\<exists>s'. Open ''pbin.db'' \<lparr>po_env = [0, 0, 0, 1], po_open = {7}, po_limit = Map.empty, po_next = 8\<rparr> =
      (Inl (Wrap ''storage.Open goose migrate'' (External ''goose up'')), s') \<and> po_open s' = {7}"
proof -
  let ?s = "\<lparr>po_env = [0, 0, 0, 1], po_open = {7}, po_limit = Map.empty, po_next = 8\<rparr>"
  have "pools_ok ?s" by (simp add: pools_ok_def)
  from open_leaks_nothing [OF this surjective_pairing, of "''pbin.db''"]
  have "po_open (snd (Open ''pbin.db'' ?s)) = {7}" if "fst (Open ''pbin.db'' ?s) = Inl e" for e using that by simp
  moreover have "fst (Open ''pbin.db'' ?s) = Inl (Wrap ''storage.Open goose migrate'' (External ''goose up''))"
    by (simp add: Open_def sql_Open_def external_def po_choice_def db_Close_def SetMaxOpenConns_def)
  ultimately show ?thesis by (intro exI [of _ "snd (Open ''pbin.db'' ?s)"]) (simp add: prod_eq_iff)
qed

section \<open>Configuration\<close>


end
