(* ===== verification/Threads.thy ===== *)
theory Threads
  imports Service_Common
begin

text \<open>
  Goroutines. A call of the program is a thread: a sequence of accesses to what all calls share
  (an SQL statement, an operation of the file store, a read of the random source or of the
  clock), with the code in between. Each access is atomic; between two of them the other
  threads move. A thread run to its end without interruption is the operation of the services.
\<close>

section \<open>Threads\<close>

text \<open>
  \<open>Act\<close>: one access, which yields the rest of the thread. Drawing a random string is an access
  of its own, so that what is drawn can be spoken about.
\<close>

datatype 'a thread = Ret 'a | Act "world \<Rightarrow> 'a thread \<times> world" | Draw int "string result \<Rightarrow> 'a thread"

primrec t_bind :: "'a thread \<Rightarrow> ('a \<Rightarrow> 'b thread) \<Rightarrow> 'b thread" where
  "t_bind (Ret a) k = k a"
| "t_bind (Act f) k = Act (\<lambda>w. map_prod (\<lambda>t. t_bind t k) id (f w))"
| "t_bind (Draw n g) k = Draw n (\<lambda>r. t_bind (g r) k)"

primrec t_run :: "'a thread \<Rightarrow> world \<Rightarrow> 'a \<times> world" where
  "t_run (Ret a) = (\<lambda>w. (a, w))"
| "t_run (Act f) = (\<lambda>w. case map_prod t_run id (f w) of (g, w1) \<Rightarrow> g w1)"
| "t_run (Draw n g) = (\<lambda>w. case slug_io n w of (r, w1) \<Rightarrow> t_run (g r) w1)"

text \<open>The next access of a thread; none when it has returned.\<close>

fun advance :: "'a thread \<Rightarrow> world \<Rightarrow> ('a thread \<times> world) option" where
  "advance (Ret a) w = None"
| "advance (Act f) w = Some (f w)"
| "advance (Draw n g) w = (case slug_io n w of (r, w1) \<Rightarrow> Some (g r, w1))"

text \<open>A single access; the clock; and the patterns of Service_Common on threads.\<close>

definition act :: "'a io \<Rightarrow> 'a result thread" where
  "act m = Act (\<lambda>w. map_prod Ret id (m w))"

definition clock :: "(instant \<Rightarrow> 'a thread) \<Rightarrow> 'a thread" where
  "clock k = Act (\<lambda>w. (k (w_now w), w))"

definition t_wrap :: "string \<Rightarrow> 'a result thread \<Rightarrow> ('a \<Rightarrow> 'b result thread) \<Rightarrow> 'b result thread" where
  "t_wrap ctx m k = t_bind m (\<lambda>r. case r of Inl e \<Rightarrow> Ret (Inl (Wrap ctx e)) | Inr a \<Rightarrow> k a)"

definition t_wrap_undo :: "string \<Rightarrow> 'a result thread \<Rightarrow> unit thread \<Rightarrow> ('a \<Rightarrow> 'b result thread) \<Rightarrow> 'b result thread" where
  "t_wrap_undo ctx m undo k =
     t_bind m (\<lambda>r. case r of Inl e \<Rightarrow> t_bind undo (\<lambda>u. Ret (Inl (Wrap ctx e))) | Inr a \<Rightarrow> k a)"

definition t_lookup :: "sentinel \<Rightarrow> string \<Rightarrow> 'a result thread \<Rightarrow> ('a \<Rightarrow> 'b result thread) \<Rightarrow> 'b result thread" where
  "t_lookup notFound ctx m k = t_bind m (\<lambda>r. case r of
     Inl e \<Rightarrow> Ret (Inl (if errors_Is e notFound then Sentinel notFound else Wrap ctx e)) | Inr a \<Rightarrow> k a)"

definition t_try :: "'a result thread \<Rightarrow> ('a \<Rightarrow> 'b result thread) \<Rightarrow> 'b result thread" where
  "t_try m k = t_bind m (\<lambda>r. case r of Inl e \<Rightarrow> Ret (Inl e) | Inr a \<Rightarrow> k a)"

lemma thread_induct [case_names Ret Act Draw, induct type: thread]:
  assumes "\<And>a. P (Ret a)" and "\<And>f. (\<And>w. P (fst (f w))) \<Longrightarrow> P (Act f)" and "\<And>n g. (\<And>r. P (g r)) \<Longrightarrow> P (Draw n g)"
  shows "P t"
proof (rule thread.induct)
  fix f :: "world \<Rightarrow> 'a thread \<times> world" assume IH: "\<And>p t. p \<in> range f \<Longrightarrow> t \<in> Basic_BNFs.fsts p \<Longrightarrow> P t"
  have fst: "fst p \<in> Basic_BNFs.fsts p" for p :: "'a thread \<times> world" by (cases p) (simp add: fsts.intros)
  show "P (Act f)" by (rule assms(2), rule IH [OF rangeI fst])
qed (rule assms(1), rule assms(3), blast)

lemma bind_Ret [simp]: "t_bind t Ret = t"
proof (induction t)
  case (Act f)
  then show ?case by (simp add: fun_eq_iff prod_eq_iff)
qed simp_all

section \<open>Without interruption\<close>

lemma t_run_bind [simp]: "t_run (t_bind t k) w = (case t_run t w of (a, w1) \<Rightarrow> t_run (k a) w1)"
proof (induction t arbitrary: w)
  case (Act f)
  from Act [of w] show ?case by (cases "f w") simp
qed (simp_all split: prod.split)

lemma t_run_act [simp]: "t_run (act m) = m"
  by (simp add: act_def map_prod_def fun_eq_iff split: prod.split)

lemma t_run_Draw [simp]: "t_run (Draw n Ret) = slug_io n"
  by (simp add: fun_eq_iff split: prod.split)

lemma t_run_clock [simp]: "t_run (clock k) = (\<lambda>w. t_run (k (w_now w)) w)"
  by (simp add: clock_def map_prod_def)

lemma t_run_wrap [simp]: "t_run (t_wrap c m k) = wrap c (t_run m) (\<lambda>a. t_run (k a))"
  by (simp add: t_wrap_def wrap_def fun_eq_iff split: prod.split sum.split)

lemma t_run_wrap_undo [simp]:
  "t_run (t_wrap_undo c m undo k) = wrap_undo c (t_run m) (\<lambda>w. snd (t_run undo w)) (\<lambda>a. t_run (k a))"
  by (simp add: t_wrap_undo_def wrap_undo_def fun_eq_iff split: prod.split sum.split)

lemma t_run_lookup [simp]: "t_run (t_lookup nf c m k) = lookup nf c (t_run m) (\<lambda>a. t_run (k a))"
  by (simp add: t_lookup_def lookup_def fun_eq_iff split: prod.split sum.split)

lemma t_run_try [simp]:
  "t_run (t_try m k) = (\<lambda>w. case t_run m w of (Inl e, w1) \<Rightarrow> (Inl e, w1) | (Inr a, w1) \<Rightarrow> t_run (k a) w1)"
  by (simp add: t_try_def fun_eq_iff split: prod.split sum.split)

lemma t_run_cases [simp]:
  "t_run (if b then t else u) = (if b then t_run t else t_run u)"
  "t_run (case x of Inl e \<Rightarrow> f e | Inr a \<Rightarrow> g a) = (case x of Inl e \<Rightarrow> t_run (f e) | Inr a \<Rightarrow> t_run (g a))"
  by (simp_all split: sum.split)

text \<open>A thread whose every access is granted right away takes the steps of its run.\<close>

primrec t_steps :: "nat \<Rightarrow> 'a thread \<Rightarrow> world \<Rightarrow> 'a thread \<times> world" where
  "t_steps 0 t w = (t, w)"
| "t_steps (Suc n) t w = (case advance t w of None \<Rightarrow> (t, w) | Some (t1, w1) \<Rightarrow> t_steps n t1 w1)"

lemma advance_run: "advance t w = Some (t1, w1) \<Longrightarrow> t_run t w = t_run t1 w1"
  by (cases t) (auto simp: map_prod_def split: prod.splits)

lemma t_run_steps: "\<exists>n. t_steps n t w = (Ret (fst (t_run t w)), snd (t_run t w))"
proof (induction t arbitrary: w)
  case (Ret a)
  show ?case by (intro exI [of _ 0]) simp
next
  case (Act f)
  obtain t1 w1 where f: "f w = (t1, w1)" by (rule prod.exhaust)
  from Act [of w w1] f obtain n where "t_steps n t1 w1 = (Ret (fst (t_run t1 w1)), snd (t_run t1 w1))" by auto
  with f show ?case by (intro exI [of _ "Suc n"]) simp
next
  case (Draw n g)
  obtain r w1 where d: "slug_io n w = (r, w1)" by (rule prod.exhaust)
  from Draw [of r w1] obtain m where "t_steps m (g r) w1 = (Ret (fst (t_run (g r) w1)), snd (t_run (g r) w1))" by blast
  with d show ?case by (intro exI [of _ "Suc m"]) simp
qed

end
