(* ===== verification/Calls.thy ===== *)
theory Calls
  imports Threads System
begin

text \<open>
  Every call of the program cut into its accesses, and the proof that without interruption it is
  the operation of the services and of the sweep.
\<close>

section \<open>Files\<close>

definition undo_write :: "backend \<Rightarrow> string \<Rightarrow> unit thread" where
  "undo_write B k = t_bind (act (be_Delete B k)) (\<lambda>r. Ret ())"

definition File_persist_t :: "file_service \<Rightarrow> file_ent \<Rightarrow> reader \<Rightarrow> instant option \<Rightarrow> unit result thread" where
  "File_persist_t s f content expiresAt =
     t_wrap ''file service upload: write bytes'' (act (be_Write (fsv_store s) (f_Slug f) content)) (\<lambda>u.
     t_wrap_undo ''file service upload: persist metadata'' (act (rp_Create (fsv_repo s) f expiresAt))
       (undo_write (fsv_store s) (f_Slug f)) (\<lambda>u.
     Ret (Inr ())))"

text \<open>The upload from the drawn slug on.\<close>

definition File_Upload_from :: "bcrypt \<Rightarrow> file_service \<Rightarrow> file_UploadRequest \<Rightarrow> string \<Rightarrow> file_UploadResult result thread" where
  "File_Upload_from bc s req shareSlug =
     t_wrap ''file service upload: generate delete secret'' (Draw deleteSecretLength Ret) (\<lambda>deleteSecret.
     t_wrap ''file service upload: hash password'' (act (hash_password bc (fu_Password req))) (\<lambda>passwordHash.
     t_wrap ''file service upload: construct entity''
       (Ret (file_New shareSlug (fu_Filename req) (fu_MimeType req) (fu_Expiry req) deleteSecret
          (fu_Size req) passwordHash (fu_OneUse req))) (\<lambda>f.
     case file_ExpiryDuration (fu_Expiry req) of
       Inl p \<Rightarrow> Ret (Inl p)
     | Inr d \<Rightarrow> clock (\<lambda>now.
         let expiresAt = expiry_instant d now in
         t_try (File_persist_t s f (fu_Content req) expiresAt) (\<lambda>u.
           Ret (Inr (File_result s req shareSlug deleteSecret expiresAt)))))))"

definition File_Upload_t :: "bcrypt \<Rightarrow> file_service \<Rightarrow> file_UploadRequest \<Rightarrow> file_UploadResult result thread" where
  "File_Upload_t bc s req =
     t_wrap ''file service upload: generate slug'' (Draw slugLength Ret) (File_Upload_from bc s req)"

definition File_read_t :: "file_service \<Rightarrow> file_ent \<Rightarrow> string \<Rightarrow> file_GetResult result thread" where
  "File_read_t s f shareSlug =
     t_wrap ''file service get: read bytes'' (act (be_Read (fsv_store s) shareSlug)) (\<lambda>rc.
       Ret (Inr \<lparr>fg_F = f, fg_Content = rc, fg_ExpiresAt = f_ExpiresAt f, fg_IsImage = IsImage (f_MimeType f)\<rparr>))"

definition File_Get_t :: "bcrypt \<Rightarrow> file_service \<Rightarrow> string \<Rightarrow> string \<Rightarrow> file_GetResult result thread" where
  "File_Get_t bc s shareSlug passwordAttempt =
     t_lookup File_ErrNotFound ''file service get: lookup'' (act (rp_GetBySlug (fsv_repo s) shareSlug)) (\<lambda>f. clock (\<lambda>now.
       if is_expired now (f_ExpiresAt f) then Ret (Inl (Sentinel File_ErrExpired))
       else if \<not> check_password bc (f_PasswordHash f) passwordAttempt
       then Ret (Inl (Sentinel File_ErrWrongPassword))
       else if f_OneUse f
       then t_wrap ''file service get: mark downloaded'' (act (rp_Mark (fsv_repo s) shareSlug)) (\<lambda>consumed.
              if \<not> consumed then Ret (Inl (Sentinel File_ErrAlreadyConsumed))
              else File_read_t s f shareSlug)
       else File_read_t s f shareSlug))"

definition File_GetMeta_t :: "file_service \<Rightarrow> string \<Rightarrow> file_ent result thread" where
  "File_GetMeta_t s shareSlug =
     t_lookup File_ErrNotFound ''file service get meta: lookup'' (act (rp_GetBySlug (fsv_repo s) shareSlug)) (\<lambda>f. clock (\<lambda>now.
       if is_expired now (f_ExpiresAt f) then Ret (Inl (Sentinel File_ErrExpired)) else Ret (Inr f)))"

definition File_Delete_t :: "file_service \<Rightarrow> string \<Rightarrow> string \<Rightarrow> unit result thread" where
  "File_Delete_t s shareSlug deleteSecret =
     t_lookup File_ErrNotFound ''file service delete: lookup'' (act (rp_GetBySlug (fsv_repo s) shareSlug)) (\<lambda>f.
       if ConstantTimeCompare (f_DeleteSecret f) deleteSecret \<noteq> 1
       then Ret (Inl (Sentinel File_ErrBadDeleteSecret))
       else
         t_wrap ''file service delete: remove bytes'' (act (be_Delete (fsv_store s) shareSlug)) (\<lambda>u.
         t_wrap ''file service delete: remove metadata'' (act (rp_Delete (fsv_repo s) shareSlug)) (\<lambda>u.
           Ret (Inr ()))))"

section \<open>Pastes\<close>

definition Paste_Create_t :: "bcrypt \<Rightarrow> paste_service \<Rightarrow> paste_CreateRequest \<Rightarrow> paste_CreateResult result thread" where
  "Paste_Create_t bc s req =
     t_wrap ''paste service create: generate slug'' (Draw slugLength Ret) (\<lambda>shareSlug.
     t_wrap ''paste service create: generate delete secret'' (Draw deleteSecretLength Ret) (\<lambda>deleteSecret.
     t_wrap ''paste service create: hash password'' (act (hash_password bc (pc_Password req))) (\<lambda>passwordHash.
     let lang = (if pc_Lang req = [] then ''text'' else pc_Lang req) in
     t_wrap ''paste service create: construct entity''
       (Ret (paste_New shareSlug (pc_Title req) (pc_Content req) lang (pc_Expiry req) passwordHash (pc_OneUse req))) (\<lambda>p.
     let p = p\<lparr>p_DeleteSecret := deleteSecret\<rparr> in
     case paste_ExpiryDuration (pc_Expiry req) of
       Inl e \<Rightarrow> Ret (Inl e)
     | Inr d \<Rightarrow> clock (\<lambda>now.
         let expiresAt = expiry_instant d now in
         t_wrap ''paste service create: persist'' (act (rp_Create (psv_repo s) p expiresAt)) (\<lambda>u.
           Ret (Inr (Paste_result s shareSlug deleteSecret expiresAt))))))))"

definition Paste_Get_t :: "bcrypt \<Rightarrow> paste_service \<Rightarrow> string \<Rightarrow> string \<Rightarrow> paste_GetResult result thread" where
  "Paste_Get_t bc s shareSlug passwordAttempt =
     t_lookup Paste_ErrNotFound ''paste service get: lookup'' (act (rp_GetBySlug (psv_repo s) shareSlug)) (\<lambda>p. clock (\<lambda>now.
       if is_expired now (p_ExpiresAt p) then Ret (Inl (Sentinel Paste_ErrExpired))
       else if \<not> check_password bc (p_PasswordHash p) passwordAttempt
       then Ret (Inl (Sentinel Paste_ErrWrongPassword))
       else
         let found = Ret (Inr \<lparr>pg_P = p, pg_ExpiresAt = p_ExpiresAt p\<rparr>)
         in if p_OneUse p
            then t_wrap ''paste service get: mark viewed'' (act (rp_Mark (psv_repo s) shareSlug)) (\<lambda>consumed.
                   if \<not> consumed then Ret (Inl (Sentinel Paste_ErrAlreadyConsumed)) else found)
            else found))"

definition Paste_Delete_t :: "paste_service \<Rightarrow> string \<Rightarrow> string \<Rightarrow> unit result thread" where
  "Paste_Delete_t s shareSlug deleteSecret =
     t_lookup Paste_ErrNotFound ''paste service delete: lookup'' (act (rp_GetBySlug (psv_repo s) shareSlug)) (\<lambda>p.
       if ConstantTimeCompare (p_DeleteSecret p) deleteSecret \<noteq> 1
       then Ret (Inl (Sentinel Paste_ErrBadDeleteSecret))
       else
         t_wrap ''paste service delete: remove record'' (act (rp_Delete (psv_repo s) shareSlug)) (\<lambda>u.
           Ret (Inr ())))"

section \<open>Buckets\<close>

text \<open>Best-effort deletion of bytes under a list of keys: errors are ignored.\<close>

primrec delete_keys :: "backend \<Rightarrow> string list \<Rightarrow> unit thread" where
  "delete_keys B [] = Ret ()"
| "delete_keys B (k # ks) = t_bind (act (be_Delete B k)) (\<lambda>r. delete_keys B ks)"

primrec store_files_t :: "bucket_service \<Rightarrow> string \<Rightarrow> bucket_FileInput list \<Rightarrow> storedFile list \<Rightarrow> storedFile list result thread" where
  "store_files_t s bucketSlug [] = (\<lambda>stored. Ret (Inr stored))"
| "store_files_t s bucketSlug (fi # fis) = (\<lambda>stored.
     t_wrap_undo ''bucket service create: generate file key'' (Draw slugLength Ret)
       (delete_keys (bsv_store s) (map sf_storageKey stored)) (\<lambda>storageKey.
     t_wrap_undo ''bucket service create: write file'' (act (be_Write (bsv_store s) storageKey (fi_Content fi)))
       (delete_keys (bsv_store s) (map sf_storageKey stored)) (\<lambda>u.
     store_files_t s bucketSlug fis (stored @ [stored_entry bucketSlug fi storageKey]))))"

primrec add_files_t :: "bucket_service \<Rightarrow> storedFile list \<Rightarrow> bucket_FileInfo list \<Rightarrow> bucket_FileInfo list result thread" where
  "add_files_t s [] = (\<lambda>fileInfos. Ret (Inr fileInfos))"
| "add_files_t s (sf # sfs) = (\<lambda>fileInfos.
     t_wrap ''bucket service create: persist file'' (act (rp_AddFile (bsv_repo s) (sf_bf sf))) (\<lambda>u.
     add_files_t s sfs (fileInfos @ [file_info sf])))"

definition Bucket_persist_t :: "bucket_service \<Rightarrow> bucket_ent \<Rightarrow> instant option \<Rightarrow> bucket_FileInput list \<Rightarrow>
    (storedFile list \<times> bucket_FileInfo list) result thread" where
  "Bucket_persist_t s b expiresAt files =
     t_try (store_files_t s (b_Slug b) files []) (\<lambda>stored.
     t_wrap_undo ''bucket service create: persist bucket'' (act (rp_Create (bsv_repo s) b expiresAt))
       (delete_keys (bsv_store s) (map sf_storageKey stored)) (\<lambda>u.
     t_try (add_files_t s stored []) (\<lambda>fileInfos. Ret (Inr (stored, fileInfos)))))"

definition Bucket_Create_t :: "bcrypt \<Rightarrow> bucket_service \<Rightarrow> bucket_CreateRequest \<Rightarrow> bucket_CreateResult result thread" where
  "Bucket_Create_t bc s req =
     t_wrap ''bucket service create: generate slug'' (Draw slugLength Ret) (\<lambda>bucketSlug.
     t_wrap ''bucket service create: generate delete secret'' (Draw deleteSecretLength Ret) (\<lambda>deleteSecret.
     t_wrap ''bucket service create: hash password'' (act (hash_password bc (bq_Password req))) (\<lambda>passwordHash.
     t_wrap ''bucket service create: construct entity''
       (Ret (bucket_New bucketSlug deleteSecret passwordHash (bq_Expiry req) (bq_OneUse req))) (\<lambda>b.
     case bucket_ExpiryDuration (bq_Expiry req) of
       Inl p \<Rightarrow> Ret (Inl p)
     | Inr d \<Rightarrow> clock (\<lambda>now.
         let expiresAt = expiry_instant d now in
         t_try (Bucket_persist_t s b expiresAt (bq_Files req)) (\<lambda>(stored, fileInfos).
           Ret (Inr (Bucket_result s bucketSlug deleteSecret expiresAt stored fileInfos))))))))"

text \<open>
  The repository reads a bucket with two statements, the row and then the files, and the expired
  buckets with one for the rows and one per row for its files. All other operations of the
  repositories are one statement each.
\<close>

definition bucketRepo_row :: "string \<Rightarrow> bucket_row io" where
  "bucketRepo_row s w =
     (case sql_Query (\<lambda>now d. tbl_select br_slug s (db_buckets d)) w of
        (Inl e, w1) \<Rightarrow> (Inl (Wrap ''bucket repo get'' e), w1)
      | (Inr None, w1) \<Rightarrow> (Inl (Sentinel Bucket_ErrNotFound), w1)
      | (Inr (Some r), w1) \<Rightarrow> (Inr r, w1))"

definition bucketRepo_GetBySlug_t :: "string \<Rightarrow> bucket_ent result thread" where
  "bucketRepo_GetBySlug_t s =
     t_try (act (bucketRepo_row s)) (\<lambda>r.
     t_try (act (bucketRepo_files ''bucket repo get files'' ''bucket repo get files scan'' ''bucket repo get files rows'' s)) (\<lambda>files.
       Ret (Inr (bucket_of_row r files))))"

definition cursor :: "string \<Rightarrow> string \<Rightarrow> unit io" where
  "cursor ctx msg w = (case next_choice w of (c, w1) \<Rightarrow> if c \<noteq> 0 then (Inl (Wrap ctx (External msg)), w1) else (Inr (), w1))"

primrec bucketRepo_scan_expired_t :: "bucket_row list \<Rightarrow> bucket_ent list result thread" where
  "bucketRepo_scan_expired_t [] =
     t_try (act (cursor ''bucket repo list expired rows'' ''sqlite: rows'')) (\<lambda>u. Ret (Inr []))"
| "bucketRepo_scan_expired_t (r # rs) =
     t_try (act (cursor ''bucket repo list expired scan'' ''sqlite: scan'')) (\<lambda>u.
     t_try (act (bucketRepo_files ''bucket repo list expired files'' ''bucket repo list expired files scan''
       ''bucket repo list expired files rows'' (br_slug r))) (\<lambda>files.
     t_try (bucketRepo_scan_expired_t rs) (\<lambda>bs. Ret (Inr (bucket_of_row r files # bs)))))"

definition bucketRepo_expired :: "bucket_row list io" where
  "bucketRepo_expired w =
     (case sql_Query (\<lambda>now d. filter (\<lambda>r. expired_col now (br_expires_at r)) (db_buckets d)) w of
        (Inl e, w1) \<Rightarrow> (Inl (Wrap ''bucket repo list expired'' e), w1)
      | (Inr rows, w1) \<Rightarrow> (Inr rows, w1))"

definition bucketRepo_ListExpired_t :: "bucket_ent list result thread" where
  "bucketRepo_ListExpired_t = t_try (act bucketRepo_expired) bucketRepo_scan_expired_t"

definition bucket_open_t :: "bcrypt \<Rightarrow> string \<Rightarrow> string \<Rightarrow> string \<Rightarrow> bucket_ent result thread" where
  "bucket_open_t bc ctx bucketSlug passwordAttempt =
     t_lookup Bucket_ErrNotFound ctx (bucketRepo_GetBySlug_t bucketSlug) (\<lambda>b. clock (\<lambda>now.
       if is_expired now (b_ExpiresAt b) then Ret (Inl (Sentinel Bucket_ErrExpired))
       else if \<not> check_password bc (b_PasswordHash b) passwordAttempt
       then Ret (Inl (Sentinel Bucket_ErrWrongPassword))
       else Ret (Inr b)))"

definition Bucket_GetMeta_t :: "bcrypt \<Rightarrow> bucket_service \<Rightarrow> string \<Rightarrow> string \<Rightarrow> bucket_GetResult result thread" where
  "Bucket_GetMeta_t bc s bucketSlug passwordAttempt =
     t_try (bucket_open_t bc ''bucket service get meta: lookup'' bucketSlug passwordAttempt) (\<lambda>b.
       Ret (Inr \<lparr>bg_B = b, bg_ExpiresAt = b_ExpiresAt b\<rparr>))"

definition Bucket_GetFile_t :: "bcrypt \<Rightarrow> bucket_service \<Rightarrow> string \<Rightarrow> string \<Rightarrow> string \<Rightarrow> (bucket_file_ent \<times> bytes) result thread" where
  "Bucket_GetFile_t bc s bucketSlug storageKey passwordAttempt =
     t_try (bucket_open_t bc ''bucket service get file: lookup'' bucketSlug passwordAttempt) (\<lambda>b.
       case List.find (\<lambda>bf. bf_StorageKey bf = storageKey) (b_Files b) of
         None \<Rightarrow> Ret (Inl (Sentinel Bucket_ErrNotFound))
       | Some target \<Rightarrow>
           t_wrap ''bucket service get file: read storage'' (act (be_Read (bsv_store s) storageKey)) (\<lambda>rc.
             Ret (Inr (target, rc))))"

text \<open>Each write to the client and each read of the store is an access of its own.\<close>

definition client_write :: "(nat \<Rightarrow> 'a thread) \<Rightarrow> 'a thread" where
  "client_write k = Act (\<lambda>w. case next_choice w of (c, w1) \<Rightarrow> (k c, w1))"

primrec zip_files_t :: "bucket_service \<Rightarrow> bucket_file_ent list \<Rightarrow> zip_response \<Rightarrow> (unit result \<times> zip_response) thread" where
  "zip_files_t s [] = (\<lambda>zr. Ret (Inr (), zr))"
| "zip_files_t s (bf # bfs) = (\<lambda>zr. client_write (\<lambda>c.
     if c \<noteq> 0 then Ret (Inl (Wrap ''bucket service stream zip: create entry'' (External ''write'')), zr)
     else t_bind (act (be_Read (bsv_store s) (bf_StorageKey bf))) (\<lambda>r. case r of
       Inl e \<Rightarrow> Ret (Inl (Wrap ''bucket service stream zip: read file'' e), zip_add (bf_Filename bf) [] zr)
     | Inr d \<Rightarrow> client_write (\<lambda>c'.
         if c' \<noteq> 0
         then Ret (Inl (Wrap ''bucket service stream zip: stream file'' (External ''write'')),
                zip_add (bf_Filename bf) (take (c' - 1) d) zr)
         else zip_files_t s bfs (zip_add (bf_Filename bf) d zr)))))"

definition Bucket_mark_t :: "bucket_service \<Rightarrow> bool \<Rightarrow> string \<Rightarrow> unit result thread" where
  "Bucket_mark_t s oneUse bucketSlug =
     (if oneUse
      then t_wrap ''bucket service stream zip: mark downloaded'' (act (rp_Mark (bsv_repo s) bucketSlug)) (\<lambda>consumed.
             if \<not> consumed then Ret (Inl (Sentinel Bucket_ErrAlreadyConsumed)) else Ret (Inr ()))
      else Ret (Inr ()))"

definition Bucket_StreamZIP_t :: "bcrypt \<Rightarrow> bucket_service \<Rightarrow> string \<Rightarrow> string \<Rightarrow> zip_response \<Rightarrow>
    (unit result \<times> zip_response) thread" where
  "Bucket_StreamZIP_t bc s bucketSlug passwordAttempt zr =
     t_bind (bucket_open_t bc ''bucket service stream zip: lookup'' bucketSlug passwordAttempt) (\<lambda>r. case r of
       Inl e \<Rightarrow> Ret (Inl e, zr)
     | Inr b \<Rightarrow> t_bind (Bucket_mark_t s (b_OneUse b) bucketSlug) (\<lambda>r. case r of
         Inl e \<Rightarrow> Ret (Inl e, zr)
       | Inr u \<Rightarrow>
           let zr1 = zr\<lparr>zr_header := zr_header zr @
             [(''Content-Type'', ''application/zip''),
              (''Content-Disposition'', ''attachment; filename=\"'' @ bucketSlug @ ''.zip\"'')]\<rparr> in
           t_bind (zip_files_t s (b_Files b) zr1) (\<lambda>(r, zr2).
             client_write (\<lambda>c. Ret (r, zr2\<lparr>zr_complete := (c = 0)\<rparr>)))))"

definition Bucket_Delete_t :: "bucket_service \<Rightarrow> string \<Rightarrow> string \<Rightarrow> unit result thread" where
  "Bucket_Delete_t s bucketSlug deleteSecret =
     t_lookup Bucket_ErrNotFound ''bucket service delete: lookup'' (bucketRepo_GetBySlug_t bucketSlug) (\<lambda>b.
       if ConstantTimeCompare (b_DeleteSecret b) deleteSecret \<noteq> 1
       then Ret (Inl (Sentinel Bucket_ErrBadDeleteSecret))
       else t_bind (delete_keys (bsv_store s) (map bf_StorageKey (b_Files b))) (\<lambda>u.
         t_wrap ''bucket service delete: remove record'' (act (rp_Delete (bsv_repo s) bucketSlug)) (\<lambda>u.
           Ret (Inr ()))))"

section \<open>The sweep\<close>

text \<open>The loop over the expired rows of one table: the keys of a row, then the row.\<close>

primrec sweep_rows_t :: "backend \<Rightarrow> (string \<Rightarrow> unit io) \<Rightarrow> (string list \<times> string) list \<Rightarrow> nat \<Rightarrow> nat thread" where
  "sweep_rows_t B del [] = (\<lambda>n. Ret n)"
| "sweep_rows_t B del (row # rows) = (\<lambda>n.
     t_bind (delete_keys B (fst row)) (\<lambda>u.
     t_bind (act (del (snd row))) (\<lambda>r. case r of
       Inl e \<Rightarrow> sweep_rows_t B del rows n
     | Inr u \<Rightarrow> sweep_rows_t B del rows (n + 1))))"

definition sweep_table_t :: "backend \<Rightarrow> 'e list result thread \<Rightarrow> (string \<Rightarrow> unit io) \<Rightarrow> ('e \<Rightarrow> string list \<times> string) \<Rightarrow> nat thread" where
  "sweep_table_t B list_t del row_of =
     t_bind list_t (\<lambda>r. case r of
       Inl e \<Rightarrow> Ret 0
     | Inr expired \<Rightarrow> sweep_rows_t B del (map row_of expired) 0)"

definition sweep_t :: "cleanup \<Rightarrow> (nat \<times> nat \<times> nat) thread" where
  "sweep_t c =
     t_bind (sweep_table_t (cl_store c) (act (rp_ListExpired (cl_fileRepo c))) (rp_Delete (cl_fileRepo c))
       (\<lambda>f. ([f_Slug f], f_Slug f))) (\<lambda>nFiles.
     t_bind (sweep_table_t (cl_store c) bucketRepo_ListExpired_t (rp_Delete (cl_bucketRepo c))
       (\<lambda>b. (map bf_StorageKey (b_Files b), b_Slug b))) (\<lambda>nBuckets.
     t_bind (sweep_table_t (cl_store c) (act (rp_ListExpired (cl_pasteRepo c))) (rp_Delete (cl_pasteRepo c))
       (\<lambda>p. ([], p_Slug p))) (\<lambda>nPastes.
       Ret (nFiles, nBuckets, nPastes))))"

section \<open>The calls\<close>

fun thread_of :: "bcrypt \<Rightarrow> string \<Rightarrow> call \<Rightarrow> outcome thread" where
  "thread_of bc url (FileUpload req) = t_bind (File_Upload_t bc (fileService url) req) (\<lambda>r. Ret (FileUploaded r))"
| "thread_of bc url (FileGet s pw) = t_bind (File_Get_t bc (fileService url) s pw) (\<lambda>r. Ret (FileGot r))"
| "thread_of bc url (FileMeta s) = t_bind (File_GetMeta_t (fileService url) s) (\<lambda>r. Ret (FileMetaGot r))"
| "thread_of bc url (FileDelete s d) = t_bind (File_Delete_t (fileService url) s d) (\<lambda>r. Ret (Deleted r))"
| "thread_of bc url (PasteCreate req) = t_bind (Paste_Create_t bc (pasteService url) req) (\<lambda>r. Ret (PasteCreated r))"
| "thread_of bc url (PasteGet s pw) = t_bind (Paste_Get_t bc (pasteService url) s pw) (\<lambda>r. Ret (PasteGot r))"
| "thread_of bc url (PasteDelete s d) = t_bind (Paste_Delete_t (pasteService url) s d) (\<lambda>r. Ret (Deleted r))"
| "thread_of bc url (BucketCreate req) = t_bind (Bucket_Create_t bc (bucketService url) req) (\<lambda>r. Ret (BucketCreated r))"
| "thread_of bc url (BucketMeta s pw) = t_bind (Bucket_GetMeta_t bc (bucketService url) s pw) (\<lambda>r. Ret (BucketMetaGot r))"
| "thread_of bc url (BucketZIP s pw) =
     t_bind (Bucket_StreamZIP_t bc (bucketService url) s pw empty_response) (\<lambda>(r, z). Ret (BucketZIPped r z))"
| "thread_of bc url (BucketFile s k pw) = t_bind (Bucket_GetFile_t bc (bucketService url) s k pw) (\<lambda>r. Ret (BucketFileGot r))"
| "thread_of bc url (BucketDelete s d) = t_bind (Bucket_Delete_t (bucketService url) s d) (\<lambda>r. Ret (Deleted r))"
| "thread_of bc url Sweep = t_bind (sweep_t program_cleanup) (\<lambda>(f, b, p). Ret (Swept f b p))"
| "thread_of bc url (Pass d bs env) = Act (\<lambda>w. (Ret Passed, snd (exec bc url (Pass d bs env) w)))"

section \<open>Without interruption: the operations of the services\<close>

lemma program_parts [simp]:
  "fsv_repo (fileService url) = fileRepo" "psv_repo (pasteService url) = pasteRepo" "bsv_repo (bucketService url) = bucketRepo"
  "fsv_store (fileService url) = LocalFS" "bsv_store (bucketService url) = LocalFS"
  by (simp_all only: fileService_def pasteService_def bucketService_def file_service.simps paste_service.simps
      bucket_service.simps)

lemma wrap_Ret: "wrap c (\<lambda>w. (r, w)) k = (case r of Inl e \<Rightarrow> (\<lambda>w. (Inl (Wrap c e), w)) | Inr a \<Rightarrow> k a)"
  by (auto simp: wrap_def fun_eq_iff split: sum.split)

lemma pure_Pair: "pure_result r = (\<lambda>w. (r, w))"
  by (simp add: fun_eq_iff pure_result_def)

text \<open>Two sequences agree if their parts do.\<close>

lemma wrap_parts:
  "(\<And>a w1. k a w1 = k' a w1) \<Longrightarrow> wrap c m k w = wrap c m k' w"
  "(\<And>w1. u w1 = u' w1) \<Longrightarrow> (\<And>a w1. k a w1 = k' a w1) \<Longrightarrow> wrap_undo c m u k w = wrap_undo c m u' k' w"
  "(\<And>a w1. k a w1 = k' a w1) \<Longrightarrow> lookup nf c m k w = lookup nf c m k' w"
  by (simp_all add: wrap_def wrap_undo_def lookup_def split: prod.split sum.split)

lemmas uninterrupted = wrap_Ret pure_Pair Let_def fun_eq_iff

lemma run_undo [simp]: "snd (t_run (undo_write B k) w) = snd (be_Delete B k w)"
  by (simp add: undo_write_def split: prod.split)

lemma run_file_persist [simp]: "t_run (File_persist_t s f c t) = File_persist s f c t"
  by (auto simp: File_persist_t_def File_persist_def uninterrupted intro!: wrap_parts split: prod.split sum.split option.split)

lemma run_file_upload [simp]: "t_run (File_Upload_t bc s req) = File_Upload bc s req"
  by (auto simp: File_Upload_t_def File_Upload_from_def File_Upload_def uninterrupted intro!: wrap_parts split: prod.split sum.split option.split)

lemma run_file_read [simp]: "t_run (File_read_t s f k) = File_read s f k"
  by (auto simp: File_read_t_def File_read_def uninterrupted intro!: wrap_parts split: prod.split sum.split option.split)

lemma run_file_get [simp]: "t_run (File_Get_t bc s k pw) = File_Get bc s k pw"
  by (auto simp: File_Get_t_def File_Get_def uninterrupted intro!: wrap_parts split: prod.split sum.split option.split)

lemma run_file_meta [simp]: "t_run (File_GetMeta_t s k) = File_GetMeta s k"
  by (auto simp: File_GetMeta_t_def File_GetMeta_def uninterrupted intro!: wrap_parts split: prod.split sum.split option.split)

lemma run_file_delete [simp]: "t_run (File_Delete_t s k d) = File_Delete s k d"
  by (auto simp: File_Delete_t_def File_Delete_def uninterrupted intro!: wrap_parts split: prod.split sum.split option.split)

lemma run_paste_create [simp]: "t_run (Paste_Create_t bc s req) = Paste_Create bc s req"
  by (auto simp: Paste_Create_t_def Paste_Create_def uninterrupted intro!: wrap_parts split: prod.split sum.split option.split)

lemma run_paste_get [simp]: "t_run (Paste_Get_t bc s k pw) = Paste_Get bc s k pw"
  by (auto simp: Paste_Get_t_def Paste_Get_def uninterrupted intro!: wrap_parts split: prod.split sum.split option.split)

lemma run_paste_delete [simp]: "t_run (Paste_Delete_t s k d) = Paste_Delete s k d"
  by (auto simp: Paste_Delete_t_def Paste_Delete_def uninterrupted intro!: wrap_parts split: prod.split sum.split option.split)

lemma run_delete_keys:
  "snd (t_run (delete_keys (bsv_store s) (map sf_storageKey sfs)) w) = delete_stored s sfs w"
  "snd (t_run (delete_keys (bsv_store s) (map bf_StorageKey bfs)) w) = delete_bytes s bfs w"
  "snd (t_run (delete_keys (cl_store c) (map bf_StorageKey bfs)) w) = sweep_keys c bfs w"
  by (induction sfs arbitrary: w, auto split: prod.split) (induction bfs arbitrary: w, auto split: prod.split)+

lemma run_store_files [simp]: "t_run (store_files_t s b fis stored) = store_files s b stored fis"
  by (induction fis arbitrary: stored) (auto simp: uninterrupted run_delete_keys intro!: wrap_parts)

lemma run_add_files [simp]: "t_run (add_files_t s sfs infos) = add_files s infos sfs"
  by (induction sfs arbitrary: infos) (auto simp: uninterrupted intro!: wrap_parts)

lemma run_bucket_persist [simp]: "t_run (Bucket_persist_t s b t fis) = Bucket_persist s b t fis"
  by (auto simp: Bucket_persist_t_def Bucket_persist_def run_delete_keys uninterrupted intro!: wrap_parts split: prod.split sum.split option.split)

lemma run_bucket_create [simp]: "t_run (Bucket_Create_t bc s req) = Bucket_Create bc s req"
  by (auto simp: Bucket_Create_t_def Bucket_Create_def uninterrupted intro!: wrap_parts split: prod.split sum.split option.split)

lemma run_bucket_lookup [simp]: "t_run (bucketRepo_GetBySlug_t s) = bucketRepo_GetBySlug s"
  by (auto simp: fun_eq_iff bucketRepo_GetBySlug_t_def bucketRepo_GetBySlug_def bucketRepo_row_def split: prod.split sum.split option.split)

lemma run_bucket_scan: "t_run (bucketRepo_scan_expired_t rs) w = bucketRepo_scan_expired rs w"
  by (induction rs arbitrary: w) (auto simp: cursor_def split: prod.split sum.split)

lemma run_bucket_list [simp]: "t_run bucketRepo_ListExpired_t = bucketRepo_ListExpired"
  by (auto simp: fun_eq_iff bucketRepo_ListExpired_t_def bucketRepo_ListExpired_def bucketRepo_expired_def run_bucket_scan
      split: prod.split sum.split)

lemma run_bucket_open [simp]: "bucket_open bc (bucketService url) c k pw = t_run (bucket_open_t bc c k pw)"
  by (auto simp: bucket_open_t_def bucket_open_def uninterrupted intro!: wrap_parts split: prod.split sum.split option.split)

lemma run_bucket_meta [simp]: "t_run (Bucket_GetMeta_t bc (bucketService url) k pw) = Bucket_GetMeta bc (bucketService url) k pw"
  by (auto simp: Bucket_GetMeta_t_def Bucket_GetMeta_def uninterrupted intro!: wrap_parts split: prod.split sum.split option.split)

lemma run_bucket_file [simp]: "t_run (Bucket_GetFile_t bc (bucketService url) k key pw) = Bucket_GetFile bc (bucketService url) k key pw"
  by (auto simp: Bucket_GetFile_t_def Bucket_GetFile_def uninterrupted intro!: wrap_parts split: prod.split sum.split option.split)

lemma run_client_write [simp]: "t_run (client_write k) = (\<lambda>w. case next_choice w of (c, w1) \<Rightarrow> t_run (k c) w1)"
  by (simp add: client_write_def map_prod_def fun_eq_iff)

lemma run_zip_files [simp]: "t_run (zip_files_t s bfs zr) = zip_files s bfs zr"
  by (induction bfs arbitrary: zr) (auto simp: fun_eq_iff split: prod.split sum.split)

lemma run_bucket_mark [simp]: "t_run (Bucket_mark_t s one k) = Bucket_mark s one k"
  by (auto simp: Bucket_mark_t_def Bucket_mark_def uninterrupted intro!: wrap_parts split: prod.split sum.split option.split)

lemma run_bucket_zip [simp]: "t_run (Bucket_StreamZIP_t bc (bucketService url) k pw zr) = Bucket_StreamZIP bc (bucketService url) k pw zr"
  by (auto simp: fun_eq_iff Bucket_StreamZIP_t_def Bucket_StreamZIP_def zip_close_def Let_def split: prod.split sum.split)

lemma run_bucket_delete [simp]: "t_run (Bucket_Delete_t (bucketService url) k d) = Bucket_Delete (bucketService url) k d"
  by (auto simp: Bucket_Delete_t_def Bucket_Delete_def uninterrupted run_delete_keys [symmetric] fun_eq_iff lookup_def
      split: prod.split sum.split)

lemma run_sweep_rows:
  "t_run (sweep_rows_t (cl_store c) (rp_Delete (cl_fileRepo c)) (map (\<lambda>f. ([f_Slug f], f_Slug f)) fs) n) = sweep_file_rows c n fs"
  "t_run (sweep_rows_t (cl_store c) (rp_Delete (cl_bucketRepo c)) (map (\<lambda>b. (map bf_StorageKey (b_Files b), b_Slug b)) bs) n) =
     sweep_bucket_rows c n bs"
  "t_run (sweep_rows_t (cl_store c) (rp_Delete (cl_pasteRepo c)) (map (\<lambda>p. ([], p_Slug p)) ps) n) = sweep_paste_rows c n ps"
proof -
  show "t_run (sweep_rows_t (cl_store c) (rp_Delete (cl_fileRepo c)) (map (\<lambda>f. ([f_Slug f], f_Slug f)) fs) n) = sweep_file_rows c n fs"
    by (induction fs arbitrary: n) (auto simp: fun_eq_iff split: prod.split sum.split)
  show "t_run (sweep_rows_t (cl_store c) (rp_Delete (cl_bucketRepo c)) (map (\<lambda>b. (map bf_StorageKey (b_Files b), b_Slug b)) bs) n) =
     sweep_bucket_rows c n bs"
    by (induction bs arbitrary: n) (auto simp: fun_eq_iff run_delete_keys(3) [symmetric] split: prod.split sum.split)
  show "t_run (sweep_rows_t (cl_store c) (rp_Delete (cl_pasteRepo c)) (map (\<lambda>p. ([], p_Slug p)) ps) n) = sweep_paste_rows c n ps"
    by (induction ps arbitrary: n) (auto simp: fun_eq_iff split: prod.split sum.split)
qed

lemma run_sweep_table:
  "t_run (sweep_table_t (cl_store c) (act (rp_ListExpired (cl_fileRepo c))) (rp_Delete (cl_fileRepo c)) (\<lambda>f. ([f_Slug f], f_Slug f))) =
     sweepFiles c"
  "t_run list_t = rp_ListExpired (cl_bucketRepo c) \<Longrightarrow>
     t_run (sweep_table_t (cl_store c) list_t (rp_Delete (cl_bucketRepo c)) (\<lambda>b. (map bf_StorageKey (b_Files b), b_Slug b))) = sweepBuckets c"
  "t_run (sweep_table_t (cl_store c) (act (rp_ListExpired (cl_pasteRepo c))) (rp_Delete (cl_pasteRepo c)) (\<lambda>p. ([], p_Slug p))) =
     sweepPastes c"
  by (auto simp: fun_eq_iff sweep_table_t_def sweepFiles_def sweepBuckets_def sweepPastes_def run_sweep_rows split: prod.split sum.split)

lemma run_sweep:
  assumes "cl_bucketRepo c = bucketRepo"
  shows "t_run (sweep_t c) = sweep c"
proof -
  have "t_run bucketRepo_ListExpired_t = rp_ListExpired (cl_bucketRepo c)" by (simp add: assms)
  from run_sweep_table(2) [OF this] show ?thesis
    by (simp add: fun_eq_iff sweep_t_def sweep_def run_sweep_table(1,3) split: prod.split)
qed

lemma run_call: "t_run (thread_of bc url c) = exec bc url c"
  by (cases c) (auto simp: fun_eq_iff map_prod_def run_sweep split: prod.split)

end
