(* ===== verification/Interleaving.thy ===== *)
theory Interleaving
  imports Calls
begin

text \<open>
  Concurrent reads of one-use content. The handlers run in parallel, so the steps of several
  calls (Get of a file or a paste, StreamZIP of a bucket) interleave: the lookup of the row, the
  conditional update that marks it, and the reading of the bytes are separate accesses to the
  database and the disk. A call is cut into these steps; any number of calls take them in any
  order, with arbitrary other calls of the program (and time) in between.
\<close>

section \<open>A read in steps\<close>

text \<open>
  The phase of a call: before the lookup, before the marking, before the last step, done. The
  parameters are the repository, the checks between lookup and marking, whether the content is
  one-use, and the last step.
\<close>

datatype ('e, 'r) phase = Lookup | Claim 'e | Finish 'e | Done "'r result"

record ('e, 'r) reading =
  rg_Get :: "string \<Rightarrow> 'e io"
  rg_Mark :: "string \<Rightarrow> bool io"
  rg_NotFound :: sentinel
  rg_Consumed :: sentinel
  rg_lookup_ctx :: string
  rg_mark_ctx :: string
  rg_access :: "'e \<Rightarrow> world \<Rightarrow> sentinel option"
  rg_one_use :: "'e \<Rightarrow> bool"
  rg_finish :: "'e \<Rightarrow> string \<Rightarrow> 'r io"

fun next_phase :: "('e, 'r) reading \<Rightarrow> string \<Rightarrow> ('e, 'r) phase \<Rightarrow> world \<Rightarrow> ('e, 'r) phase \<times> world" where
  "next_phase g s Lookup w =
     (case rg_Get g s w of
        (Inl e, w1) \<Rightarrow>
          (Done (Inl (if errors_Is e (rg_NotFound g) then Sentinel (rg_NotFound g) else Wrap (rg_lookup_ctx g) e)), w1)
      | (Inr f, w1) \<Rightarrow>
          (case rg_access g f w1 of
             Some x \<Rightarrow> (Done (Inl (Sentinel x)), w1)
           | None \<Rightarrow> (if rg_one_use g f then Claim f else Finish f, w1)))"
| "next_phase g s (Claim f) w =
     (case rg_Mark g s w of
        (Inl e, w1) \<Rightarrow> (Done (Inl (Wrap (rg_mark_ctx g) e)), w1)
      | (Inr consumed, w1) \<Rightarrow>
          (if consumed then Finish f else Done (Inl (Sentinel (rg_Consumed g))), w1))"
| "next_phase g s (Finish f) w = (case rg_finish g f s w of (r, w1) \<Rightarrow> (Done r, w1))"
| "next_phase g s (Done r) w = (Done r, w)"

definition file_reading :: "bcrypt \<Rightarrow> string \<Rightarrow> string \<Rightarrow> (file_ent, file_GetResult) reading" where
  "file_reading bc url pw =
     \<lparr>rg_Get = rp_GetBySlug fileRepo, rg_Mark = rp_Mark fileRepo, rg_NotFound = File_ErrNotFound, rg_Consumed = File_ErrAlreadyConsumed,
      rg_lookup_ctx = ''file service get: lookup'', rg_mark_ctx = ''file service get: mark downloaded'',
      rg_access = (\<lambda>f w. if is_expired (w_now w) (f_ExpiresAt f) then Some File_ErrExpired
         else if \<not> check_password bc (f_PasswordHash f) pw then Some File_ErrWrongPassword else None),
      rg_one_use = f_OneUse, rg_finish = File_read (fileService url)\<rparr>"

definition paste_reading :: "bcrypt \<Rightarrow> string \<Rightarrow> (paste_ent, paste_GetResult) reading" where
  "paste_reading bc pw =
     \<lparr>rg_Get = rp_GetBySlug pasteRepo, rg_Mark = rp_Mark pasteRepo, rg_NotFound = Paste_ErrNotFound, rg_Consumed = Paste_ErrAlreadyConsumed,
      rg_lookup_ctx = ''paste service get: lookup'', rg_mark_ctx = ''paste service get: mark viewed'',
      rg_access = (\<lambda>p w. if is_expired (w_now w) (p_ExpiresAt p) then Some Paste_ErrExpired
         else if \<not> check_password bc (p_PasswordHash p) pw then Some Paste_ErrWrongPassword else None),
      rg_one_use = p_OneUse, rg_finish = (\<lambda>p s w. (Inr \<lparr>pg_P = p, pg_ExpiresAt = p_ExpiresAt p\<rparr>, w))\<rparr>"

text \<open>
  The ZIP of a bucket: the row with its files, the marking, and the streaming, whose outcome is the
  bucket with the error, if any, and the response written so far.
\<close>

definition bucket_stream :: "bucket_service \<Rightarrow> zip_response \<Rightarrow> bucket_ent \<Rightarrow> string \<Rightarrow>
    (bucket_ent \<times> unit result \<times> zip_response) io" where
  "bucket_stream svc zr b s w =
     (case zip_files svc (b_Files b) (zr\<lparr>zr_header := zr_header zr @
         [(''Content-Type'', ''application/zip''), (''Content-Disposition'', ''attachment; filename=\"'' @ s @ ''.zip\"'')]\<rparr>) w of
        ((r, zr2), w1) \<Rightarrow> (case zip_close zr2 w1 of (zr3, w2) \<Rightarrow> (Inr (b, r, zr3), w2)))"

definition bucket_reading :: "bcrypt \<Rightarrow> string \<Rightarrow> zip_response \<Rightarrow> string \<Rightarrow>
    (bucket_ent, bucket_ent \<times> unit result \<times> zip_response) reading" where
  "bucket_reading bc url zr pw =
     \<lparr>rg_Get = rp_GetBySlug bucketRepo, rg_Mark = rp_Mark bucketRepo, rg_NotFound = Bucket_ErrNotFound,
      rg_Consumed = Bucket_ErrAlreadyConsumed,
      rg_lookup_ctx = ''bucket service stream zip: lookup'', rg_mark_ctx = ''bucket service stream zip: mark downloaded'',
      rg_access = (\<lambda>b w. if is_expired (w_now w) (b_ExpiresAt b) then Some Bucket_ErrExpired
         else if \<not> check_password bc (b_PasswordHash b) pw then Some Bucket_ErrWrongPassword else None),
      rg_one_use = b_OneUse, rg_finish = bucket_stream (bucketService url) zr\<rparr>"

text \<open>Three steps of one call alone are the service operation.\<close>

definition alone :: "('e, 'r) reading \<Rightarrow> string \<Rightarrow> world \<Rightarrow> ('e, 'r) phase \<times> world" where
  "alone g s w = (case next_phase g s Lookup w of (p1, w1) \<Rightarrow> case next_phase g s p1 w1 of (p2, w2) \<Rightarrow> next_phase g s p2 w2)"

lemma file_alone: "alone (file_reading bc url pw) s w = map_prod Done id (File_Get bc (fileService url) s pw w)"
proof -
  obtain x w1 where g: "rp_GetBySlug fileRepo s w = (x, w1)" by (rule prod.exhaust)
  obtain m w2 where m: "rp_Mark fileRepo s w1 = (m, w2)" by (rule prod.exhaust)
  show ?thesis
  proof (cases x)
    case (Inl e)
    with g show ?thesis by (simp add: alone_def file_reading_def File_Get_def lookup_def)
  next
    case (Inr f)
    with g m show ?thesis
      by (cases m) (simp_all add: alone_def file_reading_def File_Get_def lookup_def wrap_def pure_result_def split: prod.split)
  qed
qed

lemma paste_alone: "alone (paste_reading bc pw) s w = map_prod Done id (Paste_Get bc (pasteService url) s pw w)"
proof -
  obtain x w1 where g: "rp_GetBySlug pasteRepo s w = (x, w1)" by (rule prod.exhaust)
  obtain m w2 where m: "rp_Mark pasteRepo s w1 = (m, w2)" by (rule prod.exhaust)
  show ?thesis
  proof (cases x)
    case (Inl e)
    with g show ?thesis by (simp add: alone_def paste_reading_def Paste_Get_def lookup_def)
  next
    case (Inr f)
    with g m show ?thesis
      by (cases m) (simp_all add: alone_def paste_reading_def Paste_Get_def lookup_def wrap_def pure_result_def Let_def)
  qed
qed

text \<open>What the client sees of a reading that is done.\<close>

definition zip_answer :: "zip_response \<Rightarrow> (bucket_ent \<times> unit result \<times> zip_response) result \<Rightarrow> unit result \<times> zip_response" where
  "zip_answer zr q = (case q of Inl e \<Rightarrow> (Inl e, zr) | Inr (b, r, zr') \<Rightarrow> (r, zr'))"

lemma bucket_alone:
  "\<exists>q. alone (bucket_reading bc url zr pw) s w = (Done q, snd (Bucket_StreamZIP bc (bucketService url) s pw zr w)) \<and>
     fst (Bucket_StreamZIP bc (bucketService url) s pw zr w) = zip_answer zr q"
proof -
  obtain x w1 where g: "rp_GetBySlug bucketRepo s w = (x, w1)" by (rule prod.exhaust)
  obtain m w2 where m: "rp_Mark bucketRepo s w1 = (m, w2)" by (rule prod.exhaust)
  note defs = alone_def bucket_reading_def Bucket_StreamZIP_def bucket_open_def lookup_def zip_answer_def
  show ?thesis
  proof (cases x)
    case (Inl e)
    with g show ?thesis by (simp add: defs)
  next
    case (Inr b)
    with g m show ?thesis
      by (cases m) (simp_all add: defs Bucket_mark_def bucket_stream_def wrap_def pure_result_def Let_def split: prod.split)
  qed
qed

section \<open>Interleavings\<close>

text \<open>
  A configuration is the phase of every call and the world. A step lets one call take its next
  step, or anything else of the program happen, short of an upload that draws the same slug.
\<close>

inductive interleave ::
  "bcrypt \<Rightarrow> string \<Rightarrow> ('e, 'r) reading list \<Rightarrow> string \<Rightarrow> ('e, 'r) phase list \<times> world \<Rightarrow> ('e, 'r) phase list \<times> world \<Rightarrow> bool"
  for bc url gs s where
  call: "i < length gs \<Longrightarrow> next_phase (gs ! i) s (ps ! i) w = (p, w') \<Longrightarrow>
    interleave bc url gs s (ps, w) (ps[i := p], w')"
| other: "exec bc url c w = (x, w') \<Longrightarrow> \<not> draws c w s \<Longrightarrow> interleave bc url gs s (ps, w) (ps, w')"

inductive_cases interleaveE: "interleave bc url gs s (ps, w) (ps', w')"

lemmas interleave_cases = interleaveE [consumes 1, case_names call other]

text \<open>A call has won the one-use content when it got past the marking.\<close>

fun won :: "('e \<Rightarrow> bool) \<Rightarrow> ('r \<Rightarrow> 'e) \<Rightarrow> ('e, 'r) phase \<Rightarrow> bool" where
  "won one ent (Finish e) = one e"
| "won one ent (Done (Inr r)) = one (ent r)"
| "won one ent _ = False"

definition winners :: "('e \<Rightarrow> bool) \<Rightarrow> ('r \<Rightarrow> 'e) \<Rightarrow> ('e, 'r) phase list \<Rightarrow> nat set" where
  "winners one ent ps = {i. i < length ps \<and> won one ent (ps ! i)}"

lemma finite_winners [simp]: "finite (winners one ent ps)"
  by (simp add: winners_def)

lemma winners_update:
  "i < length ps \<Longrightarrow> winners one ent (ps[i := p]) = (if won one ent p then insert i (winners one ent ps) else winners one ent ps - {i})"
  by (auto simp: winners_def nth_list_update)

text \<open>Calls for one slug, each with a password of its own, all before their first step.\<close>

definition start :: "('e, 'r) reading list \<Rightarrow> world \<Rightarrow> ('e, 'r) phase list \<times> world" where
  "start gs w = (replicate (length gs) Lookup, w)"

lemma winners_start [simp]: "winners one ent (replicate n Lookup) = {}"
  by (auto simp: winners_def)

text \<open>What a step of a call does, in terms of the contract of the repository.\<close>

context repository
begin

lemma phase_step:
  assumes g: "rg_Get g = rp_GetBySlug R" "rg_Mark g = rp_Mark R" "rg_one_use g = one"
    and fin: "\<And>e v r v'. rg_finish g e s v = (r, v') \<Longrightarrow> same_but_env v v' \<and> (\<forall>x. r = Inr x \<longrightarrow> ent x = e)"
    and step: "next_phase g s p w = (p', w')" and ok: "ok (w_db w)"
  shows "same_but_db w w' \<and> other (w_db w') = other (w_db w) \<and> ok (w_db w') \<and> view (w_db w') = view (w_db w) \<and>
    (\<forall>k. used (w_db w) k \<longrightarrow> used (w_db w') k) \<and>
    (won one ent p' \<longrightarrow> won one ent p \<or> view (w_db w) s \<noteq> None \<and> \<not> used (w_db w) s \<and> used (w_db w') s)"
proof -
  have env: ?thesis if "same_but_env w w'" "won one ent p' \<longrightarrow> won one ent p"
  proof -
    from that(1) have "w_db w' = w_db w" by (rule same_but_envD)
    with that ok same_but_env_db [OF that(1)] show ?thesis by simp
  qed
  show ?thesis
  proof (cases p)
    case Lookup
    obtain y w1 where y: "rp_GetBySlug R s w = (y, w1)" by (rule prod.exhaust)
    with step Lookup g have "w' = w1" "won one ent p' \<longrightarrow> won one ent p"
      by (auto split: sum.splits option.splits if_splits)
    with env Get_frame [OF y] show ?thesis by simp
  next
    case (Claim e)
    obtain b w1 where b: "rp_Mark R s w = (b, w1)" by (rule prod.exhaust)
    with step Claim g have w': "w' = w1" by (auto split: sum.splits)
    have won: "won one ent p' \<longrightarrow> b = Inr True"
      using step Claim b g by (auto split: sum.splits if_splits)
    show ?thesis
      using Mark_frame [OF b] Mark_inv [OF b ok] Mark_view [OF b] mark_used_mono [OF b ok] won
        mark_sets [of s w w1] b ok Mark_Inr [of s w True w1] unfolding w' by auto
  next
    case (Finish e)
    obtain r w1 where r: "rg_finish g e s w = (r, w1)" by (rule prod.exhaust)
    with step Finish have "w' = w1" "p' = Done r" by simp_all
    with env fin [OF r] Finish show ?thesis by (cases r) auto
  next
    case (Done r)
    with step env show ?thesis by simp
  qed
qed

text \<open>At most one winner, and once there is one, the mark is set for as long as the row exists.\<close>

definition claim_inv :: "('e \<Rightarrow> bool) \<Rightarrow> ('r \<Rightarrow> 'e) \<Rightarrow> string \<Rightarrow> ('e, 'r) phase list \<Rightarrow> world \<Rightarrow> bool" where
  "claim_inv one ent s ps w \<longleftrightarrow> card (winners one ent ps) \<le> 1 \<and>
     (winners one ent ps = {} \<or> view (w_db w) s = None \<or> used (w_db w) s)"

lemma claim_inv_call:
  assumes "claim_inv one ent s ps w" and i: "i < length ps"
    and "rg_Get g = rp_GetBySlug R" "rg_Mark g = rp_Mark R" "rg_one_use g = one"
    and "\<And>e v r v'. rg_finish g e s v = (r, v') \<Longrightarrow> same_but_env v v' \<and> (\<forall>x. r = Inr x \<longrightarrow> ent x = e)"
    and "next_phase g s (ps ! i) w = (p', w')" and "ok (w_db w)"
  shows "claim_inv one ent s (ps[i := p']) w'"
proof -
  note st = phase_step [OF assms(3-8)]
  let ?W = "winners one ent ps"
  show ?thesis
  proof (cases "won one ent p' \<and> \<not> won one ent (ps ! i)")
    case True
    with st have "view (w_db w) s \<noteq> None" "\<not> used (w_db w) s" "used (w_db w') s" by auto
    with assms(1) True i show ?thesis by (simp add: claim_inv_def winners_update)
  next
    case False
    have "winners one ent (ps[i := p']) \<subseteq> ?W"
      using False i by (auto simp: winners_update) (auto simp: winners_def)
    with card_mono [OF finite_winners this] assms(1) st show ?thesis by (auto simp: claim_inv_def)
  qed
qed

lemma claim_inv_other:
  assumes "claim_inv one ent s ps w" and "evolves view used s (w_db w) (w_db w')"
  shows "claim_inv one ent s ps w'"
  using assms by (auto simp: claim_inv_def evolves_def)

text \<open>
  The invariant of all interleavings, for calls on this repository in a program that keeps it.
\<close>

lemma interleaved:
  assumes "(interleave bc url gs s)\<^sup>*\<^sup>* (start gs w0) (ps, w)" and "sys_ok w0"
    and g: "\<And>g. g \<in> set gs \<Longrightarrow> rg_Get g = rp_GetBySlug R \<and> rg_Mark g = rp_Mark R \<and> rg_one_use g = one"
    and fin: "\<And>g e v r v'. g \<in> set gs \<Longrightarrow> rg_finish g e s v = (r, v') \<Longrightarrow>
      same_but_env v v' \<and> (\<forall>x. r = Inr x \<longrightarrow> ent x = e)"
    and tables: "\<And>w. sys_ok w \<Longrightarrow> ok (w_db w)"
    and rest: "\<And>w w'. sys_ok w \<Longrightarrow> same_but_db w w' \<Longrightarrow> other (w_db w') = other (w_db w) \<Longrightarrow> ok (w_db w') \<Longrightarrow> sys_ok w'"
    and calls: "\<And>c w x w'. exec bc url c w = (x, w') \<Longrightarrow> sys_ok w \<Longrightarrow> \<not> draws c w s \<Longrightarrow>
      evolves view used s (w_db w) (w_db w')"
  shows "length ps = length gs \<and> sys_ok w \<and> claim_inv one ent s ps w"
  using assms(1)
proof (induction "(ps, w)" arbitrary: ps w rule: rtranclp_induct)
  case base
  then show ?case using assms(2) by (auto simp: start_def claim_inv_def)
next
  case (step c)
  obtain qs v where c: "c = (qs, v)" by (rule prod.exhaust)
  note IH = step.hyps(3) [OF c]
  from step.hyps(2) [unfolded c] show ?case
  proof (cases rule: interleave_cases)
    case (call i p)
    have i: "i < length qs" and mem: "gs ! i \<in> set gs" using call(2) IH by simp_all
    from g [OF mem] have g: "rg_Get (gs ! i) = rp_GetBySlug R" "rg_Mark (gs ! i) = rp_Mark R" "rg_one_use (gs ! i) = one"
      by simp_all
    have dok: "ok (w_db v)" using IH tables by simp
    have "sys_ok w" using phase_step [OF g fin [OF mem] call(3) dok] rest [of v w] IH by blast
    moreover have "claim_inv one ent s ps w"
      using claim_inv_call [OF _ i g fin [OF mem] call(3) dok] IH call(1) by blast
    ultimately show ?thesis using IH call(1) by simp
  next
    case (other d x)
    with exec_sys_ok(1) [OF other(2)] calls [OF other(2) _ other(3)] IH claim_inv_other [of one ent s qs v w]
    show ?thesis by auto
  qed
qed

end

section \<open>Files, pastes and buckets\<close>

lemma File_read_fin:
  assumes "File_read (fileService url) e s v = (r, v')"
  shows "same_but_env v v' \<and> (\<forall>x. r = Inr x \<longrightarrow> fg_F x = e)"
proof -
  obtain y v1 where y: "be_Read LocalFS s v = (y, v1)" by (rule prod.exhaust)
  have "fsv_store (fileService url) = LocalFS" by (simp only: fileService_def file_service.simps)
  with assms y have "v' = v1" "\<forall>x. r = Inr x \<longrightarrow> fg_F x = e"
    by (auto simp: File_read_def wrap_def pure_result_def split: sum.splits)
  with lfs.Read_frame [OF y] show ?thesis by simp
qed

lemma bucket_stream_fin:
  assumes "bucket_stream (bucketService url) zr e s v = (r, v')"
  shows "same_but_env v v' \<and> (\<forall>x. r = Inr x \<longrightarrow> fst x = e)"
proof -
  have svc: "bucketService url = bsv.svc url" by simp
  obtain r' zr2 w1 where z: "zip_files (bucketService url) (b_Files e) (zr\<lparr>zr_header := zr_header zr @
         [(''Content-Type'', ''application/zip''), (''Content-Disposition'', ''attachment; filename=\"'' @ s @ ''.zip\"'')]\<rparr>) v =
      ((r', zr2), w1)" by (metis prod.exhaust)
  have "same_but_env v w1" using bsv.zip_files_spec [OF z [unfolded svc]] by simp
  with assms z show ?thesis by (auto simp: bucket_stream_def zip_close_def)
qed

lemma sys_ok_db_step:
  assumes "sys_ok w" and "same_but_db w w'"
  shows "not_files (w_db w') = not_files (w_db w) \<Longrightarrow> files_ok (w_db w') \<Longrightarrow> sys_ok w'"
    and "not_pastes (w_db w') = not_pastes (w_db w) \<Longrightarrow> pastes_ok (w_db w') \<Longrightarrow> sys_ok w'"
    and "not_buckets (w_db w') = not_buckets (w_db w) \<Longrightarrow> buckets_ok (w_db w') \<Longrightarrow> sys_ok w'"
  using assms other_tables [of "w_db w'" "w_db w"] same_but_dbD(3) [OF assms(2)] by (auto simp: sys_ok_def)

lemma file_interleaved:
  assumes bc: "bcrypt_ok bc" and ok: "sys_ok w0"
    and "(interleave bc url (map (file_reading bc url) pws) s)\<^sup>*\<^sup>* (start (map (file_reading bc url) pws) w0) (ps, w)"
  shows "length ps = length pws \<and> sys_ok w \<and> fr.claim_inv f_OneUse fg_F s ps w"
proof -
  let ?gs = "map (file_reading bc url) pws"
  have "length ps = length ?gs \<and> sys_ok w \<and> fr.claim_inv f_OneUse fg_F s ps w"
    by (rule fr.interleaved [OF assms(3) ok])
      ((rule sys_ok_db_step(1) file_evolves [OF _ _ bc], assumption+) |
       force simp: file_reading_def sys_ok_def dest: File_read_fin)+
  then show ?thesis by simp
qed

lemma paste_interleaved:
  assumes bc: "bcrypt_ok bc" and ok: "sys_ok w0"
    and "(interleave bc url (map (paste_reading bc) pws) s)\<^sup>*\<^sup>* (start (map (paste_reading bc) pws) w0) (ps, w)"
  shows "length ps = length pws \<and> sys_ok w \<and> pr.claim_inv p_OneUse pg_P s ps w"
proof -
  let ?gs = "map (paste_reading bc) pws"
  have "length ps = length ?gs \<and> sys_ok w \<and> pr.claim_inv p_OneUse pg_P s ps w"
    by (rule pr.interleaved [OF assms(3) ok])
      ((rule sys_ok_db_step(2) paste_evolves [OF _ _ bc], assumption+) |
       force simp: paste_reading_def sys_ok_def)+
  then show ?thesis by simp
qed

lemma bucket_interleaved:
  assumes bc: "bcrypt_ok bc" and ok: "sys_ok w0"
    and "(interleave bc url (map (bucket_reading bc url zr) pws) s)\<^sup>*\<^sup>* (start (map (bucket_reading bc url zr) pws) w0) (ps, w)"
  shows "length ps = length pws \<and> sys_ok w \<and> br.claim_inv b_OneUse fst s ps w"
proof -
  let ?gs = "map (bucket_reading bc url zr) pws"
  have "length ps = length ?gs \<and> sys_ok w \<and> br.claim_inv b_OneUse fst s ps w"
    by (rule br.interleaved [OF assms(3) ok])
      ((rule sys_ok_db_step(3) bucket_evolves [OF _ _ bc], assumption+) |
       force simp: bucket_reading_def sys_ok_def dest: bucket_stream_fin)+
  then show ?thesis by simp
qed

section \<open>Schedules\<close>

text \<open>A schedule names the call that takes each step; it is an interleaving, and it can be executed.\<close>

fun schedule :: "('e, 'r) reading list \<Rightarrow> string \<Rightarrow> nat list \<Rightarrow> ('e, 'r) phase list \<times> world \<Rightarrow> ('e, 'r) phase list \<times> world" where
  "schedule gs s [] c = c"
| "schedule gs s (i # is) (ps, w) =
     (case next_phase (gs ! i) s (ps ! i) w of (p, w') \<Rightarrow> schedule gs s is (ps[i := p], w'))"

lemma schedule_interleave:
  "list_all (\<lambda>i. i < length gs) is \<Longrightarrow> (interleave bc url gs s)\<^sup>*\<^sup>* c (schedule gs s is c)"
proof (induction gs s "is" c rule: schedule.induct)
  case (2 gs s i "is" ps w)
  obtain p w' where p: "next_phase (gs ! i) s (ps ! i) w = (p, w')" by (rule prod.exhaust)
  with 2 have "(interleave bc url gs s)\<^sup>*\<^sup>* (ps[i := p], w') (schedule gs s is (ps[i := p], w'))" by simp
  moreover have "interleave bc url gs s (ps, w) (ps[i := p], w')" using p 2(2) by (auto intro: interleave.call)
  ultimately show ?case using p by (simp add: converse_rtranclp_into_rtranclp)
qed simp

end
