(* ===== verification/Process.thy ===== *)
theory Process
  imports Server Worker Database Config
begin

text \<open>
  main.go around the handler: the start-up sequence with its exits, and the running process as a
  state machine of the main goroutine, the listener, the requests in flight and the cleanup
  goroutine, from the first request to the last deferred call.
\<close>

section \<open>Starting up\<close>

definition program_of :: "bcrypt \<Rightarrow> (string \<Rightarrow> bool) \<Rightarrow> config \<Rightarrow> program" where
  "program_of bc isPrint cfg =
     \<lparr>pr_bcrypt = bc, pr_IsPrint = isPrint, pr_Auth = cf_Auth cfg, pr_MaxBytes = cf_MaxBytes cfg,
      pr_PublicURL = sc_PublicURL (cf_Server cfg)\<rparr>"

definition listen_addr :: "config \<Rightarrow> string" where
  "listen_addr cfg = Sprintf ''%s:%d'' [S (sc_Host (cf_Server cfg)), D (sc_Port (cf_Server cfg))]"

text \<open>
  The phases of main after start-up: waiting for a signal, inside cleanupWorker.Stop, inside
  srv.Shutdown, or gone with an exit status. The listener goroutine has not called Listen yet,
  accepts connections, or was told to stop.
\<close>

datatype main_phase = Serving | Stopping | Draining | Ended int

datatype listener = Starting | Listening | Closed

record process =
  ps_program :: program
  ps_addr :: string
  ps_db :: DBPair
  ps_pools :: pools
  ps_world :: world
  ps_worker :: worker
  ps_listener :: listener
  ps_requests :: "request list"
  ps_phase :: main_phase

datatype startup = Exits int world pools | Runs process

text \<open>
  The file tree of the model is the storage directory, so os.MkdirAll on it is a call on the
  root; the directory of the database lies outside the model, so its creation just takes a choice.
\<close>

definition mkdir_database :: "world \<Rightarrow> unit result \<times> world" where
  "mkdir_database w = (case next_choice w of (c, w1) \<Rightarrow> (if c \<noteq> 0 then Inl (External ''mkdir'') else Inr (), w1))"

definition started_worker :: worker where
  "started_worker = (case worker_step EStart NewCleanup of Some wk \<Rightarrow> wk | None \<Rightarrow> NewCleanup)"

text \<open>
  The sequence of main, with the configuration as Parse returned it. Every failure ends in
  os.Exit(1), which runs no deferred call: after storage.Open the database stays open.
\<close>

definition main_start :: "bcrypt \<Rightarrow> (string \<Rightarrow> bool) \<Rightarrow> config result \<Rightarrow> world \<Rightarrow> pools \<Rightarrow> startup" where
  "main_start bc isPrint parsed w s =
     (case parsed of
        Inl e \<Rightarrow> Exits 1 w s
      | Inr cfg \<Rightarrow>
          (case os_MkdirAll [] w of
             (Inl e, w1) \<Rightarrow> Exits 1 w1 s
           | (Inr u, w1) \<Rightarrow>
          (case mkdir_database w1 of
             (Inl e, w2) \<Rightarrow> Exits 1 w2 s
           | (Inr u, w2) \<Rightarrow>
          (case Open (cf_DatabasePath cfg) s of
             (Inl e, s1) \<Rightarrow> Exits 1 w2 s1
           | (Inr db, s1) \<Rightarrow>
          (case NewLocal w2 of
             (Inl e, w3) \<Rightarrow> Exits 1 w3 s1
           | (Inr u, w3) \<Rightarrow>
               Runs \<lparr>ps_program = program_of bc isPrint cfg, ps_addr = listen_addr cfg, ps_db = db, ps_pools = s1,
                 ps_world = w3, ps_worker = started_worker, ps_listener = Starting, ps_requests = [],
                 ps_phase = Serving\<rparr>)))))"

section \<open>Running\<close>

text \<open>main returns: the deferred calls, of which db.Close has an effect. os.Exit runs none.\<close>

definition main_return :: "process \<Rightarrow> process" where
  "main_return m = m\<lparr>ps_pools := snd (DBPair_Close (ps_db m) (ps_pools m)), ps_phase := Ended 0\<rparr>"

definition os_Exit :: "int \<Rightarrow> process \<Rightarrow> process" where
  "os_Exit code m = m\<lparr>ps_phase := Ended code\<rparr>"

text \<open>
  What can happen next. A request is answered in one step, at its end; so is a sweep, and one
  that panics does so before its first deletion (the interleaving of the steps inside is the
  subject of theory Interleaving). A panic no one recovers ends the program with status 2.
\<close>

datatype process_event =
    Elapse duration "8 word list" "nat list" | Listen | ListenFails | Accept request | Answer nat | Work event
  | Signal | StopReturns | Drained | Deadline

definition worker_event :: "event \<Rightarrow> process \<Rightarrow> process option" where
  "worker_event e m =
     (if e \<in> set [EStart, EStop, EStopReturns] then None
      else case worker_step e (ps_worker m) of
        None \<Rightarrow> None
      | Some wk \<Rightarrow>
          (let m1 = m\<lparr>ps_worker := wk,
             ps_world := (if e = ESweepEnd then snd (sweep program_cleanup (ps_world m)) else ps_world m)\<rparr>
           in Some (if wk_crashed wk then os_Exit 2 m1 else m1)))"

definition main_event :: "process_event \<Rightarrow> process \<Rightarrow> process option" where
  "main_event ev m =
     (case ev of
        Elapse d bs env \<Rightarrow> Some (m\<lparr>ps_world := snd (exec (pr_bcrypt (ps_program m)) [] (Pass d bs env) (ps_world m))\<rparr>)
      | Listen \<Rightarrow> if ps_listener m = Starting then Some (m\<lparr>ps_listener := Listening\<rparr>) else None
      | ListenFails \<Rightarrow> if ps_listener m \<noteq> Closed then Some (os_Exit 1 m) else None
      | Accept r \<Rightarrow> if ps_listener m = Listening then Some (m\<lparr>ps_requests := ps_requests m @ [r]\<rparr>) else None
      | Answer i \<Rightarrow>
          if i < length (ps_requests m)
          then Some (m\<lparr>ps_world := snd (pbin (ps_program m) (ps_requests m ! i) (ps_world m)),
                 ps_requests := take i (ps_requests m) @ drop (Suc i) (ps_requests m)\<rparr>)
          else None
      | Work e \<Rightarrow> worker_event e m
      | Signal \<Rightarrow>
          if ps_phase m = Serving
          then map_option (\<lambda>wk. m\<lparr>ps_worker := wk, ps_phase := Stopping\<rparr>) (worker_step EStop (ps_worker m)) else None
      | StopReturns \<Rightarrow>
          if ps_phase m = Stopping
          then map_option (\<lambda>wk. m\<lparr>ps_worker := wk, ps_listener := Closed, ps_phase := Draining\<rparr>)
                 (worker_step EStopReturns (ps_worker m)) else None
      | Drained \<Rightarrow> if ps_phase m = Draining \<and> ps_requests m = [] then Some (main_return m) else None
      | Deadline \<Rightarrow> if ps_phase m = Draining \<and> ps_requests m \<noteq> [] then Some (main_return m) else None)"

definition process_step :: "process_event \<Rightarrow> process \<Rightarrow> process option" where
  "process_step ev m = (case ps_phase m of Ended code \<Rightarrow> None | _ \<Rightarrow> main_event ev m)"

inductive process_steps :: "process \<Rightarrow> process_event list \<Rightarrow> process \<Rightarrow> bool" where
  none: "process_steps m [] m"
| snoc: "process_steps m evs m1 \<Longrightarrow> process_step ev m1 = Some m2 \<Longrightarrow> process_steps m (evs @ [ev]) m2"

inductive_simps process_steps_Nil [simp]: "process_steps m [] m'"

section \<open>The invariant of the process\<close>

text \<open>The worlds that calls of the services lead to.\<close>

definition is_run :: "bcrypt \<Rightarrow> world \<Rightarrow> world \<Rightarrow> bool" where
  "is_run bc w0 w \<longleftrightarrow> (\<exists>cs. w = snd (run bc [] cs w0))"

fun phase_fits :: "main_phase \<Rightarrow> stopper \<Rightarrow> listener \<Rightarrow> bool \<Rightarrow> bool" where
  "phase_fits Serving st ln closed \<longleftrightarrow> st = Idle \<and> ln \<noteq> Closed"
| "phase_fits Stopping st ln closed \<longleftrightarrow> st = Blocked \<and> ln \<noteq> Closed"
| "phase_fits Draining st ln closed \<longleftrightarrow> st = Returned \<and> ln = Closed"
| "phase_fits (Ended code) st ln closed \<longleftrightarrow> code = 0 \<and> st = Returned \<and> closed \<or> code = 1 \<or> code = 2"

text \<open>
  Main, worker, listener and database fit together. \<open>P\<close>: the pools that were open before main;
  \<open>w0\<close>: the world main started serving from.
\<close>

definition process_inv :: "nat set \<Rightarrow> world \<Rightarrow> process \<Rightarrow> bool" where
  "process_inv P w0 m \<longleftrightarrow>
     worker_inv (ps_worker m) \<and> wk_loop (ps_worker m) \<noteq> NotStarted \<and>
     {WriteDB (ps_db m), ReadDB (ps_db m)} \<inter> P = {} \<and>
     is_run (pr_bcrypt (ps_program m)) w0 (ps_world m) \<and>
     phase_fits (ps_phase m) (wk_stopper (ps_worker m)) (ps_listener m) (po_open (ps_pools m) = P) \<and>
     (ps_phase m \<noteq> Ended 0 \<longrightarrow> po_open (ps_pools m) = P \<union> {WriteDB (ps_db m), ReadDB (ps_db m)}) \<and>
     (wk_crashed (ps_worker m) \<longrightarrow> ps_phase m = Ended 2)"

lemma DBPair_Close_open [simp]: "po_open (snd (DBPair_Close p s)) = po_open s - {WriteDB p, ReadDB p}"
proof -
  obtain x s1 where 1: "db_Close (WriteDB p) s = (x, s1)" by force
  obtain y s2 where 2: "db_Close (ReadDB p) s1 = (y, s2)" by force
  have "po_open s2 = po_open s - {WriteDB p} - {ReadDB p}"
    using db_Close_frame(1) [of "WriteDB p" s] db_Close_frame(1) [of "ReadDB p" s1] 1 2 by simp
  with 1 2 show ?thesis by (auto simp: DBPair_Close_def split: sum.split)
qed

lemma worker_event_keeps:
  assumes "worker_step e w = Some w'" and "e \<notin> {EStart, EStop, EStopReturns}"
  shows "wk_stopper w' = wk_stopper w" "wk_loop w' \<noteq> NotStarted" "\<not> wk_crashed w"
  using assms by (cases e; auto simp: worker_step_Some sweep_panic_def runLoop_return_def close_done_def Let_def
      split: if_splits)+

lemma worker_main_keeps:
  assumes "worker_step e w = Some w'" and "e \<in> {EStop, EStopReturns}" and "worker_inv w"
  shows "wk_loop w' = wk_loop w" "wk_stopper w' = (if e = EStop then Blocked else Returned)" "\<not> wk_crashed w'"
  using assms by (auto simp: worker_step_Some close_stop_def worker_inv_def)

lemma started_worker_inv: "quiet_inv started_worker" "wk_loop started_worker = Waiting False" "wk_stopper started_worker = Idle"
  by (simp_all add: started_worker_def worker_step.simps NewCleanup_def quiet_inv_def worker_inv_def)

lemma run_snoc: "snd (exec bc url c (snd (run bc url cs w))) = snd (run bc url (cs @ [c]) w)"
  by (simp add: run_append split: prod.split)

lemma exec_Sweep_world: "snd (exec bc url Sweep w) = snd (sweep program_cleanup w)"
  by (simp split: prod.split)

text \<open>A step of a process that has not ended, and what an event of the worker is in it.\<close>

lemma process_stepD:
  assumes "process_step ev m = Some m'"
  shows "\<And>code. ps_phase m \<noteq> Ended code" "main_event ev m = Some m'"
  using assms by (auto simp: process_step_def split: main_phase.splits)

lemma Work_step:
  assumes "main_event (Work e) m = Some m'"
  obtains wk where "e \<notin> {EStart, EStop, EStopReturns}" "worker_step e (ps_worker m) = Some wk"
    "m' = (let m1 = m\<lparr>ps_worker := wk,
             ps_world := (if e = ESweepEnd then snd (sweep program_cleanup (ps_world m)) else ps_world m)\<rparr>
           in if wk_crashed wk then os_Exit 2 m1 else m1)"
  using assms by (auto simp: main_event_def worker_event_def Let_def split: if_splits option.splits)

lemma is_run_steps:
  assumes "is_run bc w0 w"
  shows "is_run bc w0 (snd (exec bc [] c w))" "is_run bc w0 (snd (sweep program_cleanup w))" "does Q bc n w w' \<Longrightarrow> is_run bc w0 w'"
  using assms run_snoc [of bc "[]" c _ w0] run_snoc [of bc "[]" Sweep _ w0] run_append [of bc "[]" _ _ w0]
  unfolding is_run_def does_def exec_Sweep_world by metis+

lemma process_inv_step:
  assumes "process_step ev m = Some m'" and "process_inv P w0 m"
  shows "process_inv P w0 m'"
proof -
  note live = process_stepD(1) [OF assms(1)] and ev = process_stepD(2) [OF assms(1)]
  note inv = assms(2) [unfolded process_inv_def]
  have alive: "\<not> wk_crashed (ps_worker m)" and inv_w: "worker_inv (ps_worker m)" using inv live by auto
  show ?thesis
  proof (cases ev)
    case (Work e)
    from Work_step [OF ev [unfolded Work]] obtain wk where e: "e \<notin> {EStart, EStop, EStopReturns}" "worker_step e (ps_worker m) = Some wk"
      and m': "m' = (let m1 = m\<lparr>ps_worker := wk,
             ps_world := (if e = ESweepEnd then snd (sweep program_cleanup (ps_world m)) else ps_world m)\<rparr>
           in if wk_crashed wk then os_Exit 2 m1 else m1)" .
    from e(1) worker_event_keeps [OF e(2)] worker_inv_step [OF e(2) inv_w] is_run_steps(2) inv live show ?thesis
      unfolding m' process_inv_def by (auto simp: Let_def os_Exit_def)
  next
    case (Elapse d bs env)
    with ev have "m' = m\<lparr>ps_world := snd (exec (pr_bcrypt (ps_program m)) [] (Pass d bs env) (ps_world m))\<rparr>"
      by (simp add: main_event_def del: exec.simps)
    with inv is_run_steps(1) show ?thesis by (simp add: process_inv_def del: exec.simps)
  next
    case (Answer i)
    with ev have "m' = m\<lparr>ps_world := snd (pbin (ps_program m) (ps_requests m ! i) (ps_world m)),
        ps_requests := take i (ps_requests m) @ drop (Suc i) (ps_requests m)\<rparr>"
      by (simp add: main_event_def split: if_splits)
    with inv is_run_steps(3) [OF _ does_pbin] show ?thesis by (simp add: process_inv_def)
  next
    case Signal
    with ev obtain wk where ph: "ps_phase m = Serving" and wk: "worker_step EStop (ps_worker m) = Some wk"
      and m': "m' = m\<lparr>ps_worker := wk, ps_phase := Stopping\<rparr>"
      by (auto simp: main_event_def split: if_splits)
    from worker_main_keeps [OF wk _ inv_w] worker_inv_step [OF wk inv_w] inv ph show ?thesis
      unfolding m' process_inv_def by simp
  next
    case StopReturns
    with ev obtain wk where ph: "ps_phase m = Stopping" and wk: "worker_step EStopReturns (ps_worker m) = Some wk"
      and m': "m' = m\<lparr>ps_worker := wk, ps_listener := Closed, ps_phase := Draining\<rparr>"
      by (auto simp: main_event_def split: if_splits)
    from worker_main_keeps [OF wk _ inv_w] worker_inv_step [OF wk inv_w] inv ph show ?thesis
      unfolding m' process_inv_def by simp
  next
    case Listen
    with ev inv live show ?thesis by (cases "ps_phase m") (auto simp: main_event_def process_inv_def split: if_splits)
  next
    case ListenFails
    with ev have "m' = os_Exit 1 m" by (simp add: main_event_def split: if_splits)
    with inv live alive show ?thesis by (simp add: process_inv_def os_Exit_def)
  next
    case (Accept r)
    with ev inv show ?thesis by (auto simp: main_event_def process_inv_def split: if_splits)
  next
    case Drained
    with ev have "m' = main_return m" "ps_phase m = Draining" by (simp_all add: main_event_def split: if_splits)
    with inv alive show ?thesis by (auto simp: process_inv_def main_return_def)
  next
    case Deadline
    with ev have "m' = main_return m" "ps_phase m = Draining" by (simp_all add: main_event_def split: if_splits)
    with inv alive show ?thesis by (auto simp: process_inv_def main_return_def)
  qed
qed

section \<open>What happened on the way\<close>

text \<open>Conditions on the phase tell which events have happened.\<close>

definition history :: "process_event list \<Rightarrow> process \<Rightarrow> bool" where
  "history evs m \<longleftrightarrow>
     (ps_phase m \<in> {Stopping, Draining, Ended 0} \<longrightarrow> Signal \<in> set evs) \<and>
     (ps_phase m = Serving \<longrightarrow> Signal \<notin> set evs) \<and>
     (Work ESweepPanic \<notin> set evs \<longrightarrow> quiet_inv (ps_worker m)) \<and>
     (ps_phase m = Ended 1 \<longrightarrow> ListenFails \<in> set evs) \<and>
     (ps_phase m = Ended 2 \<longrightarrow> Work ESweepPanic \<in> set evs) \<and>
     (ps_phase m = Ended 0 \<longrightarrow> Deadline \<notin> set evs \<longrightarrow> ps_requests m = [])"

lemma history_step:
  assumes "process_step ev m = Some m'" and "history evs m"
  shows "history (evs @ [ev]) m'"
proof -
  note live = process_stepD(1) [OF assms(1)] and ev = process_stepD(2) [OF assms(1)]
  show ?thesis
  proof (cases ev)
    case (Work e)
    from Work_step [OF ev [unfolded Work]] obtain wk where e: "e \<notin> {EStart, EStop, EStopReturns}" "worker_step e (ps_worker m) = Some wk"
      and m': "m' = (let m1 = m\<lparr>ps_worker := wk,
             ps_world := (if e = ESweepEnd then snd (sweep program_cleanup (ps_world m)) else ps_world m)\<rparr>
           in if wk_crashed wk then os_Exit 2 m1 else m1)" .
    have q: "quiet_inv wk" if "Work ESweepPanic \<notin> set (evs @ [ev])"
      using that quiet_step [OF e(2)] assms(2) Work by (auto simp: history_def)
    then have "wk_crashed wk \<Longrightarrow> Work ESweepPanic \<in> set (evs @ [ev])" by (auto simp: quiet_inv_def)
    with q assms(2) live Work show ?thesis unfolding m' by (auto simp: Let_def history_def os_Exit_def)
  next
    case (Elapse d bs env)
    with ev have "m' = m\<lparr>ps_world := snd (exec (pr_bcrypt (ps_program m)) [] (Pass d bs env) (ps_world m))\<rparr>"
      by (simp add: main_event_def del: exec.simps)
    with assms(2) live Elapse show ?thesis by (simp add: history_def del: exec.simps)
  next
    case Signal
    with ev quiet_step [of EStop "ps_worker m"] assms(2) show ?thesis
      by (auto simp: main_event_def history_def split: if_splits)
  next
    case StopReturns
    with ev quiet_step [of EStopReturns "ps_worker m"] assms(2) show ?thesis
      by (auto simp: main_event_def history_def split: if_splits)
  qed (use ev assms(2) live in \<open>auto simp: main_event_def history_def main_return_def os_Exit_def split: if_splits\<close>)
qed

lemma process_steps_inv:
  assumes "process_steps m0 evs m" and "process_inv P w0 m0" and "history [] m0"
  shows "process_inv P w0 m \<and> history evs m"
  using assms
proof (induction rule: process_steps.induct)
  case (snoc m evs m1 ev m2)
  then show ?case using process_inv_step [OF snoc.hyps(2)] history_step [OF snoc.hyps(2)] by blast
qed simp

section \<open>What start-up leaves\<close>

lemma os_MkdirAll_root:
  assumes "os_MkdirAll [] w = (x, w1)"
  shows "w_db w1 = w_db w \<and> w_now w1 = w_now w \<and> fs_files (w_fs w1) = fs_files (w_fs w) \<and> fs_dirs (w_fs w1) = (case x of Inl e \<Rightarrow> {} | Inr u \<Rightarrow> {[]}) \<union> fs_dirs (w_fs w)"
  using assms by (auto simp: os_MkdirAll_def next_choice_eq split: if_splits)

definition same_data :: "world \<Rightarrow> world \<Rightarrow> bool" where
  "same_data w w' \<longleftrightarrow> w_db w' = w_db w \<and> w_now w' = w_now w \<and> fs_files (w_fs w') = fs_files (w_fs w) \<and>
     fs_dirs (w_fs w') \<in> {fs_dirs (w_fs w), insert [] (fs_dirs (w_fs w))}"

lemma same_data_trans: "same_data u v \<Longrightarrow> same_data v w \<Longrightarrow> same_data u w"
  by (auto simp: same_data_def)

lemma same_data_steps:
  "os_MkdirAll [] w = (x, w1) \<Longrightarrow> same_data w w1" "NewLocal w = (y, w1) \<Longrightarrow> same_data w w1"
  "mkdir_database w = (x, w1) \<Longrightarrow> same_data w w1"
  using os_MkdirAll_root [of w]
  by (auto simp: NewLocal_def mkdir_database_def next_choice_eq same_data_def split: prod.splits sum.splits if_splits)

lemma main_start_cases:
  assumes ok: "pools_ok s"
  shows "case main_start bc isPrint parsed w s of
      Exits code w' s' \<Rightarrow> code = 1 \<and> same_data w w' \<and>
        (po_open s' = po_open s \<or> (\<exists>v e. NewLocal v = (Inl e, w') \<and> (\<exists>p q. p \<noteq> q \<and> {p, q} \<inter> po_open s = {} \<and> po_open s' = po_open s \<union> {p, q})))
    | Runs m \<Rightarrow> (\<exists>cfg. parsed = Inr cfg \<and> ps_program m = program_of bc isPrint cfg) \<and> same_data w (ps_world m) \<and>
        [] \<in> fs_dirs (w_fs (ps_world m)) \<and> po_limit (ps_pools m) (WriteDB (ps_db m)) = Some 1 \<and>
        WriteDB (ps_db m) \<noteq> ReadDB (ps_db m) \<and>
        ps_phase m = Serving \<and> process_inv (po_open s) (ps_world m) m \<and> history [] m"
proof (cases parsed)
  case Inl
  then show ?thesis by (simp add: main_start_def same_data_def)
next
  case (Inr cfg)
  obtain x1 w1 where 1: "os_MkdirAll [] w = (x1, w1)" by force
  obtain x2 w2 where 2: "mkdir_database w1 = (x2, w2)" by force
  obtain x3 s1 where 3: "Open (cf_DatabasePath cfg) s = (x3, s1)" by force
  obtain x4 w3 where 4: "NewLocal w2 = (x4, w3)" by force
  note data = same_data_steps(1) [OF 1] same_data_steps(3) [OF 2] same_data_steps(2) [OF 4]
  from data have d: "same_data w w1" "same_data w w2" "same_data w w3" by (blast intro: same_data_trans)+
  have root: "x4 = Inr u \<Longrightarrow> [] \<in> fs_dirs (w_fs w3)" for u
    using 4 os_MkdirAll_root [of w2] by (auto simp: NewLocal_def split: prod.splits sum.splits)
  have run: "is_run b v v" for b v unfolding is_run_def by (intro exI [of _ "[]"]) simp
  note o = Open_cases [OF ok 3]
  note start = main_start_def [of bc isPrint parsed w s, unfolded Inr sum.case 1 prod.case]
  show ?thesis
  proof (cases x1)
    case Inl
    with d show ?thesis by (simp add: start Inr)
  next
    case x1: (Inr u1)
    show ?thesis
    proof (cases x2)
      case Inl
      with d x1 2 show ?thesis by (simp add: start Inr)
    next
      case x2: (Inr u2)
      show ?thesis
      proof (cases x3)
        case Inl
        with d x1 x2 2 3 o show ?thesis by (simp add: start Inr)
      next
        case x3: (Inr db)
        show ?thesis
        proof (cases x4)
          case (Inl e)
          with x1 x2 x3 2 3 4 have "main_start bc isPrint parsed w s = Exits 1 w3 s1" by (simp add: start Inr)
          moreover have "\<exists>p q. p \<noteq> q \<and> {p, q} \<inter> po_open s = {} \<and> po_open s1 = po_open s \<union> {p, q}"
            using o x3 by (intro exI [of _ "WriteDB db"] exI [of _ "ReadDB db"]) simp
          moreover have "\<exists>v e. NewLocal v = (Inl e, w3)" using 4 Inl by blast
          ultimately show ?thesis using d unfolding Inr by simp
        next
          case x4: (Inr u4)
          with x1 x2 x3 2 3 4 have "main_start bc isPrint parsed w s = Runs \<lparr>ps_program = program_of bc isPrint cfg, ps_addr = listen_addr cfg,
              ps_db = db, ps_pools = s1, ps_world = w3, ps_worker = started_worker, ps_listener = Starting, ps_requests = [], ps_phase = Serving\<rparr>"
            by (simp add: start Inr)
          with d o x3 root [OF x4] started_worker_inv run show ?thesis unfolding Inr
            by (auto simp: process_inv_def history_def quiet_inv_def)
        qed
      qed
    qed
  qed
qed

section \<open>Shutting down\<close>

text \<open>
  What is left to do. The events of the program itself, other than a new request, a new tick or
  a panic, make it smaller.
\<close>

fun loop_load :: "loop \<Rightarrow> nat" where
  "loop_load (Waiting b) = 1" | "loop_load (Sweeping b) = 2" | "loop_load l = 0"

fun phase_load :: "main_phase \<Rightarrow> nat" where
  "phase_load Serving = 3" | "phase_load Stopping = 2" | "phase_load Draining = 1" | "phase_load (Ended code) = 0"

definition load :: "process \<Rightarrow> nat" where
  "load m = length (ps_requests m) + (if ps_listener m = Starting then 1 else 0) + loop_load (wk_loop (ps_worker m)) +
     phase_load (ps_phase m)"

fun finishing :: "process_event \<Rightarrow> bool" where
  "finishing (Elapse d bs env) = False"
| "finishing (Accept r) = False"
| "finishing (Work e) = (e \<noteq> ETick \<and> e \<noteq> ESweepPanic)"
| "finishing ev = True"

lemma load_decreases:
  assumes "process_step ev m = Some m'" and "finishing ev" and q: "quiet_inv (ps_worker m)"
  shows "load m' < load m"
proof -
  note live = process_stepD(1) [OF assms(1)] and ev = process_stepD(2) [OF assms(1)]
  have pos: "0 < phase_load (ps_phase m)" by (cases "ps_phase m") (simp_all add: live)
  show ?thesis
  proof (cases ev)
    case (Work e)
    from Work_step [OF ev [unfolded Work]] obtain wk where e: "e \<notin> {EStart, EStop, EStopReturns}" "worker_step e (ps_worker m) = Some wk"
      and m': "m' = (let m1 = m\<lparr>ps_worker := wk,
             ps_world := (if e = ESweepEnd then snd (sweep program_cleanup (ps_world m)) else ps_world m)\<rparr>
           in if wk_crashed wk then os_Exit 2 m1 else m1)" .
    have "e = ESweepEnd \<or> e = ERestart \<or> e = EStopSeen" using e(1) assms(2) Work by (cases e) auto
    moreover have "e \<noteq> ERestart" using e(2) q by (auto simp: worker_step_Some quiet_inv_def)
    ultimately have "loop_load (wk_loop wk) < loop_load (wk_loop (ps_worker m))" "\<not> wk_crashed wk"
      using e(2) q by (auto simp: worker_step_Some quiet_inv_def runLoop_return_def close_done_def worker_inv_def)
    then show ?thesis unfolding m' by (simp add: load_def Let_def)
  next
    case Signal
    with ev obtain wk where "ps_phase m = Serving" "worker_step EStop (ps_worker m) = Some wk"
      "m' = m\<lparr>ps_worker := wk, ps_phase := Stopping\<rparr>" by (auto simp: main_event_def split: if_splits)
    with worker_main_keeps(1) [of EStop "ps_worker m" wk] q show ?thesis by (simp add: load_def quiet_inv_def)
  next
    case StopReturns
    with ev obtain wk where "ps_phase m = Stopping" "worker_step EStopReturns (ps_worker m) = Some wk"
      "m' = m\<lparr>ps_worker := wk, ps_listener := Closed, ps_phase := Draining\<rparr>" by (auto simp: main_event_def split: if_splits)
    with worker_main_keeps(1) [of EStopReturns "ps_worker m" wk] q show ?thesis by (simp add: load_def quiet_inv_def)
  qed (use ev assms(2) pos in \<open>auto simp: main_event_def load_def main_return_def os_Exit_def split: if_splits\<close>)
qed

lemma finishing_enabled:
  assumes inv: "process_inv P w0 m" and q: "quiet_inv (ps_worker m)"
    and "ps_phase m \<noteq> Serving" and live: "\<And>code. ps_phase m \<noteq> Ended code"
  shows "\<exists>ev m'. finishing ev \<and> process_step ev m = Some m'"
proof (cases "ps_phase m")
  case Stopping
  with inv have st: "wk_stopper (ps_worker m) = Blocked" "wk_stop (ps_worker m)" "wk_loop (ps_worker m) \<noteq> NotStarted"
    by (auto simp: process_inv_def worker_inv_def)
  consider "wk_loop (ps_worker m) = Waiting False" | "wk_loop (ps_worker m) = Sweeping False" | "wk_loop (ps_worker m) = Exited"
    using q st(3) by (auto simp: quiet_inv_def)
  then show ?thesis
  proof cases
    case 1
    with st q Stopping show ?thesis
      by (intro exI [of _ "Work EStopSeen"])
        (simp add: process_step_def main_event_def worker_event_def worker_step.simps quiet_inv_def Let_def)
  next
    case 2
    with st q Stopping show ?thesis
      by (intro exI [of _ "Work ESweepEnd"])
        (simp add: process_step_def main_event_def worker_event_def worker_step.simps quiet_inv_def Let_def)
  next
    case 3
    with q have "wk_done (ps_worker m)" by (simp add: quiet_inv_def worker_inv_def)
    with st q Stopping show ?thesis
      by (intro exI [of _ StopReturns]) (simp add: process_step_def main_event_def worker_step.simps quiet_inv_def)
  qed
next
  case Draining
  show ?thesis
  proof (cases "ps_requests m = []")
    case True
    with Draining show ?thesis by (intro exI [of _ Drained]) (simp add: process_step_def main_event_def)
  next
    case False
    with Draining show ?thesis by (intro exI [of _ Deadline]) (simp add: process_step_def main_event_def)
  qed
qed (use assms in simp_all)

end
