(* ===== verification/Vault.thy ===== *)
theory Vault
  imports System
begin

text \<open>
  What the program promises, without how: an abstract state (three shelves of entities, each
  entity with a flag whether it has been consumed; the bytes by key; the clock) and, per call, a
  relation between the state before, the answer and the state after. There are no tables, no
  directory tree, no random source and no environment in it: what these decide is left open
  (which free slug is taken, whether a call fails for a reason of a lower layer). The runs of
  the program are runs of this specification.
\<close>

section \<open>The abstract state\<close>

type_synonym 'e shelf = "string \<Rightarrow> ('e \<times> bool) option"

record vault =
  va_now :: instant
  va_files :: "file_ent shelf"
  va_pastes :: "paste_ent shelf"
  va_buckets :: "bucket_ent shelf"
  va_bytes :: "string \<Rightarrow> bytes option"

definition shelf_of :: "(string \<Rightarrow> 'e option) \<Rightarrow> (string \<Rightarrow> bool) \<Rightarrow> 'e shelf" where
  "shelf_of view used = (\<lambda>s. map_option (\<lambda>e. (e, used s)) (view s))"

definition vault_of :: "world \<Rightarrow> vault" where
  "vault_of w =
     \<lparr>va_now = w_now w,
      va_files = shelf_of (file_view (w_db w)) (file_used (w_db w)),
      va_pastes = shelf_of (paste_view (w_db w)) (paste_used (w_db w)),
      va_buckets = shelf_of (bucket_view (w_db w)) (bucket_used (w_db w)),
      va_bytes = fs_content (w_fs w)\<rparr>"

text \<open>The changes a shelf undergoes, and the entities on it that have expired.\<close>

definition consume :: "string \<Rightarrow> 'e shelf \<Rightarrow> 'e shelf" where
  "consume s S = S(s := map_option (\<lambda>(e, u). (e, True)) (S s))"

definition fresh_slug :: "'e shelf \<Rightarrow> string \<Rightarrow> bool" where
  "fresh_slug S s \<longleftrightarrow> S s = None \<and> length s = 12 \<and> set s \<subseteq> set charset"

definition overdue :: "('e \<Rightarrow> instant option) \<Rightarrow> 'e shelf \<Rightarrow> instant \<Rightarrow> string set" where
  "overdue expires S now = expired_keys expires (map_option fst \<circ> S) now"

section \<open>The promises, call by call\<close>

text \<open>Why a reader is refused: nothing there, the decision on what is there, or a lower layer.\<close>

definition refused :: "sentinel \<Rightarrow> ('e \<Rightarrow> bool \<Rightarrow> unit result) \<Rightarrow> 'e shelf \<Rightarrow> string \<Rightarrow> error \<Rightarrow> bool" where
  "refused missing access S s er \<longleftrightarrow>
     er = Sentinel missing \<and> S s = None \<or> (\<exists>e u. S s = Some (e, u) \<and> access e u = Inl er) \<or> low_error er"

text \<open>Why a deletion is refused.\<close>

definition undeletable :: "sentinel \<Rightarrow> sentinel \<Rightarrow> ('e \<Rightarrow> string) \<Rightarrow> 'e shelf \<Rightarrow> string \<Rightarrow> string \<Rightarrow> error \<Rightarrow> bool" where
  "undeletable missing bad secret_of S s secret er \<longleftrightarrow>
     er = Sentinel missing \<and> S s = None \<or>
     er = Sentinel bad \<and> (\<exists>e u. S s = Some (e, u) \<and> secret_of e \<noteq> secret) \<or> low_error er"

text \<open>A hash that stands for the password; no hash for no password.\<close>

definition hashes :: "bcrypt \<Rightarrow> string \<Rightarrow> string \<Rightarrow> bool" where
  "hashes bc h pw \<longleftrightarrow> check_password bc h pw \<and> (h = [] \<longleftrightarrow> pw = [])"

definition file_upload_step :: "bcrypt \<Rightarrow> string \<Rightarrow> vault \<Rightarrow> file_UploadRequest \<Rightarrow> file_UploadResult result \<Rightarrow> vault \<Rightarrow> bool" where
  "file_upload_step bc url v req r v' \<longleftrightarrow> (case r of
     Inr res \<Rightarrow> \<exists>slug secret h d.
       fresh_slug (va_files v) slug \<and> length secret = 24 \<and> hashes bc h (fu_Password req) \<and>
       map_of file_validExpiries (fu_Expiry req) = Some d \<and> \<not> rd_fails (fu_Content req) \<and>
       res = File_result (fileService url) req slug secret (expiry_instant d (va_now v)) \<and>
       v' = v\<lparr>va_files := (va_files v)(slug \<mapsto> (uploaded_file req slug secret h (expiry_instant d (va_now v)), False)),
         va_bytes := (va_bytes v)(slug \<mapsto> rd_data (fu_Content req))\<rparr>
   | Inl er \<Rightarrow>
       (low_error er \<or> map_of file_validExpiries (fu_Expiry req) = None \<and>
          er = Wrap ''file service upload: construct entity'' (Sentinel File_ErrInvalidExpiry)) \<and>
       (\<exists>k B. upload_residue (va_bytes v) k (rd_data (fu_Content req)) B \<and> v' = v\<lparr>va_bytes := B\<rparr>))"

definition file_get_step :: "bcrypt \<Rightarrow> vault \<Rightarrow> string \<Rightarrow> string \<Rightarrow> file_GetResult result \<Rightarrow> vault \<Rightarrow> bool" where
  "file_get_step bc v s pw r v' \<longleftrightarrow> (case r of
     Inr g \<Rightarrow> \<exists>u. va_files v s = Some (fg_F g, u) \<and> file_access bc (va_now v) pw u (fg_F g) = Inr () \<and>
       va_bytes v s = Some (fg_Content g) \<and> fg_ExpiresAt g = f_ExpiresAt (fg_F g) \<and> fg_IsImage g = IsImage (f_MimeType (fg_F g)) \<and>
       v' = (if f_OneUse (fg_F g) then v\<lparr>va_files := consume s (va_files v)\<rparr> else v)
   | Inl er \<Rightarrow> refused File_ErrNotFound (\<lambda>f u. file_access bc (va_now v) pw u f) (va_files v) s er \<and>
       (v' = v \<or> v' = v\<lparr>va_files := consume s (va_files v)\<rparr>))"

definition file_delete_step :: "vault \<Rightarrow> string \<Rightarrow> string \<Rightarrow> unit result \<Rightarrow> vault \<Rightarrow> bool" where
  "file_delete_step v s secret r v' \<longleftrightarrow> (case r of
     Inr u \<Rightarrow> (\<exists>f b. va_files v s = Some (f, b) \<and> f_DeleteSecret f = secret) \<and>
       v' = v\<lparr>va_files := (va_files v)(s := None), va_bytes := (va_bytes v)(s := None)\<rparr>
   | Inl er \<Rightarrow> undeletable File_ErrNotFound File_ErrBadDeleteSecret f_DeleteSecret (va_files v) s secret er \<and>
       (v' = v \<or> (\<exists>f b. va_files v s = Some (f, b) \<and> f_DeleteSecret f = secret) \<and>
          v' = v\<lparr>va_bytes := (va_bytes v)(s := None)\<rparr>))"

definition paste_create_step :: "bcrypt \<Rightarrow> string \<Rightarrow> vault \<Rightarrow> paste_CreateRequest \<Rightarrow> paste_CreateResult result \<Rightarrow> vault \<Rightarrow> bool" where
  "paste_create_step bc url v req r v' \<longleftrightarrow> (case r of
     Inr res \<Rightarrow> \<exists>slug secret h d.
       fresh_slug (va_pastes v) slug \<and> length secret = 24 \<and> hashes bc h (pc_Password req) \<and> pc_Content req \<noteq> [] \<and>
       map_of paste_validExpiries (pc_Expiry req) = Some d \<and>
       res = Paste_result (pasteService url) slug secret (expiry_instant d (va_now v)) \<and>
       v' = v\<lparr>va_pastes := (va_pastes v)(slug \<mapsto> (created_paste req slug secret h (expiry_instant d (va_now v)), False))\<rparr>
   | Inl er \<Rightarrow> v' = v \<and>
       (low_error er \<or> \<not> paste_request_ok req \<and> er = Wrap ''paste service create: construct entity''
          (Sentinel (if pc_Content req = [] then Paste_ErrEmptyContent else Paste_ErrInvalidExpiry))))"

definition paste_get_step :: "bcrypt \<Rightarrow> vault \<Rightarrow> string \<Rightarrow> string \<Rightarrow> paste_GetResult result \<Rightarrow> vault \<Rightarrow> bool" where
  "paste_get_step bc v s pw r v' \<longleftrightarrow> (case r of
     Inr g \<Rightarrow> \<exists>u. va_pastes v s = Some (pg_P g, u) \<and> paste_access bc (va_now v) pw u (pg_P g) = Inr () \<and>
       pg_ExpiresAt g = p_ExpiresAt (pg_P g) \<and>
       v' = (if p_OneUse (pg_P g) then v\<lparr>va_pastes := consume s (va_pastes v)\<rparr> else v)
   | Inl er \<Rightarrow> refused Paste_ErrNotFound (\<lambda>p u. paste_access bc (va_now v) pw u p) (va_pastes v) s er \<and>
       (v' = v \<or> v' = v\<lparr>va_pastes := consume s (va_pastes v)\<rparr>))"

definition paste_delete_step :: "vault \<Rightarrow> string \<Rightarrow> string \<Rightarrow> unit result \<Rightarrow> vault \<Rightarrow> bool" where
  "paste_delete_step v s secret r v' \<longleftrightarrow> (case r of
     Inr u \<Rightarrow> (\<exists>p b. va_pastes v s = Some (p, b) \<and> p_DeleteSecret p = secret) \<and>
       v' = v\<lparr>va_pastes := (va_pastes v)(s := None)\<rparr>
   | Inl er \<Rightarrow> undeletable Paste_ErrNotFound Paste_ErrBadDeleteSecret p_DeleteSecret (va_pastes v) s secret er \<and> v' = v)"

text \<open>
  A bucket is created with all its files or, after a failure, with some of the first of them;
  bytes appear under the keys of the files only, and may be left there or removed by a failure.
\<close>

definition bucket_create_step :: "bcrypt \<Rightarrow> string \<Rightarrow> vault \<Rightarrow> bucket_CreateRequest \<Rightarrow> bucket_CreateResult result \<Rightarrow> vault \<Rightarrow> bool" where
  "bucket_create_step bc url v req r v' \<longleftrightarrow>
     (case r of
        Inr res \<Rightarrow> \<exists>slug secret h d stored ids.
          fresh_slug (va_buckets v) slug \<and> length secret = 24 \<and> hashes bc h (bq_Password req) \<and>
          map_of bucket_validExpiries (bq_Expiry req) = Some d \<and>
          list_all2 (stores slug) stored (bq_Files req) \<and> length ids = length stored \<and>
          res = Bucket_result (bucketService url) slug secret (expiry_instant d (va_now v)) stored (map file_info stored) \<and>
          v' = v\<lparr>va_buckets := (va_buckets v)(slug \<mapsto>
              (with_files (created_bucket req slug secret h (expiry_instant d (va_now v))) ids stored, False)),
            va_bytes := va_bytes v ++ stored_bytes stored (bq_Files req)\<rparr>
      | Inl er \<Rightarrow>
          (\<exists>slug secret h d stored ids n. low_error er \<and>
             fresh_slug (va_buckets v) slug \<and> length secret = 24 \<and> hashes bc h (bq_Password req) \<and>
             map_of bucket_validExpiries (bq_Expiry req) = Some d \<and>
             list_all2 (stores slug) stored (bq_Files req) \<and> n < length stored \<and> length ids = n \<and>
             v' = v\<lparr>va_buckets := (va_buckets v)(slug \<mapsto>
                 (with_files (created_bucket req slug secret h (expiry_instant d (va_now v))) ids (take n stored), False)),
               va_bytes := va_bytes v ++ stored_bytes stored (bq_Files req)\<rparr>) \<or>
          (low_error er \<or> map_of bucket_validExpiries (bq_Expiry req) = None \<and>
             er = Wrap ''bucket service create: construct entity'' (Sentinel Bucket_ErrInvalidExpiry)) \<and>
          (\<exists>B. (\<forall>k. B k = va_bytes v k \<or> B k = None \<or> B k \<in> Some ` rd_data ` fi_Content ` set (bq_Files req)) \<and>
             v' = v\<lparr>va_bytes := B\<rparr>))"

definition bucket_refused :: "bcrypt \<Rightarrow> vault \<Rightarrow> string \<Rightarrow> string \<Rightarrow> error \<Rightarrow> bool" where
  "bucket_refused bc v s pw er \<longleftrightarrow>
     refused Bucket_ErrNotFound (\<lambda>b u. bucket_access bc (va_now v) pw b) (va_buckets v) s er"

definition bucket_meta_step :: "bcrypt \<Rightarrow> vault \<Rightarrow> string \<Rightarrow> string \<Rightarrow> bucket_GetResult result \<Rightarrow> vault \<Rightarrow> bool" where
  "bucket_meta_step bc v s pw r v' \<longleftrightarrow> v' = v \<and> (case r of
     Inr g \<Rightarrow> (\<exists>u. va_buckets v s = Some (bg_B g, u)) \<and> bucket_access bc (va_now v) pw (bg_B g) = Inr () \<and>
       bg_ExpiresAt g = b_ExpiresAt (bg_B g)
   | Inl er \<Rightarrow> bucket_refused bc v s pw er)"

definition bucket_file_step :: "bcrypt \<Rightarrow> vault \<Rightarrow> string \<Rightarrow> string \<Rightarrow> string \<Rightarrow> (bucket_file_ent \<times> bytes) result \<Rightarrow> vault \<Rightarrow> bool" where
  "bucket_file_step bc v s key pw r v' \<longleftrightarrow> v' = v \<and> (case r of
     Inr (bf, data) \<Rightarrow> \<exists>b u. va_buckets v s = Some (b, u) \<and> bucket_access bc (va_now v) pw b = Inr () \<and>
       bf \<in> set (b_Files b) \<and> bf_StorageKey bf = key \<and> va_bytes v key = Some data
   | Inl er \<Rightarrow> bucket_refused bc v s pw er \<or>
       er = Sentinel Bucket_ErrNotFound \<and> (\<exists>b u. va_buckets v s = Some (b, u) \<and> key \<notin> bf_StorageKey ` set (b_Files b)))"

definition bucket_zip_step :: "bcrypt \<Rightarrow> vault \<Rightarrow> string \<Rightarrow> string \<Rightarrow> unit result \<Rightarrow> zip_response \<Rightarrow> vault \<Rightarrow> bool" where
  "bucket_zip_step bc v s pw r z v' \<longleftrightarrow>
     (v' = v \<or> (\<exists>b u. va_buckets v s = Some (b, u) \<and> b_OneUse b) \<and> v' = v\<lparr>va_buckets := consume s (va_buckets v)\<rparr>) \<and>
     (case r of
        Inr u \<Rightarrow> \<exists>b u ds. va_buckets v s = Some (b, u) \<and> bucket_access bc (va_now v) pw b = Inr () \<and>
          (b_OneUse b \<longrightarrow> \<not> u \<and> v' = v\<lparr>va_buckets := consume s (va_buckets v)\<rparr>) \<and>
          list_all2 (\<lambda>bf d. va_bytes v (bf_StorageKey bf) = Some d) (b_Files b) ds \<and>
          zr_entries z = zip (map bf_Filename (b_Files b)) ds
      | Inl er \<Rightarrow> z = empty_response \<and>
          (bucket_refused bc v s pw er \<or>
           er = Sentinel Bucket_ErrAlreadyConsumed \<and> (\<exists>b. va_buckets v s = Some (b, True) \<and> b_OneUse b)) \<or>
          low_error er)"

definition bucket_delete_step :: "vault \<Rightarrow> string \<Rightarrow> string \<Rightarrow> unit result \<Rightarrow> vault \<Rightarrow> bool" where
  "bucket_delete_step v s secret r v' \<longleftrightarrow> (case r of
     Inr u \<Rightarrow> \<exists>b u K. va_buckets v s = Some (b, u) \<and> b_DeleteSecret b = secret \<and> K \<subseteq> bf_StorageKey ` set (b_Files b) \<and>
       v' = v\<lparr>va_buckets := (va_buckets v)(s := None), va_bytes := va_bytes v |` (- K)\<rparr>
   | Inl er \<Rightarrow> undeletable Bucket_ErrNotFound Bucket_ErrBadDeleteSecret b_DeleteSecret (va_buckets v) s secret er \<and>
       (v' = v \<or> (\<exists>b u K. va_buckets v s = Some (b, u) \<and> b_DeleteSecret b = secret \<and> K \<subseteq> bf_StorageKey ` set (b_Files b) \<and>
          v' = v\<lparr>va_bytes := va_bytes v |` (- K)\<rparr>)))"

text \<open>A sweep removes only what has expired, and bytes only of what has expired.\<close>

definition sweep_step :: "vault \<Rightarrow> vault \<Rightarrow> bool" where
  "sweep_step v v' \<longleftrightarrow> (\<exists>Df Db Dp K.
     Df \<subseteq> overdue f_ExpiresAt (va_files v) (va_now v) \<and> Db \<subseteq> overdue b_ExpiresAt (va_buckets v) (va_now v) \<and>
     Dp \<subseteq> overdue p_ExpiresAt (va_pastes v) (va_now v) \<and>
     K \<subseteq> overdue f_ExpiresAt (va_files v) (va_now v) \<union>
       \<Union> {bucket_keys b | b s u. s \<in> overdue b_ExpiresAt (va_buckets v) (va_now v) \<and> va_buckets v s = Some (b, u)} \<and>
     v' = v\<lparr>va_files := va_files v |` (- Df), va_buckets := va_buckets v |` (- Db), va_pastes := va_pastes v |` (- Dp),
       va_bytes := va_bytes v |` (- K)\<rparr>)"

fun vault_step :: "bcrypt \<Rightarrow> string \<Rightarrow> vault \<Rightarrow> call \<Rightarrow> outcome \<Rightarrow> vault \<Rightarrow> bool" where
  "vault_step bc url v (FileUpload req) x v' \<longleftrightarrow> (\<exists>r. x = FileUploaded r \<and> file_upload_step bc url v req r v')"
| "vault_step bc url v (FileGet s pw) x v' \<longleftrightarrow> (\<exists>r. x = FileGot r \<and> file_get_step bc v s pw r v')"
| "vault_step bc url v (FileMeta s) x v' \<longleftrightarrow> v' = v \<and> (\<exists>r. x = FileMetaGot r \<and> (case r of
     Inr f \<Rightarrow> (\<exists>u. va_files v s = Some (f, u)) \<and> \<not> is_expired (va_now v) (f_ExpiresAt f)
   | Inl er \<Rightarrow> refused File_ErrNotFound (\<lambda>f u. if is_expired (va_now v) (f_ExpiresAt f) then Inl (Sentinel File_ErrExpired) else Inr ())
       (va_files v) s er))"
| "vault_step bc url v (FileDelete s d) x v' \<longleftrightarrow> (\<exists>r. x = Deleted r \<and> file_delete_step v s d r v')"
| "vault_step bc url v (PasteCreate req) x v' \<longleftrightarrow> (\<exists>r. x = PasteCreated r \<and> paste_create_step bc url v req r v')"
| "vault_step bc url v (PasteGet s pw) x v' \<longleftrightarrow> (\<exists>r. x = PasteGot r \<and> paste_get_step bc v s pw r v')"
| "vault_step bc url v (PasteDelete s d) x v' \<longleftrightarrow> (\<exists>r. x = Deleted r \<and> paste_delete_step v s d r v')"
| "vault_step bc url v (BucketCreate req) x v' \<longleftrightarrow> (\<exists>r. x = BucketCreated r \<and> bucket_create_step bc url v req r v')"
| "vault_step bc url v (BucketMeta s pw) x v' \<longleftrightarrow> (\<exists>r. x = BucketMetaGot r \<and> bucket_meta_step bc v s pw r v')"
| "vault_step bc url v (BucketZIP s pw) x v' \<longleftrightarrow> (\<exists>r z. x = BucketZIPped r z \<and> bucket_zip_step bc v s pw r z v')"
| "vault_step bc url v (BucketFile s k pw) x v' \<longleftrightarrow> (\<exists>r. x = BucketFileGot r \<and> bucket_file_step bc v s k pw r v')"
| "vault_step bc url v (BucketDelete s d) x v' \<longleftrightarrow> (\<exists>r. x = Deleted r \<and> bucket_delete_step v s d r v')"
| "vault_step bc url v Sweep x v' \<longleftrightarrow> (\<exists>nf nb np. x = Swept nf nb np) \<and> sweep_step v v'"
| "vault_step bc url v (Pass d bs env) x v' \<longleftrightarrow> x = Passed \<and> v' = v\<lparr>va_now := va_now v + \<bar>d\<bar>\<rparr>"

fun vault_run :: "bcrypt \<Rightarrow> string \<Rightarrow> vault \<Rightarrow> call list \<Rightarrow> outcome list \<Rightarrow> vault \<Rightarrow> bool" where
  "vault_run bc url v (c # cs) (x # xs) v' \<longleftrightarrow> (\<exists>v1. vault_step bc url v c x v1 \<and> vault_run bc url v1 cs xs v')"
| "vault_run bc url v cs xs v' \<longleftrightarrow> cs = [] \<and> xs = [] \<and> v' = v"

section \<open>The program keeps the promises\<close>

lemma shelf_of_simps [simp]:
  "shelf_of view used s = map_option (\<lambda>e. (e, used s)) (view s)"
  "map_option fst \<circ> shelf_of view used = view"
  "shelf_of (view(s \<mapsto> e)) (used(s := b)) = (shelf_of view used)(s \<mapsto> (e, b))"
  "shelf_of (view(s := None)) (used(s := b)) = (shelf_of view used)(s := None)"
  "shelf_of view (used(s := True)) = consume s (shelf_of view used)"
  by (auto simp: shelf_of_def consume_def fun_eq_iff option.map_comp comp_def option.map_ident)

lemma shelf_of_restrict: "shelf_of (view |` (- D)) (\<lambda>s. s \<notin> D \<and> used s) = shelf_of view used |` (- D)"
  by (simp add: shelf_of_def restrict_map_def fun_eq_iff)

lemma shelf_of_unread:
  "(used s \<Longrightarrow> view s \<noteq> None) \<Longrightarrow> shelf_of view (used(s := view s \<noteq> None)) \<in> {shelf_of view used, consume s (shelf_of view used)}"
  by (cases "view s") (auto simp: shelf_of_def consume_def fun_eq_iff)

lemma vault_of_sel [simp]:
  "va_now (vault_of w) = w_now w" "va_bytes (vault_of w) = fs_content (w_fs w)"
  "va_files (vault_of w) = shelf_of (file_view (w_db w)) (file_used (w_db w))"
  "va_pastes (vault_of w) = shelf_of (paste_view (w_db w)) (paste_used (w_db w))"
  "va_buckets (vault_of w) = shelf_of (bucket_view (w_db w)) (bucket_used (w_db w))"
  by (simp_all add: vault_of_def)

lemma vault_of_same: "same_but_env w w' \<Longrightarrow> vault_of w' = vault_of w"
  by (simp add: vault_of_def same_but_envD)

text \<open>A call on one table changes one shelf and the bytes.\<close>

lemma vault_of_frame:
  "svc_frame not_files files_ok fs_ok w w' \<Longrightarrow> vault_of w' = (vault_of w)\<lparr>va_files := va_files (vault_of w'), va_bytes := va_bytes (vault_of w')\<rparr>"
  "svc_frame not_pastes pastes_ok fs_ok w w' \<Longrightarrow> vault_of w' = (vault_of w)\<lparr>va_pastes := va_pastes (vault_of w'), va_bytes := va_bytes (vault_of w')\<rparr>"
  "svc_frame not_buckets buckets_ok fs_ok w w' \<Longrightarrow> vault_of w' = (vault_of w)\<lparr>va_buckets := va_buckets (vault_of w'), va_bytes := va_bytes (vault_of w')\<rparr>"
  using other_tables [of "w_db w'" "w_db w"] by (simp_all add: vault_of_def svc_frame_def)

lemma on_calls:
  "on_files (FileUpload fr)" "on_files (FileGet s pw)" "on_files (FileDelete s d)"
  "on_pastes (PasteCreate pr)" "on_pastes (PasteGet s pw)" "on_pastes (PasteDelete s d)"
  "on_buckets (BucketCreate br)" "on_buckets (BucketZIP s pw)" "on_buckets (BucketDelete s d)"
  by simp_all

lemma vault_of_db_frame:
  assumes "w_db w' = w_db w" and "w_now w' = w_now w"
  shows "vault_of w' = (vault_of w)\<lparr>va_bytes := fs_content (w_fs w')\<rparr>"
  using assms by (simp add: vault_of_def)

lemma file_upload_promise:
  assumes e: "File_Upload bc (fileService url) req w = (r, w')" and ok: "sys_ok w" and bc: "bcrypt_ok bc"
  shows "file_upload_step bc url (vault_of w) req r (vault_of w')"
proof (cases r)
  case (Inl er)
  note u = File_Upload_Inl [OF e [unfolded Inl] bc]
  with vault_of_db_frame [of w' w] show ?thesis
    unfolding file_upload_step_def Inl sum.case vault_of_sel by metis
next
  case (Inr res)
  have dok: "files_ok (w_db w)" using ok by (simp add: sys_ok_def)
  have "exec bc url (FileUpload req) w = (FileUploaded r, w')" using e by simp
  note fr = vault_of_frame(1) [OF exec_file_frame [OF this on_calls(1)]]
  from e [unfolded Inr] dok bc show ?thesis
  proof (cases rule: File_Upload_Inr)
    case (uploaded slug secret h d)
    show ?thesis
      unfolding file_upload_step_def Inr sum.case
      by (intro exI [of _ slug] exI [of _ secret] exI [of _ h] exI [of _ d], subst fr)
        (use uploaded in \<open>simp add: fresh_slug_def hashes_def\<close>)
  qed
qed

lemma file_get_promise:
  assumes e: "File_Get bc (fileService url) s pw w = (r, w')" and ok: "sys_ok w"
  shows "file_get_step bc (vault_of w) s pw r (vault_of w')"
proof -
  have dok: "files_ok (w_db w)" using ok by (simp add: sys_ok_def)
  have "exec bc url (FileGet s pw) w = (FileGot r, w')" using e by simp
  note fr = vault_of_frame(1) [OF exec_file_frame [OF this on_calls(2)]]
  note g = File_Get_frame [OF e] and same = same_but_dbD [OF conjunct1 [OF File_Get_frame [OF e]]]
  show ?thesis
  proof (cases r)
    case (Inr res)
    from File_Get_Inr [OF e [unfolded Inr] dok] g same show ?thesis
      by (subst fr) (auto simp: file_get_step_def Inr)
  next
    case (Inl er)
    note u = shelf_of_unread [of "file_used (w_db w)" s "file_view (w_db w)", OF fr.used_view]
    have "vault_of w' = vault_of w \<or> vault_of w' = (vault_of w)\<lparr>va_files := consume s (va_files (vault_of w))\<rparr>"
      using g dok same u by (subst (1 2) fr) auto
    with File_Get_Inl [OF e [unfolded Inl] dok] Inl show ?thesis
      by (auto simp: file_get_step_def refused_def)
  qed
qed

lemma file_delete_promise:
  assumes e: "File_Delete (fileService url) s d w = (r, w')" and ok: "sys_ok w"
  shows "file_delete_step (vault_of w) s d r (vault_of w')"
proof -
  have dok: "files_ok (w_db w)" using ok by (simp add: sys_ok_def)
  have "exec plain_bcrypt url (FileDelete s d) w = (Deleted r, w')" using e by simp
  note fr = vault_of_frame(1) [OF exec_file_frame [OF this on_calls(3)]]
  from e dok show ?thesis
  proof (cases rule: File_Delete_cases)
    case (refused er)
    with vault_of_same [OF refused(2)] show ?thesis by (auto simp: file_delete_step_def undeletable_def)
  next
    case (bytes_stay f er)
    with vault_of_db_frame [of w' w] same_but_fsD [OF bytes_stay(7)] show ?thesis
      by (auto simp: file_delete_step_def undeletable_def)
  next
    case (row_stays f er)
    with vault_of_db_frame [of w' w] show ?thesis by (auto simp: file_delete_step_def undeletable_def)
  next
    case (deleted f)
    then show ?thesis by (subst fr) (auto simp: file_delete_step_def)
  qed
qed

lemma file_meta_promise:
  assumes e: "File_GetMeta (fileService url) s w = (r, w')"
  shows "vault_step bc url (vault_of w) (FileMeta s) (FileMetaGot r) (vault_of w')"
proof (cases r)
  case (Inl er)
  with File_GetMeta_spec(3) [OF e Inl] vault_of_same [OF File_GetMeta_spec(1) [OF e]] show ?thesis
    by (auto simp: refused_def)
next
  case (Inr f)
  with File_GetMeta_spec(2) [OF e Inr] vault_of_same [OF File_GetMeta_spec(1) [OF e]] show ?thesis by auto
qed

lemma paste_create_promise:
  assumes e: "Paste_Create bc (pasteService url) req w = (r, w')" and ok: "sys_ok w" and bc: "bcrypt_ok bc"
  shows "paste_create_step bc url (vault_of w) req r (vault_of w')"
proof -
  have dok: "pastes_ok (w_db w)" using ok by (simp add: sys_ok_def)
  have "exec bc url (PasteCreate req) w = (PasteCreated r, w')" using e by simp
  note fr = vault_of_frame(2) [OF exec_paste_frame [OF this on_calls(4)]]
  from e dok bc show ?thesis
  proof (cases rule: Paste_Create_cases)
    case (failed er)
    then show ?thesis by (simp add: paste_create_step_def vault_of_def)
  next
    case (created slug secret h d)
    show ?thesis
      unfolding paste_create_step_def created(9) sum.case
      by (intro exI [of _ slug] exI [of _ secret] exI [of _ h] exI [of _ d], subst fr)
        (use created in \<open>simp add: fresh_slug_def hashes_def paste_request_ok_def\<close>)
  qed
qed

lemma paste_get_promise:
  assumes e: "Paste_Get bc (pasteService url) s pw w = (r, w')" and ok: "sys_ok w"
  shows "paste_get_step bc (vault_of w) s pw r (vault_of w')"
proof -
  have dok: "pastes_ok (w_db w)" using ok by (simp add: sys_ok_def)
  have "exec bc url (PasteGet s pw) w = (PasteGot r, w')" using e by simp
  note fr = vault_of_frame(2) [OF exec_paste_frame [OF this on_calls(5)]]
  note g = Paste_Get_frame [OF e] and same = same_but_dbD [OF conjunct1 [OF Paste_Get_frame [OF e]]]
  show ?thesis
  proof (cases r)
    case (Inr res)
    from Paste_Get_Inr [OF e [unfolded Inr] dok] g same show ?thesis
      by (subst fr) (auto simp: paste_get_step_def Inr)
  next
    case (Inl er)
    note u = shelf_of_unread [of "paste_used (w_db w)" s "paste_view (w_db w)", OF pr.used_view]
    have "vault_of w' = vault_of w \<or> vault_of w' = (vault_of w)\<lparr>va_pastes := consume s (va_pastes (vault_of w))\<rparr>"
      using g dok same u by (subst (1 2) fr) auto
    with Paste_Get_Inl [OF e [unfolded Inl] dok] Inl show ?thesis
      by (auto simp: paste_get_step_def refused_def)
  qed
qed

lemma paste_delete_promise:
  assumes e: "Paste_Delete (pasteService url) s d w = (r, w')" and ok: "sys_ok w"
  shows "paste_delete_step (vault_of w) s d r (vault_of w')"
proof -
  have dok: "pastes_ok (w_db w)" using ok by (simp add: sys_ok_def)
  have "exec plain_bcrypt url (PasteDelete s d) w = (Deleted r, w')" using e by simp
  note fr = vault_of_frame(2) [OF exec_paste_frame [OF this on_calls(6)]]
  from e dok show ?thesis
  proof (cases rule: Paste_Delete_cases)
    case (refused er)
    with vault_of_db_frame [of w' w] same_but_dbD [OF refused(3)] show ?thesis
      by (auto simp: paste_delete_step_def undeletable_def vault_of_def)
  next
    case (deleted p)
    with same_but_dbD [OF deleted(6)] show ?thesis by (subst fr) (auto simp: paste_delete_step_def)
  qed
qed

lemma stored_bytes_range: "stored_bytes stored fis k = Some d \<Longrightarrow> d \<in> rd_data ` fi_Content ` set fis"
  by (auto simp: stored_bytes_def dest!: map_of_SomeD set_zip_rightD)

lemma bucket_create_promise:
  assumes e: "Bucket_Create bc (bucketService url) req w = (r, w')" and ok: "sys_ok w" and bc: "bcrypt_ok bc"
  shows "bucket_create_step bc url (vault_of w) req r (vault_of w')"
proof -
  have dok: "buckets_ok (w_db w)" using ok by (simp add: sys_ok_def)
  have "exec bc url (BucketCreate req) w = (BucketCreated r, w')" using e by simp
  note frame = exec_bucket_frame [OF this on_calls(7) dok]
  note fr = vault_of_frame(3) [OF frame]
  have now: "w_now w' = w_now w" using frame by (simp add: svc_frame_def)
  from e dok bc show ?thesis
  proof (cases rule: Bucket_Create_cases)
    case (failed er new K)
    have "fs_content (w_fs w') k = fs_content (w_fs w) k \<or> fs_content (w_fs w') k = None \<or>
        fs_content (w_fs w') k \<in> Some ` rd_data ` fi_Content ` set (bq_Files req)" for k
      using stored_bytes_range [of new "bq_Files req" k]
      by (cases "stored_bytes new (bq_Files req) k") (auto simp: failed(6) restrict_map_def map_add_def)
    with failed(1,3) vault_of_db_frame [OF failed(2) now] show ?thesis
      unfolding bucket_create_step_def failed(1) sum.case vault_of_sel by blast
  next
    case (partial er slug secret h d stored ids n)
    show ?thesis
      unfolding bucket_create_step_def partial(1) sum.case
      by (intro disjI1 exI [of _ slug] exI [of _ secret] exI [of _ h] exI [of _ d] exI [of _ stored] exI [of _ ids] exI [of _ n], subst fr)
        (use partial in \<open>simp add: fresh_slug_def hashes_def\<close>)
  next
    case (created slug secret h d stored ids)
    show ?thesis
      unfolding bucket_create_step_def created(8) sum.case
      by (intro exI [of _ slug] exI [of _ secret] exI [of _ h] exI [of _ d] exI [of _ stored] exI [of _ ids], subst fr)
        (use created in \<open>simp add: fresh_slug_def hashes_def\<close>)
  qed
qed

lemma bucket_refused_iff:
  "bucket_refused bc (vault_of w) s pw er \<longleftrightarrow>
     (er = Sentinel Bucket_ErrNotFound \<and> bucket_view (w_db w) s = None) \<or>
     (\<exists>b. bucket_view (w_db w) s = Some b \<and> bucket_access bc (w_now w) pw b = Inl er) \<or> low_error er"
  by (auto simp: bucket_refused_def refused_def)

lemma bucket_meta_promise:
  assumes e: "Bucket_GetMeta bc (bucketService url) s pw w = (r, w')"
  shows "bucket_meta_step bc (vault_of w) s pw r (vault_of w')"
proof (cases r)
  case (Inl er)
  with Bucket_GetMeta_spec(3) [OF e Inl] vault_of_same [OF Bucket_GetMeta_spec(1) [OF e]] show ?thesis
    by (simp add: bucket_meta_step_def bucket_refused_iff)
next
  case (Inr g)
  with Bucket_GetMeta_spec(2) [OF e Inr] vault_of_same [OF Bucket_GetMeta_spec(1) [OF e]] show ?thesis
    by (auto simp: bucket_meta_step_def)
qed

lemma bucket_file_promise:
  assumes e: "Bucket_GetFile bc (bucketService url) s key pw w = (r, w')"
  shows "bucket_file_step bc (vault_of w) s key pw r (vault_of w')"
proof -
  note same = vault_of_same [OF Bucket_GetFile_spec(1) [OF e]]
  show ?thesis
  proof (cases r)
    case (Inr x)
    obtain bf d where x: "x = (bf, d)" by force
    from Bucket_GetFile_spec(2) [OF e Inr [unfolded x]] same show ?thesis by (auto simp: bucket_file_step_def Inr x)
  next
    case (Inl er)
    obtain y w1 where o: "bucket_open bc (bucketService url) ''bucket service get file: lookup'' s pw w = (y, w1)" by force
    show ?thesis
    proof (cases y)
      case y: (Inl e')
      with e o Inl have "er = e'" by (simp add: Bucket_GetFile_def)
      with bucket_open_spec(3) [OF o y] same Inl show ?thesis by (simp add: bucket_file_step_def bucket_refused_iff)
    next
      case y: (Inr b)
      note b = bucket_open_spec(2) [OF o y]
      show ?thesis
      proof (cases "List.find (\<lambda>bf. bf_StorageKey bf = key) (b_Files b)")
        case None
        then have "key \<notin> bf_StorageKey ` set (b_Files b)" by (auto simp: find_None_iff)
        with None e o y Inl b same show ?thesis by (simp add: Bucket_GetFile_def bucket_file_step_def)
      next
        case (Some bf)
        with e o y Inl have "\<exists>e' w2. LocalFS_Read key w1 = (Inl e', w2) \<and> er = Wrap ''bucket service get file: read storage'' e'"
          by (auto simp: Bucket_GetFile_def wrap_eq bucketService_def LocalFS_def)
        with LocalFS_Read_spec(3) have "low_error er" by (metis low_error_simps(2))
        with Inl same show ?thesis by (simp add: bucket_file_step_def bucket_refused_iff)
      qed
    qed
  qed
qed

lemma bucket_zip_promise:
  assumes e: "Bucket_StreamZIP bc (bucketService url) s pw empty_response w = ((r, z), w')" and ok: "sys_ok w"
  shows "bucket_zip_step bc (vault_of w) s pw r z (vault_of w')"
proof -
  have dok: "buckets_ok (w_db w)" using ok by (simp add: sys_ok_def)
  have "exec bc url (BucketZIP s pw) w = (BucketZIPped r z, w')" using e by simp
  note fr = vault_of_frame(3) [OF exec_bucket_frame [OF this on_calls(8) dok]]
  note z = Bucket_StreamZIP_spec [OF e dok] and same = same_but_dbD [OF conjunct1 [OF Bucket_StreamZIP_spec [OF e dok]]]
  from z have views: "bucket_view (w_db w') = bucket_view (w_db w)" by blast
  have unchanged: "vault_of w' = vault_of w" if "bucket_used (w_db w') = bucket_used (w_db w)"
    using that views same by (subst fr) simp
  have consumed: "vault_of w' = (vault_of w)\<lparr>va_buckets := consume s (va_buckets (vault_of w))\<rparr>"
    if "bucket_used (w_db w') = (bucket_used (w_db w))(s := True)"
    using that views same by (subst fr) simp
  show ?thesis
  proof (cases r)
    case (Inl er)
    with z unchanged consumed show ?thesis
      by (auto simp: bucket_zip_step_def bucket_refused_iff)
  next
    case (Inr u)
    with z obtain b ds where b: "bucket_view (w_db w) s = Some b" "bucket_access bc (w_now w) pw b = Inr ()"
      "b_OneUse b \<Longrightarrow> \<not> bucket_used (w_db w) s \<and> bucket_used (w_db w') s"
      "list_all2 (\<lambda>bf d. fs_content (w_fs w) (bf_StorageKey bf) = Some d) (b_Files b) ds"
      "zr_entries z = zip (map bf_Filename (b_Files b)) ds"
      by (auto simp: empty_response_def)
    have "b_OneUse b \<Longrightarrow> bucket_used (w_db w') \<noteq> bucket_used (w_db w)" using b(3) by auto
    with z have "b_OneUse b \<Longrightarrow> bucket_used (w_db w') = (bucket_used (w_db w))(s := True)" by auto
    with b z unchanged consumed Inr show ?thesis by (auto simp: bucket_zip_step_def)
  qed
qed

lemma bucket_delete_promise:
  assumes e: "Bucket_Delete (bucketService url) s d w = (r, w')" and ok: "sys_ok w"
  shows "bucket_delete_step (vault_of w) s d r (vault_of w')"
proof -
  have dok: "buckets_ok (w_db w)" using ok by (simp add: sys_ok_def)
  have "exec plain_bcrypt url (BucketDelete s d) w = (Deleted r, w')" using e by simp
  note frame = exec_bucket_frame [OF this on_calls(9) dok]
  note fr = vault_of_frame(3) [OF frame]
  have now: "w_now w' = w_now w" using frame by (simp add: svc_frame_def)
  from e show ?thesis
  proof (cases rule: Bucket_Delete_cases)
    case (refused er)
    with now show ?thesis by (auto simp: bucket_delete_step_def undeletable_def vault_of_def)
  next
    case (row_stays b er K)
    with vault_of_db_frame [OF row_stays(5) now] show ?thesis
      by (auto simp: bucket_delete_step_def undeletable_def intro!: exI [of _ K])
  next
    case (deleted b K)
    then show ?thesis by (subst fr) (auto simp: bucket_delete_step_def)
  qed
qed

lemma sweep_promise:
  assumes "sweep program_cleanup w = ((nf, nb, np), w')" and "sys_ok w"
  shows "sweep_step (vault_of w) (vault_of w')"
proof -
  obtain Df Db Dp K where s: "w_now w' = w_now w"
    "Df \<subseteq> expired_files w" "Db \<subseteq> expired_buckets w" "Dp \<subseteq> expired_pastes w" "K \<subseteq> expired_bytes w"
    "file_view (w_db w') = file_view (w_db w) |` (- Df)" "file_used (w_db w') = (\<lambda>s. s \<notin> Df \<and> file_used (w_db w) s)"
    "bucket_view (w_db w') = bucket_view (w_db w) |` (- Db)" "bucket_used (w_db w') = (\<lambda>s. s \<notin> Db \<and> bucket_used (w_db w) s)"
    "paste_view (w_db w') = paste_view (w_db w) |` (- Dp)" "paste_used (w_db w') = (\<lambda>s. s \<notin> Dp \<and> paste_used (w_db w) s)"
    "fs_content (w_fs w') = fs_content (w_fs w) |` (- K)"
    by (rule sweep_effect [OF assms])
  have "vault_of w' = (vault_of w)\<lparr>va_files := va_files (vault_of w) |` (- Df), va_buckets := va_buckets (vault_of w) |` (- Db),
      va_pastes := va_pastes (vault_of w) |` (- Dp), va_bytes := va_bytes (vault_of w) |` (- K)\<rparr>"
    using s by (simp add: vault_of_def shelf_of_restrict)
  moreover have "expired_bytes w = overdue f_ExpiresAt (va_files (vault_of w)) (w_now w) \<union>
      \<Union> {bucket_keys b | b s u. s \<in> overdue b_ExpiresAt (va_buckets (vault_of w)) (w_now w) \<and> va_buckets (vault_of w) s = Some (b, u)}"
    by (auto simp: expired_bytes_def overdue_def)
  ultimately show ?thesis
    unfolding sweep_step_def using s(2-5)
    by (intro exI [of _ Df] exI [of _ Db] exI [of _ Dp] exI [of _ K]) (simp add: overdue_def)
qed

lemma exec_promise:
  assumes e: "exec bc url c w = (x, w')" and ok: "sys_ok w" and bc: "bcrypt_ok bc"
  shows "vault_step bc url (vault_of w) c x (vault_of w')"
proof (cases c)
  case (FileMeta s)
  with e obtain r where "File_GetMeta (fileService url) s w = (r, w')" "x = FileMetaGot r" by (auto simp: map_prod_eq)
  with file_meta_promise FileMeta show ?thesis by simp
next
  case (BucketZIP s pw)
  with e obtain r z where "Bucket_StreamZIP bc (bucketService url) s pw empty_response w = ((r, z), w')" "x = BucketZIPped r z"
    by (auto simp: map_prod_eq)
  with bucket_zip_promise [OF _ ok] BucketZIP show ?thesis by simp
next
  case Sweep
  with e obtain nf nb np where "sweep program_cleanup w = ((nf, nb, np), w')" "x = Swept nf nb np" by (auto simp: map_prod_eq)
  with sweep_promise [OF _ ok] Sweep show ?thesis by simp
next
  case (Pass d bs env)
  with e show ?thesis by (auto simp: vault_of_def)
qed (use e file_upload_promise [OF _ ok bc] file_get_promise [OF _ ok] file_delete_promise [OF _ ok]
    paste_create_promise [OF _ ok bc] paste_get_promise [OF _ ok] paste_delete_promise [OF _ ok]
    bucket_create_promise [OF _ ok bc] bucket_meta_promise bucket_file_promise bucket_delete_promise [OF _ ok]
    in \<open>auto simp: map_prod_eq\<close>)

lemma run_promise:
  "run bc url cs w = (xs, w') \<Longrightarrow> sys_ok w \<Longrightarrow> bcrypt_ok bc \<Longrightarrow> vault_run bc url (vault_of w) cs xs (vault_of w')"
proof (induction cs arbitrary: w xs)
  case (Cons c cs)
  then obtain x w1 ys where 1: "exec bc url c w = (x, w1)" and 2: "run bc url cs w1 = (ys, w')" and xs: "xs = x # ys"
    by (auto split: prod.splits)
  from Cons.IH [OF 2 exec_sys_ok(1) [OF 1 Cons.prems(2)] Cons.prems(3)] exec_promise [OF 1 Cons.prems(2,3)] xs
  show ?case by auto
qed simp

section \<open>Types of what is stored\<close>

text \<open>Slugs and keys as they are drawn; an expiry is a whole second at most a year from now.\<close>

definition slug_like :: "string \<Rightarrow> bool" where
  "slug_like s \<longleftrightarrow> length s = 12 \<and> set s \<subseteq> set charset"

definition dated :: "instant \<Rightarrow> instant option \<Rightarrow> bool" where
  "dated now t = (case t of None \<Rightarrow> True | Some x \<Rightarrow> second dvd x \<and> x \<le> now + 365 * 24 * hour)"

definition file_typed :: "instant \<Rightarrow> string \<Rightarrow> file_ent \<Rightarrow> bool" where
  "file_typed now s f \<longleftrightarrow> f_Slug f = s \<and> slug_like s \<and> length (f_DeleteSecret f) = 24 \<and> dated now (f_ExpiresAt f)"

definition paste_typed :: "instant \<Rightarrow> string \<Rightarrow> paste_ent \<Rightarrow> bool" where
  "paste_typed now s p \<longleftrightarrow> p_Slug p = s \<and> slug_like s \<and> length (p_DeleteSecret p) = 24 \<and> dated now (p_ExpiresAt p) \<and>
     p_Content p \<noteq> [] \<and> p_Lang p \<noteq> []"

definition bucket_typed :: "instant \<Rightarrow> string \<Rightarrow> bucket_ent \<Rightarrow> bool" where
  "bucket_typed now s b \<longleftrightarrow> b_Slug b = s \<and> slug_like s \<and> length (b_DeleteSecret b) = 24 \<and> dated now (b_ExpiresAt b) \<and>
     (\<forall>bf \<in> set (b_Files b). bf_BucketSlug bf = s \<and> slug_like (bf_StorageKey bf))"

definition vault_typed :: "vault \<Rightarrow> bool" where
  "vault_typed v \<longleftrightarrow> (\<forall>s f u. va_files v s = Some (f, u) \<longrightarrow> file_typed (va_now v) s f) \<and>
     (\<forall>s p u. va_pastes v s = Some (p, u) \<longrightarrow> paste_typed (va_now v) s p) \<and>
     (\<forall>s b u. va_buckets v s = Some (b, u) \<longrightarrow> bucket_typed (va_now v) s b)"

lemma dated_mono: "dated now t \<Longrightarrow> now \<le> now' \<Longrightarrow> dated now' t"
  by (auto simp: dated_def split: option.splits)

lemma typed_mono:
  "file_typed now s f \<Longrightarrow> now \<le> now' \<Longrightarrow> file_typed now' s f"
  "paste_typed now s p \<Longrightarrow> now \<le> now' \<Longrightarrow> paste_typed now' s p"
  "bucket_typed now s b \<Longrightarrow> now \<le> now' \<Longrightarrow> bucket_typed now' s b"
  by (auto simp: file_typed_def paste_typed_def bucket_typed_def intro: dated_mono)

lemma dated_preset: "d \<le> 365 * 24 * hour \<Longrightarrow> dated now (map_option to_second (expiry_instant d now))"
  using to_second_bounds(2) [of "now + d"]
  by (auto simp: dated_def expiry_instant_def to_second_def time_Unix_def)

lemma consume_typed: "consume s S k = Some (e, u) \<Longrightarrow> \<exists>u'. S k = Some (e, u')"
  by (auto simp: consume_def split: if_splits)

lemma with_files_typed:
  assumes "list_all2 (stores slug) stored fis" and "bf \<in> set (b_Files (with_files (created_bucket req slug secret h t) ids (take n stored)))"
  shows "bf_BucketSlug bf = slug \<and> slug_like (bf_StorageKey bf)"
proof -
  from assms(2) obtain i sf where bf: "bf = (sf_bf sf)\<lparr>bf_ID := i\<rparr>" and "sf \<in> set (take n stored)"
    by (auto simp: created_bucket_def dest: set_zip_rightD)
  then have "sf \<in> set stored" by (auto dest: in_set_takeD)
  with assms(1) obtain fi where "stores slug sf fi"
    by (auto simp: list_all2_conv_all_nth in_set_conv_nth)
  then have "sf = stored_entry slug fi (sf_storageKey sf)" "slug_like (sf_storageKey sf)"
    by (auto simp: stores_def slug_like_def)
  then have "bf_BucketSlug (sf_bf sf) = slug" "bf_StorageKey (sf_bf sf) = sf_storageKey sf" "slug_like (sf_storageKey sf)"
    by (metis stored_entry_sel(2), metis stored_entry_sel(3), blast)
  then show ?thesis unfolding bf by simp
qed

lemma created_typed:
  assumes "length slug = 12 \<and> set slug \<subseteq> set charset" and "length secret = 24"
  shows "map_of file_validExpiries x = Some d \<Longrightarrow> file_typed now slug (uploaded_file freq slug secret h (expiry_instant d now))"
    and "map_of paste_validExpiries x = Some d \<Longrightarrow> pc_Content preq \<noteq> [] \<Longrightarrow>
      paste_typed now slug (created_paste preq slug secret h (expiry_instant d now))"
    and "map_of bucket_validExpiries x = Some d \<Longrightarrow> list_all2 (stores slug) stored (bq_Files breq) \<Longrightarrow>
      bucket_typed now slug (with_files (created_bucket breq slug secret h (expiry_instant d now)) ids (take n stored))"
proof -
  note dated = dated_preset [of d now]
  show "map_of file_validExpiries x = Some d \<Longrightarrow> file_typed now slug (uploaded_file freq slug secret h (expiry_instant d now))"
    using assms dated file_preset_range [of x d] by (simp add: file_typed_def uploaded_file_def slug_like_def)
  show "map_of paste_validExpiries x = Some d \<Longrightarrow> pc_Content preq \<noteq> [] \<Longrightarrow>
      paste_typed now slug (created_paste preq slug secret h (expiry_instant d now))"
    using assms dated paste_preset_range [of x d] by (simp add: paste_typed_def created_paste_def slug_like_def)
  assume *: "map_of bucket_validExpiries x = Some d" "list_all2 (stores slug) stored (bq_Files breq)"
  have "\<forall>bf \<in> set (b_Files (with_files (created_bucket breq slug secret h (expiry_instant d now)) ids (take n stored))).
      bf_BucketSlug bf = slug \<and> slug_like (bf_StorageKey bf)" using with_files_typed [OF *(2)] by blast
  with assms dated bucket_preset_range [OF *(1)]
  show "bucket_typed now slug (with_files (created_bucket breq slug secret h (expiry_instant d now)) ids (take n stored))"
    by (simp add: bucket_typed_def created_bucket_def slug_like_def del: with_files_sel(6))
qed

text \<open>
  A step that only consumes, removes or adds a well-typed entity keeps the types. The last part
  of each shelf is what the step adds.
\<close>

definition grows :: "(string \<Rightarrow> 'e \<Rightarrow> bool) \<Rightarrow> 'e shelf \<Rightarrow> 'e shelf \<Rightarrow> bool" where
  "grows typed S S' \<longleftrightarrow> (\<forall>s e u. S' s = Some (e, u) \<longrightarrow> typed s e \<or> (\<exists>u'. S s = Some (e, u')))"

lemma grows_simps [simp]:
  "grows typed S S" "grows typed S (consume s S)" "grows typed S (S(s := None))" "grows typed S (S |` D)"
  "typed s e \<Longrightarrow> grows typed S (S(s \<mapsto> (e, u)))"
  by (auto simp: grows_def restrict_map_def dest: consume_typed split: if_splits)

definition grown :: "vault \<Rightarrow> vault \<Rightarrow> bool" where
  "grown v v' \<longleftrightarrow> va_now v \<le> va_now v' \<and> grows (file_typed (va_now v)) (va_files v) (va_files v') \<and>
    grows (paste_typed (va_now v)) (va_pastes v) (va_pastes v') \<and> grows (bucket_typed (va_now v)) (va_buckets v) (va_buckets v')"

lemma grown_create:
  "file_upload_step bc url v req r v' \<Longrightarrow> grown v v'"
  "paste_create_step bc url v preq pr v' \<Longrightarrow> grown v v'"
proof -
  show "file_upload_step bc url v req r v' \<Longrightarrow> grown v v'"
    by (cases r) (auto simp: file_upload_step_def grown_def fresh_slug_def created_typed(1))
  show "paste_create_step bc url v preq pr v' \<Longrightarrow> grown v v'"
    by (cases pr) (auto simp: paste_create_step_def grown_def fresh_slug_def created_typed(2))
qed

lemma grown_get:
  "file_get_step bc v s pw r v' \<Longrightarrow> grown v v'" "paste_get_step bc v s pw pr v' \<Longrightarrow> grown v v'"
  "bucket_zip_step bc v s pw zr z v' \<Longrightarrow> grown v v'"
proof -
  show "file_get_step bc v s pw r v' \<Longrightarrow> grown v v'"
    by (cases r) (auto simp: file_get_step_def grown_def split: if_splits)
  show "paste_get_step bc v s pw pr v' \<Longrightarrow> grown v v'"
    by (cases pr) (auto simp: paste_get_step_def grown_def split: if_splits)
  show "bucket_zip_step bc v s pw zr z v' \<Longrightarrow> grown v v'"
    unfolding bucket_zip_step_def grown_def by (elim conjE disjE) simp_all
qed

lemma grown_delete:
  "file_delete_step v s d r v' \<Longrightarrow> grown v v'" "paste_delete_step v s d r v' \<Longrightarrow> grown v v'"
  "bucket_delete_step v s d r v' \<Longrightarrow> grown v v'"
proof -
  show "file_delete_step v s d r v' \<Longrightarrow> grown v v'"
    by (cases r) (auto simp: file_delete_step_def grown_def)
  show "paste_delete_step v s d r v' \<Longrightarrow> grown v v'"
    by (cases r) (auto simp: paste_delete_step_def grown_def)
  show "bucket_delete_step v s d r v' \<Longrightarrow> grown v v'"
    by (cases r) (auto simp: bucket_delete_step_def grown_def)
qed

lemma grown_bucket_create:
  assumes "bucket_create_step bc url v req r v'"
  shows "grown v v'"
proof (cases r)
  case (Inl er)
  from assms show ?thesis
    unfolding bucket_create_step_def Inl sum.case fresh_slug_def grown_def
    by (elim disjE exE conjE) (simp_all add: created_typed(3))
next
  case (Inr res)
  from assms obtain slug secret h d stored ids where
    s: "length slug = 12 \<and> set slug \<subseteq> set charset" "length secret = 24" "map_of bucket_validExpiries (bq_Expiry req) = Some d"
      "list_all2 (stores slug) stored (bq_Files req)"
    and v': "v' = v\<lparr>va_buckets := (va_buckets v)(slug \<mapsto>
        (with_files (created_bucket req slug secret h (expiry_instant d (va_now v))) ids stored, False)),
      va_bytes := va_bytes v ++ stored_bytes stored (bq_Files req)\<rparr>"
    unfolding bucket_create_step_def Inr sum.case fresh_slug_def by blast
  from created_typed(3) [OF s, of "va_now v" h ids "length stored"] show ?thesis by (simp add: v' grown_def)
qed

lemma vault_step_grown: "vault_step bc url v c x v' \<Longrightarrow> grown v v'"
  by (cases c) (auto intro: grown_create grown_get grown_delete grown_bucket_create
      simp: bucket_meta_step_def bucket_file_step_def sweep_step_def, auto simp: grown_def)

lemma vault_step_typed:
  assumes "vault_step bc url v c x v'" and "vault_typed v"
  shows "vault_typed v'"
proof -
  have g: "va_now v \<le> va_now v'" "grows (file_typed (va_now v)) (va_files v) (va_files v')"
    "grows (paste_typed (va_now v)) (va_pastes v) (va_pastes v')" "grows (bucket_typed (va_now v)) (va_buckets v) (va_buckets v')"
    using vault_step_grown [OF assms(1)] by (simp_all add: grown_def)
  show ?thesis
    unfolding vault_typed_def
  proof (intro conjI allI impI)
    fix s f u assume "va_files v' s = Some (f, u)"
    with g(2) assms(2) have "file_typed (va_now v) s f" unfolding grows_def vault_typed_def by metis
    with g(1) show "file_typed (va_now v') s f" by (rule typed_mono(1) [rotated])
  next
    fix s p u assume "va_pastes v' s = Some (p, u)"
    with g(3) assms(2) have "paste_typed (va_now v) s p" unfolding grows_def vault_typed_def by blast
    with g(1) show "paste_typed (va_now v') s p" by (rule typed_mono(2) [rotated])
  next
    fix s b u assume "va_buckets v' s = Some (b, u)"
    with g(4) assms(2) have "bucket_typed (va_now v) s b" unfolding grows_def vault_typed_def by blast
    with g(1) show "bucket_typed (va_now v') s b" by (rule typed_mono(3) [rotated])
  qed
qed

lemma vault_run_typed: "vault_run bc url v cs xs v' \<Longrightarrow> vault_typed v \<Longrightarrow> vault_typed v'"
  by (induction bc url v cs xs v' rule: vault_run.induct) (auto dest: vault_step_typed)

lemma vault_typed_initial: "vault_typed (vault_of initial)"
proof -
  have "file_view (w_db initial) = Map.empty" "bucket_view (w_db initial) = Map.empty" "paste_view (w_db initial) = Map.empty"
    by (simp_all add: fun_eq_iff initial_def file_view_def bucket_view_def paste_view_def tbl_select_def)
  then show ?thesis by (simp add: vault_typed_def)
qed

end
