(* ===== verification/Promises.thy ===== *)
theory Promises
  imports Vault Demo
begin

text \<open>
  The program as a whole against the abstract specification of theory Vault: every run is a run of
  the specification, and what the specification keeps of the entities holds of the tables.
\<close>

lemma length_run: "run bc url cs w = (xs, w') \<Longrightarrow> length xs = length cs"
  by (induction cs arbitrary: w xs) (auto split: prod.splits)

text \<open>
  C1. The program keeps the promises of the abstract specification: every run, over whatever
  failures, is a run of the specification from the abstraction of the world before to the
  abstraction of the world after, with the same answers. The specification knows three shelves of
  entities with a consumed flag, the bytes by key and the clock; for each call it says what is
  answered and what has changed, or why the call is refused.
\<close>

theorem program_refines_vault:
  assumes "bcrypt_ok bc" and "sys_ok w" and "run bc url cs w = (xs, w')"
  shows "vault_run bc url (vault_of w) cs xs (vault_of w')"
  using run_promise [OF assms(3,2,1)] .

theorem program_refines_vault_witness:
  "\<exists>xs. length xs = 3 \<and> vault_run plain_bcrypt '''' (vault_of demo_world)
     [FileUpload demo_request, FileGet demo_slug ''pw'', Sweep] xs
     (vault_of (snd (run plain_bcrypt '''' [FileUpload demo_request, FileGet demo_slug ''pw'', Sweep] demo_world)))"
proof -
  let ?cs = "[FileUpload demo_request, FileGet demo_slug ''pw'', Sweep]"
  have "length (fst (run plain_bcrypt '''' ?cs demo_world)) = length ?cs" by (rule length_run [OF surjective_pairing])
  also have "length ?cs = 3" by simp
  finally show ?thesis using program_refines_vault [OF plain_bcrypt_ok demo_ok(1) surjective_pairing] by blast
qed

text \<open>
  C8. What is in the tables is well typed at every moment of every run that starts empty: an
  entity is stored under its own slug of twelve characters of the alphabet with a secret of 24,
  expires on a whole second no more than a year ahead, a paste is not empty, and each file of
  a bucket belongs to it and has a key in the form of a slug.
\<close>

theorem stored_entities_typed:
  assumes "bcrypt_ok bc" and "run bc url cs initial = (xs, w')"
  shows "(\<forall>s f. file_view (w_db w') s = Some f \<longrightarrow> file_typed (w_now w') s f) \<and>
    (\<forall>s p. paste_view (w_db w') s = Some p \<longrightarrow> paste_typed (w_now w') s p) \<and>
    (\<forall>s b. bucket_view (w_db w') s = Some b \<longrightarrow> bucket_typed (w_now w') s b)"
  using vault_run_typed [OF run_promise [OF assms(2) sys_ok_initial assms(1)] vault_typed_initial]
  by (auto simp: vault_typed_def)

theorem stored_entities_typed_witness:
  "\<exists>f. file_view (w_db (snd (run plain_bcrypt '''' [Pass 5 (replicate 100 0) [], FileUpload demo_request] initial))) demo_slug = Some f \<and>
     file_typed (w_now (snd (run plain_bcrypt '''' [Pass 5 (replicate 100 0) [], FileUpload demo_request] initial))) demo_slug f"
proof -
  let ?r = "run plain_bcrypt '''' [Pass 5 (replicate 100 0) [], FileUpload demo_request] initial"
  have "case file_view (w_db (snd ?r)) demo_slug of None \<Rightarrow> False | Some f \<Rightarrow> True" by code_simp
  then obtain f where "file_view (w_db (snd ?r)) demo_slug = Some f" by (auto split: option.splits)
  with stored_entities_typed [OF plain_bcrypt_ok surjective_pairing] show ?thesis by blast
qed

end
