(* ===== verification/Process_Life.thy ===== *)
theory Process_Life
  imports Process Promises
begin

text \<open>
  The life of the process: what start-up leaves behind on each of its exits, what the process does
  to its data while it runs, what holds when it has ended, and that a shutdown ends.
\<close>

section \<open>Lemmas on lives\<close>



text \<open>The process after start-up, as the lemmas of Process need it.\<close>

lemma started:
  assumes "pools_ok s" and "main_start bc isPrint parsed w s = Runs m0"
  shows "process_inv (po_open s) (ps_world m0) m0" "history [] m0" "same_data w (ps_world m0)"
    "pr_bcrypt (ps_program m0) = bc"
  using main_start_cases [OF assms(1), where bc = bc and isPrint = isPrint and parsed = parsed and w = w] assms(2) by (auto simp: program_of_def)



lemma process_steps_append:
  assumes "process_steps m1 later m2" and "process_steps m evs m1"
  shows "process_steps m (evs @ later) m2"
  using assms
proof (induction rule: process_steps.induct)
  case (snoc m1 later m2 ev m3)
  from process_steps.snoc [OF snoc.IH [OF snoc.prems] snoc.hyps(2)] show ?case by simp
qed simp

lemma finishing_bound:
  assumes "process_steps m later m'" and "list_all finishing later"
    and "process_inv P w0 m" and "quiet_inv (ps_worker m)"
  shows "length later + load m' \<le> load m \<and> quiet_inv (ps_worker m') \<and> process_inv P w0 m'"
  using assms
proof (induction rule: process_steps.induct)
  case (snoc m later m1 ev m2)
  then have IH: "length later + load m1 \<le> load m" "quiet_inv (ps_worker m1)" "process_inv P w0 m1" and fin: "finishing ev" by auto
  have "quiet_inv (ps_worker m2)"
  proof -
    show ?thesis
      using snoc.hyps(2) fin IH(2) quiet_step [of _ "ps_worker m1"]
      by (cases ev) (auto simp: process_step_def main_event_def worker_event_def Let_def main_return_def os_Exit_def
          split: main_phase.splits if_splits option.splits)
  qed
  with load_decreases [OF snoc.hyps(2) fin IH(2)] IH(1) process_inv_step [OF snoc.hyps(2) IH(3)] show ?case by simp
qed simp

lemma load_bound:
  assumes "quiet_inv (ps_worker m)" and "ps_phase m \<noteq> Serving"
  shows "load m \<le> length (ps_requests m) + 5"
proof -
  have "loop_load (wk_loop (ps_worker m)) \<le> 2" by (cases "wk_loop (ps_worker m)") simp_all
  moreover have "phase_load (ps_phase m) \<le> 2" using assms(2) by (cases "ps_phase m") simp_all
  ultimately show ?thesis by (simp add: load_def)
qed

section \<open>A concrete life\<close>

definition demo_pools :: pools where
  "demo_pools = \<lparr>po_env = [], po_open = {}, po_limit = Map.empty, po_next = 0\<rparr>"

fun process_play :: "process_event list \<Rightarrow> process \<Rightarrow> process option" where
  "process_play [] m = Some m"
| "process_play (ev # evs) m = (case process_step ev m of None \<Rightarrow> None | Some m' \<Rightarrow> process_play evs m')"

lemma process_play_steps: "process_play evs v = Some m \<Longrightarrow> process_steps u pre v \<Longrightarrow> process_steps u (pre @ evs) m"
proof (induction evs arbitrary: v pre)
  case (Cons ev evs)
  then obtain v' where v': "process_step ev v = Some v'" "process_play evs v' = Some m" by (auto split: option.splits)
  from Cons.IH [OF v'(2) process_steps.snoc [OF Cons.prems(2) v'(1)]] show ?case by simp
qed simp

lemma main_start_fresh:
  "main_start bc isPrint parsed w s = Runs m \<Longrightarrow>
     ps_phase m = Serving \<and> ps_worker m = started_worker \<and> ps_listener m = Starting \<and> ps_requests m = []"
  by (auto simp: main_start_def split: sum.splits prod.splits)

lemmas start_steps = main_start_def os_MkdirAll_def mkdir_database_def NewLocal_def Open_def sql_Open_def external_def
  po_choice_def db_Close_def SetMaxOpenConns_def demo_pools_def defaults_def demo_world_def initial_def choice_def rest_def

lemmas play_steps = process_step_def main_event_def worker_event_def worker_step.simps started_worker_def NewCleanup_def
  runLoop_return_def close_done_def close_stop_def Let_def os_Exit_def main_return_def

lemma demo_starts: "\<exists>m. main_start plain_bcrypt (\<lambda>s. True) (Inr defaults) demo_world demo_pools = Runs m"
  by (simp add: start_steps)

lemma demo_play:
  assumes "\<And>m. ps_phase m = Serving \<Longrightarrow> ps_worker m = started_worker \<Longrightarrow> ps_listener m = Starting \<Longrightarrow> ps_requests m = [] \<Longrightarrow>
    \<exists>m'. process_play evs m = Some m' \<and> Q m'"
  obtains m0 m where "main_start plain_bcrypt (\<lambda>s. True) (Inr defaults) demo_world demo_pools = Runs m0" "process_steps m0 evs m" "Q m"
proof -
  obtain m0 where m0: "main_start plain_bcrypt (\<lambda>s. True) (Inr defaults) demo_world demo_pools = Runs m0" using demo_starts by blast
  with main_start_fresh [OF m0] assms obtain m where "process_play evs m0 = Some m" "Q m" by blast
  with process_play_steps [OF _ process_steps.none] that [OF m0] show thesis by fastforce
qed

lemma demo_pools_ok [simp]: "pools_ok demo_pools"
  by (simp add: pools_ok_def demo_pools_def)

section \<open>Start-up\<close>

text \<open>
  C35. Start-up, whatever fails: main either exits with status 1, or serves. When it exits the
  data is untouched and no pool of the database is open, except when the file store could not be
  initialised: then os.Exit has skipped the deferred Close and both pools stay open. When it serves,
  the program is the one of the configuration read, the data is untouched, the storage
  directory exists, and both pools are open, the writing one limited to one connection.
\<close>

theorem startup_ready:
  assumes "pools_ok s"
  shows "case main_start bc isPrint parsed w s of
      Exits code w' s' \<Rightarrow> code = 1 \<and> same_data w w' \<and>
        (po_open s' = po_open s \<or>
         (\<exists>v e p q. NewLocal v = (Inl e, w') \<and> p \<noteq> q \<and> {p, q} \<inter> po_open s = {} \<and> po_open s' = po_open s \<union> {p, q}))
    | Runs m \<Rightarrow> (\<exists>cfg. parsed = Inr cfg \<and> ps_program m = program_of bc isPrint cfg) \<and> same_data w (ps_world m) \<and>
        [] \<in> fs_dirs (w_fs (ps_world m)) \<and> ps_phase m = Serving \<and>
        po_open (ps_pools m) = po_open s \<union> {WriteDB (ps_db m), ReadDB (ps_db m)} \<and>
        WriteDB (ps_db m) \<noteq> ReadDB (ps_db m) \<and> po_limit (ps_pools m) (WriteDB (ps_db m)) = Some 1"
  using main_start_cases [OF assms, where bc = bc and isPrint = isPrint and parsed = parsed and w = w]
  by (auto simp: process_inv_def split: startup.splits)

theorem startup_ready_witness:
  "\<exists>w s. main_start plain_bcrypt (\<lambda>s. True) (Inr defaults) (demo_world\<lparr>w_env := [0, 0, 1]\<rparr>) demo_pools = Exits 1 w s \<and>
     po_open s \<noteq> {} \<and> same_data (demo_world\<lparr>w_env := [0, 0, 1]\<rparr>) w"
proof -
  let ?v = "demo_world\<lparr>w_env := [0, 0, 1]\<rparr>"
  have "\<exists>w s. main_start plain_bcrypt (\<lambda>s. True) (Inr defaults) ?v demo_pools = Exits 1 w s \<and> 0 \<in> po_open s"
    by (simp add: start_steps)
  then obtain w s where m: "main_start plain_bcrypt (\<lambda>s. True) (Inr defaults) ?v demo_pools = Exits 1 w s" "0 \<in> po_open s"
    by blast
  with startup_ready [OF demo_pools_ok, where bc = plain_bcrypt and isPrint = "\<lambda>s. True" and parsed = "Inr defaults" and w = ?v]
  show ?thesis by (intro exI [of _ w] exI [of _ s]) auto
qed

section \<open>Running and ending\<close>



text \<open>
  C36. How the process can end, and in which state: with status 0 only after a signal, with both
  pools closed, the cleanup goroutine gone unless a sweep had panicked, and every request answered
  unless the deadline of ten seconds passed; with status 1 only because listening failed, and then
  the pools are never closed; with status 2 only after a panic of a sweep. While it has not ended
  both pools are open.
\<close>

theorem process_life:
  assumes "pools_ok s" and "main_start bc isPrint parsed w s = Runs m0" and "process_steps m0 evs m"
  shows "case ps_phase m of
      Ended code \<Rightarrow>
        code = 0 \<and> Signal \<in> set evs \<and> po_open (ps_pools m) = po_open s \<and>
          (Work ESweepPanic \<notin> set evs \<longrightarrow> wk_loop (ps_worker m) = Exited) \<and>
          (Deadline \<notin> set evs \<longrightarrow> ps_requests m = []) \<or>
        code = 1 \<and> ListenFails \<in> set evs \<and> {WriteDB (ps_db m), ReadDB (ps_db m)} \<subseteq> po_open (ps_pools m) \<or>
        code = 2 \<and> Work ESweepPanic \<in> set evs
    | _ \<Rightarrow> {WriteDB (ps_db m), ReadDB (ps_db m)} \<subseteq> po_open (ps_pools m) \<and> \<not> wk_crashed (ps_worker m)"
proof -
  note st = started [OF assms(1,2)]
  from process_steps_inv [OF assms(3) st(1,2)] have inv: "process_inv (po_open s) (ps_world m0) m" and h: "history evs m" by auto
  show ?thesis
  proof (cases "ps_phase m")
    case (Ended code)
    have "Work ESweepPanic \<notin> set evs \<longrightarrow> wk_stopper (ps_worker m) = Returned \<longrightarrow> wk_loop (ps_worker m) = Exited"
      using h quiet_returned by (auto simp: history_def)
    moreover have "code = 0 \<or> code = 1 \<or> code = 2" using inv Ended by (auto simp: process_inv_def)
    ultimately show ?thesis using inv h Ended
      by (elim disjE [of "code = 0"] disjE [of "code = 1"]) (simp_all add: process_inv_def history_def)
  qed (use inv in \<open>auto simp: process_inv_def\<close>)
qed

theorem process_life_witness:
  "\<exists>m0 m. main_start plain_bcrypt (\<lambda>s. True) (Inr defaults) demo_world demo_pools = Runs m0 \<and>
     process_steps m0 [Listen, Work ETick, Signal, Work ESweepEnd, Work EStopSeen, StopReturns, Drained] m \<and>
     ps_phase m = Ended 0 \<and> po_open (ps_pools m) = {} \<and> wk_loop (ps_worker m) = Exited"
proof -
  let ?evs = "[Listen, Work ETick, Signal, Work ESweepEnd, Work EStopSeen, StopReturns, Drained]"
  obtain m0 m where m: "main_start plain_bcrypt (\<lambda>s. True) (Inr defaults) demo_world demo_pools = Runs m0"
    "process_steps m0 ?evs m" "ps_phase m = Ended 0"
    by (rule demo_play [where evs = ?evs and Q = "\<lambda>m. ps_phase m = Ended 0"]) (simp_all add: play_steps)
  from process_life [OF demo_pools_ok m(1,2)] m show ?thesis by (intro exI [of _ m0] exI [of _ m]) (simp add: demo_pools_def)
qed

text \<open>
  C37. A shutdown ends. After a signal, if no sweep panics, the program itself (answers, the end
  of a sweep, the goroutine, main) takes at most five steps more than there are requests in
  flight, and it is never stuck: until it has ended one of these steps is possible.
\<close>

theorem shutdown_terminates:
  assumes "pools_ok s" and "main_start bc isPrint parsed w s = Runs m0" and "process_steps m0 evs m"
    and "Signal \<in> set evs" and "Work ESweepPanic \<notin> set evs"
  shows "\<forall>later m'. process_steps m later m' \<and> list_all finishing later \<longrightarrow>
      length later \<le> length (ps_requests m) + 5 \<and>
      ((\<exists>code. ps_phase m' = Ended code) \<or> (\<exists>ev m''. finishing ev \<and> process_step ev m' = Some m''))"
proof (intro allI impI, elim conjE)
  fix later m' assume l: "process_steps m later m'" "list_all finishing later"
  note st = started [OF assms(1,2)]
  from process_steps_inv [OF assms(3) st(1,2)] have inv: "process_inv (po_open s) (ps_world m0) m" and h: "history evs m" by auto
  with assms(4,5) have q: "quiet_inv (ps_worker m)" "ps_phase m \<noteq> Serving" by (auto simp: history_def)
  note f = finishing_bound [OF l inv q(1)]
  from process_steps_inv [OF process_steps_append [OF l(1) assms(3)] st(1,2)] assms(4) have "ps_phase m' \<noteq> Serving"
    by (auto simp: history_def)
  with f finishing_enabled [of "po_open s" "ps_world m0" m'] load_bound [OF q]
  show "length later \<le> length (ps_requests m) + 5 \<and>
      ((\<exists>code. ps_phase m' = Ended code) \<or> (\<exists>ev m''. finishing ev \<and> process_step ev m' = Some m''))" by fastforce
qed

theorem shutdown_terminates_witness:
  "\<exists>m0 m. main_start plain_bcrypt (\<lambda>s. True) (Inr defaults) demo_world demo_pools = Runs m0 \<and>
     process_steps m0 [Work ETick, Signal] m \<and>
     (\<exists>ev m''. finishing ev \<and> process_step ev m = Some m'')"
proof -
  obtain m0 m where m: "main_start plain_bcrypt (\<lambda>s. True) (Inr defaults) demo_world demo_pools = Runs m0"
    "process_steps m0 [Work ETick, Signal] m" "ps_phase m = Stopping"
    by (rule demo_play [where evs = "[Work ETick, Signal]" and Q = "\<lambda>m. ps_phase m = Stopping"]) (simp_all add: play_steps)
  have "Signal \<in> set [Work ETick, Signal]" "Work ESweepPanic \<notin> set [Work ETick, Signal]" by simp_all
  from shutdown_terminates [OF demo_pools_ok m(1,2) this, THEN spec, THEN spec, THEN mp, of "[]" m] m(3) have
    "\<exists>ev m''. finishing ev \<and> process_step ev m = Some m''" by simp
  with m(1,2) show ?thesis by blast
qed

end
