(* ===== verification/Cooperation.thy ===== *)
theory Cooperation
  imports Calls
begin

text \<open>
  Threads side by side. A discipline says what a thread may rely on at each of its accesses and
  what it guarantees of it; a pool of threads that keep their disciplines keeps the common
  invariant in every interleaving of their accesses.
\<close>

section \<open>Disciplines\<close>

text \<open>
  \<open>di_avoid\<close>: strings that are never drawn. \<open>di_inv\<close>: what holds between any two accesses.
  \<open>di_guar\<close>: the worlds before and after each access of the thread. \<open>di_own\<close>: a part of the world
  the others leave as it is. \<open>di_done\<close>: an access after which nothing more is demanded.
\<close>

record 's discipline =
  di_avoid :: "string set"
  di_inv :: "world \<Rightarrow> bool"
  di_guar :: "world \<Rightarrow> world \<Rightarrow> bool"
  di_own :: "world \<Rightarrow> 's"
  di_done :: "world \<Rightarrow> world \<Rightarrow> bool"

primrec sat :: "'s discipline \<Rightarrow> ('s \<Rightarrow> 'a \<Rightarrow> bool) \<Rightarrow> 'a thread \<Rightarrow> 's \<Rightarrow> bool" where
  "sat D Q (Ret a) = (\<lambda>x. Q x a)"
| "sat D Q (Act f) = (\<lambda>x. \<forall>w. di_inv D w \<longrightarrow> di_own D w = x \<longrightarrow>
     (case map_prod (sat D Q) id (f w) of (p, w1) \<Rightarrow> di_done D w w1 \<or> di_guar D w w1 \<and> p (di_own D w1)))"
| "sat D Q (Draw n g) = (\<lambda>x. \<forall>w. di_inv D w \<longrightarrow> di_own D w = x \<longrightarrow>
     (case slug_io n w of (r, w1) \<Rightarrow> r \<notin> Inr ` di_avoid D \<longrightarrow>
        di_done D w w1 \<or> di_guar D w w1 \<and> sat D Q (g r) (di_own D w1)))"

lemma sat_ActI:
  "(\<And>w t w1. di_inv D w \<Longrightarrow> di_own D w = x \<Longrightarrow> f w = (t, w1) \<Longrightarrow> di_done D w w1 \<or> di_guar D w w1 \<and> sat D Q t (di_own D w1)) \<Longrightarrow>
    sat D Q (Act f) x"
  by (simp add: map_prod_def split: prod.split)

lemma sat_bind:
  assumes "sat D P t x" and "\<And>a y. P y a \<Longrightarrow> sat D Q (k a) y"
  shows "sat D Q (t_bind t k) x"
  using assms(1)
proof (induction t arbitrary: x)
  case (Act f)
  show ?case
    unfolding t_bind.simps
  proof (rule sat_ActI)
    fix w t w1 assume w: "di_inv D w" "di_own D w = x" "map_prod (\<lambda>t. t_bind t k) id (f w) = (t, w1)"
    then obtain u where f: "f w = (u, w1)" "t = t_bind u k" by (cases "f w") auto
    with Act.prems w(1,2) have "di_done D w w1 \<or> di_guar D w w1 \<and> sat D P u (di_own D w1)" by auto
    with Act.IH [of w] f show "di_done D w w1 \<or> di_guar D w w1 \<and> sat D Q t (di_own D w1)" by auto
  qed
next
  case (Draw n g)
  then show ?case by (fastforce split: prod.splits)
qed (use assms(2) in simp)

lemma sat_weaken: "sat D P t x \<Longrightarrow> (\<And>y a. P y a \<Longrightarrow> Q y a) \<Longrightarrow> sat D Q t x"
  using sat_bind [of D P t x Q Ret] by (simp add: bind_Ret)

lemma sat_act:
  assumes "\<And>w r w'. di_inv D w \<Longrightarrow> di_own D w = x \<Longrightarrow> m w = (r, w') \<Longrightarrow>
    di_done D w w' \<or> di_guar D w w' \<and> Q (di_own D w') r"
  shows "sat D Q (act m) x"
  unfolding act_def by (rule sat_ActI) (use assms in \<open>fastforce simp: map_prod_def split: prod.splits\<close>)

lemma sat_clock:
  assumes "\<And>w. di_inv D w \<Longrightarrow> di_own D w = x \<Longrightarrow> di_guar D w w \<and> sat D Q (k (w_now w)) x"
  shows "sat D Q (clock k) x"
  unfolding clock_def by (rule sat_ActI) (use assms in auto)

lemma sat_Draw:
  assumes "\<And>w r w'. di_inv D w \<Longrightarrow> di_own D w = x \<Longrightarrow> slug_io n w = (r, w') \<Longrightarrow> r \<notin> Inr ` di_avoid D \<Longrightarrow>
    di_guar D w w' \<and> Q (di_own D w') r"
  shows "sat D Q (Draw n Ret) x"
  using assms by (auto split: prod.splits)

lemma sat_wrap:
  assumes "sat D P m x" and "\<And>a y. P y (Inr a) \<Longrightarrow> sat D Q (k a) y" and "\<And>e y. P y (Inl e) \<Longrightarrow> Q y (Inl (Wrap c e))"
  shows "sat D Q (t_wrap c m k) x"
  unfolding t_wrap_def by (rule sat_bind [OF assms(1)]) (use assms(2,3) in \<open>auto split: sum.split\<close>)

lemma sat_try:
  assumes "sat D P m x" and "\<And>a y. P y (Inr a) \<Longrightarrow> sat D Q (k a) y" and "\<And>e y. P y (Inl e) \<Longrightarrow> Q y (Inl e)"
  shows "sat D Q (t_try m k) x"
  unfolding t_try_def by (rule sat_bind [OF assms(1)]) (use assms(2,3) in \<open>auto split: sum.split\<close>)

section \<open>Threads without a part of their own\<close>

definition ensures :: "unit discipline \<Rightarrow> ('a \<Rightarrow> bool) \<Rightarrow> 'a thread \<Rightarrow> bool" where
  "ensures D Q t \<longleftrightarrow> sat D (\<lambda>x. Q) t ()"

definition access :: "unit discipline \<Rightarrow> ('a \<Rightarrow> bool) \<Rightarrow> (world \<Rightarrow> 'a \<times> world) \<Rightarrow> bool" where
  "access D Q m \<longleftrightarrow> (\<forall>w r w'. di_inv D w \<longrightarrow> m w = (r, w') \<longrightarrow> di_done D w w' \<or> di_guar D w w' \<and> Q r)"

lemma ensures_Ret [simp]: "ensures D Q (Ret a) \<longleftrightarrow> Q a"
  by (simp add: ensures_def)

lemma ensures_bind: "ensures D P t \<Longrightarrow> (\<And>a. P a \<Longrightarrow> ensures D Q (k a)) \<Longrightarrow> ensures D Q (t_bind t k)"
  unfolding ensures_def by (rule sat_bind [where P = "\<lambda>x. P"]) auto

lemma ensures_act: "access D Q m \<Longrightarrow> ensures D Q (act m)"
  unfolding ensures_def access_def by (rule sat_act) auto

lemma ensures_clock:
  "(\<And>w. di_inv D w \<Longrightarrow> di_guar D w w) \<Longrightarrow> (\<And>w. di_inv D w \<Longrightarrow> ensures D Q (k (w_now w))) \<Longrightarrow> ensures D Q (clock k)"
  unfolding ensures_def by (rule sat_clock) auto

lemma ensures_wrap:
  "ensures D P m \<Longrightarrow> (\<And>a. P (Inr a) \<Longrightarrow> ensures D Q (k a)) \<Longrightarrow> (\<And>e. Q (Inl e)) \<Longrightarrow> ensures D Q (t_wrap c m k)"
  unfolding ensures_def by (rule sat_wrap [where P = "\<lambda>x. P"]) auto

lemma ensures_try:
  "ensures D P m \<Longrightarrow> (\<And>a. P (Inr a) \<Longrightarrow> ensures D Q (k a)) \<Longrightarrow> (\<And>e. Q (Inl e)) \<Longrightarrow> ensures D Q (t_try m k)"
  unfolding ensures_def by (rule sat_try [where P = "\<lambda>x. P"]) auto

lemma ensures_wrap_undo:
  assumes "ensures D P m" and "\<And>a. P (Inr a) \<Longrightarrow> ensures D Q (k a)" and "ensures D (\<lambda>u. True) undo" and "\<And>e. Q (Inl e)"
  shows "ensures D Q (t_wrap_undo c m undo k)"
  unfolding t_wrap_undo_def
  by (rule ensures_bind [OF assms(1)]) (use assms in \<open>auto intro: ensures_bind split: sum.split\<close>)

lemma ensures_lookup:
  assumes "ensures D P m" and "\<And>a. P (Inr a) \<Longrightarrow> ensures D Q (k a)" and "\<And>e. Q (Inl e)"
  shows "ensures D Q (t_lookup nf c m k)"
  unfolding t_lookup_def by (rule ensures_bind [OF assms(1)]) (use assms(2,3) in \<open>auto split: sum.split\<close>)

lemma ensures_client_write:
  assumes "\<And>w. di_inv D w \<Longrightarrow> di_guar D w (rest w)" and "\<And>c. ensures D Q (k c)"
  shows "ensures D Q (client_write k)"
  unfolding ensures_def client_write_def by (rule sat_ActI) (use assms in \<open>auto simp: ensures_def\<close>)

section \<open>The program\<close>

text \<open>
  The calls in progress and the world. A call takes its next access; a call begins; time passes.
  Three limits make the system an environment for statements about one entity: strings that are
  not drawn, calls that are not made, and a bound on the clock.
\<close>

type_synonym system = "outcome thread list \<times> world"

record limits =
  li_avoid :: "string set"
  li_calls :: "call \<Rightarrow> bool"
  li_clock :: "instant \<Rightarrow> bool"

definition elapse :: "duration \<Rightarrow> 8 word list \<Rightarrow> nat list \<Rightarrow> world \<Rightarrow> world" where
  "elapse d bs env w = w\<lparr>w_now := w_now w + \<bar>d\<bar>, w_rand := bs, w_env := env\<rparr>"

fun drawn_by :: "'a thread \<Rightarrow> world \<Rightarrow> string result option" where
  "drawn_by (Draw n g) w = Some (fst (slug_io n w))" | "drawn_by t w = None"

fun takes_time :: "call \<Rightarrow> bool" where
  "takes_time (Pass d bs env) = True" | "takes_time c = False"

inductive sys_step :: "bcrypt \<Rightarrow> string \<Rightarrow> limits \<Rightarrow> system \<Rightarrow> system \<Rightarrow> bool" for bc url L where
  move: "i < length ts \<Longrightarrow> advance (ts ! i) w = Some (t, w') \<Longrightarrow> drawn_by (ts ! i) w \<notin> Some ` Inr ` li_avoid L \<Longrightarrow>
    sys_step bc url L (ts, w) (ts[i := t], w')"
| begins: "li_calls L c \<Longrightarrow> \<not> takes_time c \<Longrightarrow> sys_step bc url L (ts, w) (ts @ [thread_of bc url c], w)"
| time: "li_clock L (w_now w + \<bar>d\<bar>) \<Longrightarrow> sys_step bc url L (ts, w) (ts, elapse d bs env w)"

inductive_cases sys_stepE: "sys_step bc url L (ts, w) c'"

lemmas sys_step_cases = sys_stepE [consumes 1, case_names move begins time]

definition unlimited :: limits where
  "unlimited = \<lparr>li_avoid = {}, li_calls = (\<lambda>c. True), li_clock = (\<lambda>t. True)\<rparr>"

text \<open>A move of a thread that keeps its discipline.\<close>

lemma sat_move:
  assumes "sat D Q t x" and "di_inv D w" and "di_own D w = x" and "advance t w = Some (t', w')"
    and "drawn_by t w \<notin> Some ` Inr ` di_avoid D"
  shows "di_done D w w' \<or> di_guar D w w' \<and> sat D Q t' (di_own D w')"
  using assms by (cases t) (force simp: map_prod_def split: prod.splits)+

text \<open>
  A pool: all threads share a discipline, whose invariant passing time keeps.
\<close>

locale pool =
  fixes D :: "unit discipline" and L :: limits and bc :: bcrypt and url :: string
  assumes avoids: "di_avoid D = li_avoid L" and never: "\<not> di_done D w w'"
    and keeps: "di_inv D w \<Longrightarrow> di_guar D w w' \<Longrightarrow> di_inv D w'"
    and passing: "di_inv D w \<Longrightarrow> li_clock L (w_now w + \<bar>d\<bar>) \<Longrightarrow> di_inv D (elapse d bs env w)"
    and calls: "li_calls L c \<Longrightarrow> \<not> takes_time c \<Longrightarrow> ensures D (\<lambda>x. True) (thread_of bc url c)"
begin

lemma moves:
  assumes "ensures D Q t" and "di_inv D w" and "advance t w = Some (t', w')" and "drawn_by t w \<notin> Some ` Inr ` li_avoid L"
  shows "di_guar D w w' \<and> di_inv D w' \<and> ensures D Q t'"
  using sat_move [of D "\<lambda>x. Q" t "()" w t' w'] assms avoids never keeps by (simp add: ensures_def)

definition kept :: "system \<Rightarrow> bool" where
  "kept c = (case c of (ts, w) \<Rightarrow> di_inv D w \<and> list_all (ensures D (\<lambda>x. True)) ts)"

lemma kept_step:
  assumes "sys_step bc url L c c'" and "kept c"
  shows "kept c'" and "di_guar D (snd c) (snd c') \<or> snd c' = snd c \<or>
    (\<exists>d bs env. snd c' = elapse d bs env (snd c) \<and> li_clock L (w_now (snd c) + \<bar>d\<bar>))"
proof -
  obtain ts w where c: "c = (ts, w)" by (rule prod.exhaust)
  with assms(2) have inv: "di_inv D w" "list_all (ensures D (\<lambda>x. True)) ts" by (simp_all add: kept_def)
  from assms(1) [unfolded c] have "kept c' \<and> (di_guar D w (snd c') \<or> snd c' = w \<or>
    (\<exists>d bs env. snd c' = elapse d bs env w \<and> li_clock L (w_now w + \<bar>d\<bar>)))"
  proof (cases rule: sys_step_cases)
    case (move i t w')
    with inv have "ensures D (\<lambda>x. True) (ts ! i)" by (simp add: list_all_length)
    from moves [OF this inv(1) move(3,4)] inv(2) show ?thesis
      using move by (auto simp: kept_def list_all_length nth_list_update)
  next
    case (begins d)
    with inv calls show ?thesis by (auto simp: kept_def)
  next
    case (time d bs env)
    with inv passing have "kept c'" by (simp add: kept_def)
    moreover have "snd c' = elapse d bs env w" "li_clock L (w_now w + \<bar>d\<bar>)" using time by simp_all
    ultimately show ?thesis by blast
  qed
  then show "kept c'" "di_guar D (snd c) (snd c') \<or> snd c' = snd c \<or>
    (\<exists>d bs env. snd c' = elapse d bs env (snd c) \<and> li_clock L (w_now (snd c) + \<bar>d\<bar>))" by (simp_all add: c)
qed

lemma kept_reachable: "(sys_step bc url L)\<^sup>*\<^sup>* c c' \<Longrightarrow> kept c \<Longrightarrow> kept c'"
  by (induction rule: rtranclp_induct) (auto intro: kept_step)

text \<open>What every access and passing time respect, the reachable worlds respect.\<close>

lemma kept_related:
  assumes "(sys_step bc url L)\<^sup>*\<^sup>* c c'" and "kept c" and "\<And>w. R w w" and "\<And>u v w. R u v \<Longrightarrow> R v w \<Longrightarrow> R u w"
    and "\<And>w w'. di_inv D w \<Longrightarrow> di_guar D w w' \<Longrightarrow> R w w'" and "\<And>w d bs env. R w (elapse d bs env w)"
  shows "R (snd c) (snd c')"
  using assms(1)
proof (induction rule: rtranclp_induct)
  case (step c1 c2)
  have k: "kept c1" by (rule kept_reachable [OF step(1) assms(2)])
  then have "di_inv D (snd c1)" by (auto simp: kept_def)
  with kept_step(2) [OF step(2) k] assms(3,5,6) have "R (snd c1) (snd c2)" by auto
  with step(3) assms(4) show ?case by blast
qed (rule assms(3))

end

text \<open>
  A pool in which the thread at index i has a part of the world of its own, which the others and
  passing time leave as it is.
\<close>

locale owned_pool = pool +
  fixes D0 :: "'s discipline"
  assumes same: "di_inv D0 = di_inv D" "di_avoid D0 = li_avoid L" "\<not> di_done D0 w w'"
    and others: "di_inv D w \<Longrightarrow> di_guar D w w' \<Longrightarrow> di_own D0 w' = di_own D0 w"
    and owner: "di_inv D w \<Longrightarrow> di_guar D0 w w' \<Longrightarrow> di_inv D w'"
    and passing_own: "di_own D0 (elapse d bs env w) = di_own D0 w"
begin

definition owned :: "nat \<Rightarrow> ('s \<Rightarrow> outcome \<Rightarrow> bool) \<Rightarrow> system \<Rightarrow> bool" where
  "owned i Q c = (case c of (ts, w) \<Rightarrow> i < length ts \<and> di_inv D w \<and> sat D0 Q (ts ! i) (di_own D0 w) \<and>
     (\<forall>j < length ts. j \<noteq> i \<longrightarrow> ensures D (\<lambda>x. True) (ts ! j)))"

lemma owned_step:
  assumes "sys_step bc url L c c'" and "owned i Q c"
  shows "owned i Q c'"
proof -
  obtain ts w where c: "c = (ts, w)" by (rule prod.exhaust)
  with assms(2) have inv: "i < length ts" "di_inv D w" "sat D0 Q (ts ! i) (di_own D0 w)"
    "\<And>j. j < length ts \<Longrightarrow> j \<noteq> i \<Longrightarrow> ensures D (\<lambda>x. True) (ts ! j)" by (auto simp: owned_def)
  from assms(1) [unfolded c] show ?thesis
  proof (cases rule: sys_step_cases)
    case (move j t w')
    show ?thesis
    proof (cases "j = i")
      case True
      with move have "di_guar D0 w w' \<and> sat D0 Q t (di_own D0 w')"
        using sat_move [OF inv(3) _ refl, of t w'] same inv(2) by auto
      with owner [OF inv(2)] inv(1,4) show ?thesis using move True by (simp add: owned_def)
    next
      case False
      with moves [OF inv(4) inv(2) move(3,4)] move(2) have "di_guar D w w' \<and> di_inv D w' \<and> ensures D (\<lambda>x. True) t" by simp
      with others [OF inv(2)] inv(1,3,4) show ?thesis
        using move False by (auto simp: owned_def nth_list_update)
    qed
  next
    case (begins d)
    with inv calls show ?thesis by (auto simp: owned_def nth_append less_Suc_eq)
  next
    case (time d bs env)
    with inv passing passing_own show ?thesis by (simp add: owned_def)
  qed
qed

lemma owned_reachable: "(sys_step bc url L)\<^sup>*\<^sup>* c c' \<Longrightarrow> owned i Q c \<Longrightarrow> owned i Q c'"
  by (induction rule: rtranclp_induct) (auto intro: owned_step)

end

end
