(* ===== verification/Keeper.thy ===== *)
theory Keeper
  imports Cooperation
begin

text \<open>
  What every call guarantees at each of its accesses: the invariant of the program holds after
  it, an entity that is not drawn anew only loses the freshness of its mark or disappears, and
  a protected file, one that has not expired and that nobody deletes, is not touched at all.
\<close>

section \<open>The discipline of a call\<close>

text \<open>From the first to the second instant of T nobody has a reason to remove the file k.\<close>

definition quiet :: "instant \<times> instant \<Rightarrow> string \<Rightarrow> world \<Rightarrow> bool" where
  "quiet T k w \<longleftrightarrow> fst T \<le> w_now w \<and> w_now w \<le> snd T \<and>
     (\<forall>f. file_view (w_db w) k = Some f \<longrightarrow> \<not> is_expired (snd T) (f_ExpiresAt f)) \<and>
     (\<forall>s b. bucket_view (w_db w) s = Some b \<longrightarrow> k \<notin> bucket_keys b)"

text \<open>\<open>S\<close>: slugs that are not drawn again; \<open>P\<close>: the slugs of the protected files.\<close>

definition evolving :: "string set \<Rightarrow> db \<Rightarrow> db \<Rightarrow> bool" where
  "evolving S d d' \<longleftrightarrow> (\<forall>s \<in> S. evolves file_view file_used s d d' \<and> evolves paste_view paste_used s d d' \<and>
     evolves bucket_view bucket_used s d d')"

definition keeper :: "string set \<Rightarrow> string set \<Rightarrow> instant \<times> instant \<Rightarrow> unit discipline" where
  "keeper S P T =
     \<lparr>di_avoid = S, di_inv = (\<lambda>w. sys_ok w \<and> (\<forall>k \<in> P. quiet T k w)),
      di_guar = (\<lambda>w w'. sys_ok w' \<and> w_now w' = w_now w \<and> evolving S (w_db w) (w_db w') \<and>
        (\<forall>k \<in> P. quiet T k w' \<and> file_view (w_db w') k = file_view (w_db w) k \<and>
           fs_content (w_fs w') k = fs_content (w_fs w) k)),
      di_own = (\<lambda>w. ()), di_done = (\<lambda>w w'. False)\<rparr>"

lemma keeper_sel [simp]:
  "di_avoid (keeper S P T) = S" "di_own (keeper S P T) w = ()" "\<not> di_done (keeper S P T) w w'"
  by (simp_all add: keeper_def)

section \<open>What an access may do\<close>

lemma keeper_env: "same_but_env w w' \<Longrightarrow> di_inv (keeper S P T) w \<Longrightarrow> di_guar (keeper S P T) w w'"
  by (auto simp: keeper_def sys_ok_def quiet_def same_but_env_def same_but_fs_def evolving_def evolves_refl)

lemma keeper_rand:
  assumes "w_now w' = w_now w" "w_fs w' = w_fs w" "w_db w' = w_db w" and "di_inv (keeper S P T) w"
  shows "di_guar (keeper S P T) w w'"
  using assms by (auto simp: keeper_def sys_ok_def quiet_def evolving_def evolves_refl)

lemma keeper_fs:
  assumes "same_but_fs w w'" and "fs_ok (w_fs w) \<Longrightarrow> fs_ok (w_fs w')"
    and "\<And>k. k \<in> P \<Longrightarrow> fs_content (w_fs w') k = fs_content (w_fs w) k" and "di_inv (keeper S P T) w"
  shows "di_guar (keeper S P T) w w'"
  using assms by (auto simp: keeper_def sys_ok_def quiet_def same_but_fs_def evolving_def evolves_refl)

lemma keeper_files:
  assumes db: "same_but_db w w' \<and> not_files (w_db w') = not_files (w_db w)" and "files_ok (w_db w) \<Longrightarrow> files_ok (w_db w')"
    and "\<And>s. s \<in> S \<Longrightarrow> evolves file_view file_used s (w_db w) (w_db w')"
    and "\<And>k. k \<in> P \<Longrightarrow> file_view (w_db w') k = file_view (w_db w) k" and inv: "di_inv (keeper S P T) w"
  shows "di_guar (keeper S P T) w w'"
proof -
  note o = other_tables(1) [OF conjunct2 [OF db]]
  with assms show ?thesis by (auto simp: keeper_def sys_ok_def quiet_def same_but_db_def evolving_def evolves_refl)
qed

lemma keeper_pastes:
  assumes db: "same_but_db w w' \<and> not_pastes (w_db w') = not_pastes (w_db w)" and "pastes_ok (w_db w) \<Longrightarrow> pastes_ok (w_db w')"
    and "\<And>s. s \<in> S \<Longrightarrow> evolves paste_view paste_used s (w_db w) (w_db w')" and inv: "di_inv (keeper S P T) w"
  shows "di_guar (keeper S P T) w w'"
proof -
  note o = other_tables(2) [OF conjunct2 [OF db]]
  with assms show ?thesis by (auto simp: keeper_def sys_ok_def quiet_def same_but_db_def evolving_def evolves_refl)
qed

lemma keeper_buckets:
  assumes db: "same_but_db w w' \<and> not_buckets (w_db w') = not_buckets (w_db w)" and "buckets_ok (w_db w) \<Longrightarrow> buckets_ok (w_db w')"
    and "\<And>s. s \<in> S \<Longrightarrow> evolves bucket_view bucket_used s (w_db w) (w_db w')"
    and "\<And>s b k. k \<in> P \<Longrightarrow> bucket_view (w_db w') s = Some b \<Longrightarrow> k \<in> bucket_keys b \<Longrightarrow>
      \<exists>s' b'. bucket_view (w_db w) s' = Some b' \<and> k \<in> bucket_keys b'"
    and inv: "di_inv (keeper S P T) w"
  shows "di_guar (keeper S P T) w w'"
proof -
  note o = other_tables(3) [OF conjunct2 [OF db]]
  have "\<And>s b k. k \<in> P \<Longrightarrow> bucket_view (w_db w') s = Some b \<Longrightarrow> k \<notin> bucket_keys b"
    using assms(4) inv by (fastforce simp: keeper_def quiet_def)
  with o assms(1-3) inv show ?thesis
    by (auto simp: keeper_def sys_ok_def quiet_def same_but_db_def evolving_def evolves_refl)
qed

section \<open>The accesses\<close>

named_theorems accesses

lemma keeper_ok: "di_inv (keeper S P T) w \<Longrightarrow> sys_ok w \<and> files_ok (w_db w) \<and> pastes_ok (w_db w) \<and> buckets_ok (w_db w)"
  by (simp add: keeper_def sys_ok_def)

lemma access_slug [accesses]: "ensures (keeper S P T) (\<lambda>r. \<forall>s. r = Inr s \<longrightarrow> s \<notin> S) (Draw n Ret)"
  unfolding ensures_def by (rule sat_Draw) (auto intro!: keeper_rand dest: slug_io_frame)

lemma access_hash [accesses]: "access (keeper S P T) (\<lambda>r. True) (hash_password bc p)"
  by (auto simp: access_def intro!: keeper_rand dest: hash_password_frame)

lemma access_Write [accesses]: "k \<notin> P \<Longrightarrow> access (keeper S P T) (\<lambda>r. True) (be_Write LocalFS k r)"
  unfolding access_def
proof (intro allI impI disjI2 conjI TrueI)
  fix w x w' assume "k \<notin> P" "di_inv (keeper S P T) w" and m: "be_Write LocalFS k r w = (x, w')"
  then show "di_guar (keeper S P T) w w'"
    using lfs.Write_frame [OF m] lfs.Write_inv [OF m] lfs.Write_Inr [of k r w _ w'] lfs.Write_Inl [of k r w _ w']
    by (intro keeper_fs) (cases x; auto)+
qed

lemma access_Delete [accesses]: "k \<notin> P \<Longrightarrow> access (keeper S P T) (\<lambda>r. True) (be_Delete LocalFS k)"
  unfolding access_def
proof (intro allI impI disjI2 conjI TrueI)
  fix w x w' assume "k \<notin> P" "di_inv (keeper S P T) w" and m: "be_Delete LocalFS k w = (x, w')"
  then show "di_guar (keeper S P T) w w'"
    using lfs.Delete_frame [OF m] lfs.Delete_inv [OF m] lfs.Delete_Inr [of k w _ w'] lfs.Delete_Inl [of k w _ w']
    by (intro keeper_fs) (cases x; auto)+
qed

lemma access_env:
  assumes "\<And>w r w'. m w = (r, w') \<Longrightarrow> same_but_env w w'"
    and "\<And>w r w'. di_inv (keeper S P T) w \<Longrightarrow> m w = (r, w') \<Longrightarrow> Q r"
  shows "access (keeper S P T) Q m"
  using assms keeper_env unfolding access_def by blast

lemma access_Read [accesses]: "access (keeper S P T) (\<lambda>r. True) (be_Read LocalFS k)"
  by (rule access_env [OF lfs.Read_frame]) simp_all

lemma access_lookups [accesses]:
  "access (keeper S P T) (\<lambda>r. True) (rp_GetBySlug fileRepo k)"
  "access (keeper S P T) (\<lambda>r. True) (rp_GetBySlug pasteRepo k)"
  by (rule access_env, erule fr.Get_frame pr.Get_frame, rule TrueI)+

text \<open>The statements that read a bucket: whatever row was read before, its files are not protected.\<close>

lemma bucket_statements:
  "bucketRepo_row k w = (r, w') \<Longrightarrow> same_but_env w w'"
  "cursor c m w = (u, w') \<Longrightarrow> same_but_env w w'"
  "bucketRepo_expired w = (rs, w') \<Longrightarrow> same_but_env w w'"
  by (auto simp: bucketRepo_row_def cursor_def bucketRepo_expired_def sql_Query_def split: if_splits sum.splits option.splits)

lemma selected_keys:
  assumes "buckets_ok d" and "key \<in> bf_StorageKey ` set (map bf_of_row (select_bucket_files k d))"
  shows "\<exists>b. bucket_view d k = Some b \<and> key \<in> bucket_keys b"
proof (cases "tbl_select br_slug k (db_buckets d)")
  case None
  with no_orphan_files [OF assms(1)] assms(2) show ?thesis by simp
next
  case (Some r)
  with assms(2) show ?thesis by (simp add: bucket_view_def bucket_keys_def)
qed

lemma access_statements [accesses]:
  "access (keeper S P T) (\<lambda>r. True) (bucketRepo_row k)"
  "access (keeper S P T) (\<lambda>r. True) (cursor c m)"
  "access (keeper S P T) (\<lambda>r. True) bucketRepo_expired"
  "access (keeper S P T) (\<lambda>r. \<forall>fs. r = Inr fs \<longrightarrow> bf_StorageKey ` set fs \<inter> P = {}) (bucketRepo_files c1 c2 c3 k)"
proof -
  show "access (keeper S P T) (\<lambda>r. \<forall>fs. r = Inr fs \<longrightarrow> bf_StorageKey ` set fs \<inter> P = {}) (bucketRepo_files c1 c2 c3 k)"
  proof (rule access_env)
    fix w r w' assume m: "bucketRepo_files c1 c2 c3 k w = (r, w')"
    from bucketRepo_files_spec [OF m] show "same_but_env w w'" by simp
    assume inv: "di_inv (keeper S P T) w"
    have "bf_StorageKey ` set (map bf_of_row (select_bucket_files k (w_db w))) \<inter> P = {}"
      using selected_keys [of "w_db w" _ k] inv by (fastforce simp: keeper_def sys_ok_def quiet_def)
    with bucketRepo_files_spec [OF m] show "\<forall>fs. r = Inr fs \<longrightarrow> bf_StorageKey ` set fs \<inter> P = {}"
      by (cases r) simp_all
  qed
qed (rule access_env, erule bucket_statements, rule TrueI)+

text \<open>The writing statements of a repository, whichever it is.\<close>

context repository begin

lemma create_evolves:
  assumes "rp_Create R e t w = (x, w')" and "ok (w_db w)" and "slug_of e \<noteq> s"
  shows "evolves view used s (w_db w) (w_db w') \<and> view (w_db w') s = view (w_db w) s"
  using assms Create_Inl [of e t w _ w'] Create_Inr [of e t w _ w'] by (cases x) (auto simp: evolves_def)

lemma mark_evolves:
  assumes "rp_Mark R k w = (x, w')" and "ok (w_db w)"
  shows "evolves view used s (w_db w) (w_db w') \<and> view (w_db w') s = view (w_db w) s"
  using Mark_view [OF assms(1)] mark_used_mono [OF assms, of s] by (auto simp: evolves_def)

lemma delete_evolves:
  assumes "rp_Delete R k w = (x, w')"
  shows "evolves view used s (w_db w) (w_db w') \<and> (view (w_db w') s = view (w_db w) s \<or> s = k \<and> view (w_db w') s = None)"
  using assms Delete_Inl [of k w _ w'] Delete_Inr [of k w _ w'] by (cases x) (auto simp: evolves_def)

end

lemma accessI: "(\<And>w r w'. di_inv D w \<Longrightarrow> m w = (r, w') \<Longrightarrow> di_guar D w w' \<and> Q r) \<Longrightarrow> access D Q m"
  unfolding access_def by blast

lemma access_files [accesses]:
  "f_Slug e \<notin> S \<Longrightarrow> P \<subseteq> S \<Longrightarrow> access (keeper S P T) (\<lambda>r. True) (rp_Create fileRepo e t)"
  "access (keeper S P T) (\<lambda>r. True) (rp_Mark fileRepo k)"
  "k \<notin> P \<Longrightarrow> access (keeper S P T) (\<lambda>r. True) (rp_Delete fileRepo k)"
proof -
  show "access (keeper S P T) (\<lambda>r. True) (rp_Create fileRepo e t)" if "f_Slug e \<notin> S" "P \<subseteq> S"
    by (rule accessI, frule keeper_ok, rule conjI [OF keeper_files TrueI], erule fr.Create_frame, erule (1) fr.Create_inv)
      ((erule conjunct1 [OF fr.create_evolves] conjunct2 [OF fr.create_evolves], simp, use that in blast) | assumption)+
  show "access (keeper S P T) (\<lambda>r. True) (rp_Mark fileRepo k)"
    by (rule accessI, frule keeper_ok, rule conjI [OF keeper_files TrueI], erule fr.Mark_frame, erule (1) fr.Mark_inv)
      ((erule conjunct1 [OF fr.mark_evolves] conjunct2 [OF fr.mark_evolves], simp) | assumption)+
  show "access (keeper S P T) (\<lambda>r. True) (rp_Delete fileRepo k)" if "k \<notin> P"
    by (rule accessI, frule keeper_ok, rule conjI [OF keeper_files TrueI], erule fr.Delete_frame, erule (1) fr.Delete_inv)
      (use that fr.delete_evolves in blast)+
qed

lemma access_pastes [accesses]:
  "p_Slug e \<notin> S \<Longrightarrow> access (keeper S P T) (\<lambda>r. True) (rp_Create pasteRepo e t)"
  "access (keeper S P T) (\<lambda>r. True) (rp_Mark pasteRepo k)"
  "access (keeper S P T) (\<lambda>r. True) (rp_Delete pasteRepo k)"
proof -
  show "access (keeper S P T) (\<lambda>r. True) (rp_Create pasteRepo e t)" if "p_Slug e \<notin> S"
    by (rule accessI, frule keeper_ok, rule conjI [OF keeper_pastes TrueI], erule pr.Create_frame, erule (1) pr.Create_inv)
      ((erule conjunct1 [OF pr.create_evolves], simp, use that in blast) | assumption)+
  show "access (keeper S P T) (\<lambda>r. True) (rp_Mark pasteRepo k)"
    by (rule accessI, frule keeper_ok, rule conjI [OF keeper_pastes TrueI], erule pr.Mark_frame, erule (1) pr.Mark_inv)
      ((erule conjunct1 [OF pr.mark_evolves] conjunct2 [OF pr.mark_evolves], simp) | assumption)+
  show "access (keeper S P T) (\<lambda>r. True) (rp_Delete pasteRepo k)"
    by (rule accessI, frule keeper_ok, rule conjI [OF keeper_pastes TrueI], erule pr.Delete_frame, erule (1) pr.Delete_inv)
      (erule conjunct1 [OF pr.delete_evolves], assumption)
qed

lemma bucket_keys_stored [simp]: "bucket_keys (bucket_stored b t) = {}" "bucket_keys (add_file i bf b) = insert (bf_StorageKey bf) (bucket_keys b)"
  by (simp_all add: bucket_keys_def bucket_stored_def add_file_def)

lemma create_keys:
  assumes "rp_Create bucketRepo e t w = (x, w')" and "buckets_ok (w_db w)" and "bucket_view (w_db w') s = Some b" and "k \<in> bucket_keys b"
  shows "bucket_view (w_db w) s = Some b"
  using assms br.Create_Inl [of e t w _ w'] br.Create_Inr [of e t w _ w'] by (cases x) (auto split: if_splits)

lemma add_evolves:
  assumes "rp_AddFile bucketRepo bf w = (x, w')" and "buckets_ok (w_db w)"
  shows "s \<noteq> bf_BucketSlug bf \<Longrightarrow> evolves bucket_view bucket_used s (w_db w) (w_db w')"
    and "bucket_view (w_db w') s = Some b \<Longrightarrow> k \<in> bucket_keys b \<Longrightarrow> k \<noteq> bf_StorageKey bf \<Longrightarrow>
      \<exists>b'. bucket_view (w_db w) s = Some b' \<and> k \<in> bucket_keys b'"
  using assms br.AddFile_Inl [of bf w _ w'] br.AddFile_Inr [of bf w _ w']
  by (cases x; auto simp: evolves_def split: if_splits)+

lemma same_view: "rp_Mark bucketRepo k w = (x, w') \<Longrightarrow> bucket_view (w_db w') s = Some b \<Longrightarrow> bucket_view (w_db w) s = Some b"
  by (simp add: br.Mark_view)

lemma delete_view: "rp_Delete bucketRepo k w = (x, w') \<Longrightarrow> bucket_view (w_db w') s = Some b \<Longrightarrow> bucket_view (w_db w) s = Some b"
  using br.Delete_Inl [of k w _ w'] br.Delete_Inr [of k w _ w'] by (cases x) (auto split: if_splits)

lemma access_buckets [accesses]:
  "b_Slug e \<notin> S \<Longrightarrow> access (keeper S P T) (\<lambda>r. True) (rp_Create bucketRepo e t)"
  "bf_BucketSlug bf \<notin> S \<Longrightarrow> bf_StorageKey bf \<notin> P \<Longrightarrow> access (keeper S P T) (\<lambda>r. True) (rp_AddFile bucketRepo bf)"
  "access (keeper S P T) (\<lambda>r. True) (rp_Mark bucketRepo k)"
  "access (keeper S P T) (\<lambda>r. True) (rp_Delete bucketRepo k)"
proof -
  show "access (keeper S P T) (\<lambda>r. True) (rp_Create bucketRepo e t)" if "b_Slug e \<notin> S"
    by (rule accessI, frule keeper_ok, rule conjI [OF keeper_buckets TrueI], erule br.Create_frame, erule (1) br.Create_inv)
      (erule conjunct1 [OF br.create_evolves], simp, use that in blast, blast dest: create_keys, assumption)
  show "access (keeper S P T) (\<lambda>r. True) (rp_AddFile bucketRepo bf)" if "bf_BucketSlug bf \<notin> S" "bf_StorageKey bf \<notin> P"
    by (rule accessI, frule keeper_ok, rule conjI [OF keeper_buckets TrueI], erule br.AddFile_frame, erule (1) br.AddFile_inv)
      (erule add_evolves(1), simp, use that in blast, use that in \<open>blast dest: add_evolves(2)\<close>, assumption)
  show "access (keeper S P T) (\<lambda>r. True) (rp_Mark bucketRepo k)"
    by (rule accessI, frule keeper_ok, rule conjI [OF keeper_buckets TrueI], erule br.Mark_frame, erule (1) br.Mark_inv)
      (erule conjunct1 [OF br.mark_evolves], simp, blast dest: same_view, assumption)
  show "access (keeper S P T) (\<lambda>r. True) (rp_Delete bucketRepo k)"
    by (rule accessI, frule keeper_ok, rule conjI [OF keeper_buckets TrueI], erule br.Delete_frame, erule (1) br.Delete_inv)
      (erule conjunct1 [OF br.delete_evolves], blast dest: delete_view, assumption)
qed

text \<open>What a sweep finds expired is not protected.\<close>

lemma access_lists [accesses]:
  "access (keeper S P T) (\<lambda>r. \<forall>fs. r = Inr fs \<longrightarrow> f_Slug ` set fs \<inter> P = {}) (rp_ListExpired fileRepo)"
  "access (keeper S P T) (\<lambda>r. True) (rp_ListExpired pasteRepo)"
proof -
  show "access (keeper S P T) (\<lambda>r. True) (rp_ListExpired pasteRepo)" by (rule access_env, erule pr.List_frame) simp
  show "access (keeper S P T) (\<lambda>r. \<forall>fs. r = Inr fs \<longrightarrow> f_Slug ` set fs \<inter> P = {}) (rp_ListExpired fileRepo)"
  proof (rule access_env, erule fr.List_frame, intro allI impI)
    fix w r w' fs assume inv: "di_inv (keeper S P T) w" and m: "rp_ListExpired fileRepo w = (r, w')" and r: "r = Inr fs"
    have "f_Slug f \<notin> P" if "f \<in> set fs" for f
    proof
      assume "f_Slug f \<in> P"
      with inv have q: "quiet T (f_Slug f) w" by (simp add: keeper_def)
      have "is_expired (w_now w) (f_ExpiresAt f)"
        using fr.listed_is_expired [OF m [unfolded r] _ that] keeper_ok [OF inv] by (auto simp: is_expired_def)
      then have "is_expired (snd T) (f_ExpiresAt f)" using is_expired_mono q by (auto simp: quiet_def)
      moreover have "file_view (w_db w) (f_Slug f) = Some f"
        using fr.List_Inr [OF m [unfolded r]] keeper_ok [OF inv] that by (auto dest: fr.view_slug)
      ultimately show False using q by (simp add: quiet_def)
    qed
    then show "f_Slug ` set fs \<inter> P = {}" by blast
  qed
qed

section \<open>The calls\<close>

declare fileRepo_sel [simp del] pasteRepo_sel [simp del] bucketRepo_sel [simp del] LocalFS_sel [simp del]

lemma keeper_same: "di_inv (keeper S P T) w \<Longrightarrow> di_guar (keeper S P T) w w" "di_inv (keeper S P T) w \<Longrightarrow> di_guar (keeper S P T) w (rest w)"
  by (auto intro: keeper_env)

lemma keep_act: "access (keeper S P T) Q m \<Longrightarrow> (\<And>r. Q r \<Longrightarrow> ensures (keeper S P T) Q' (k r)) \<Longrightarrow>
    ensures (keeper S P T) Q' (t_bind (act m) k)"
  by (rule ensures_bind [OF ensures_act])

lemma keep_clock: "(\<And>now. ensures (keeper S P T) Q (k now)) \<Longrightarrow> ensures (keeper S P T) Q (clock k)"
  by (rule ensures_clock) (auto intro: keeper_same)

lemma keep_write: "(\<And>c. ensures (keeper S P T) Q (k c)) \<Longrightarrow> ensures (keeper S P T) Q (client_write k)"
  by (rule ensures_client_write) (auto intro: keeper_same)

lemma keep_file_read: "ensures (keeper S P T) (\<lambda>r. True) (File_read_t (fileService url) f k)"
  unfolding File_read_t_def program_parts by (rule ensures_wrap, rule ensures_act, rule accesses) simp_all

lemma keep_file_get: "ensures (keeper S P T) (\<lambda>r. True) (File_Get_t bc (fileService url) k pw)"
  unfolding File_Get_t_def program_parts
  by (rule ensures_lookup [OF ensures_act], rule accesses)
    (auto intro!: keep_clock ensures_wrap [OF ensures_act] accesses keep_file_read)

lemma keep_file_meta: "ensures (keeper S P T) (\<lambda>r. True) (File_GetMeta_t (fileService url) k)"
  unfolding File_GetMeta_t_def program_parts by (rule ensures_lookup [OF ensures_act], rule accesses) (auto intro!: keep_clock)

lemma keep_file_delete: "k \<notin> P \<Longrightarrow> ensures (keeper S P T) (\<lambda>r. True) (File_Delete_t (fileService url) k d)"
  unfolding File_Delete_t_def program_parts
  by (rule ensures_lookup [OF ensures_act], rule accesses) (auto intro!: ensures_wrap [OF ensures_act] accesses)

lemma keep_file_persist:
  assumes "f_Slug f \<notin> S" and "P \<subseteq> S"
  shows "ensures (keeper S P T) (\<lambda>r. True) (File_persist_t (fileService url) f c t)"
proof -
  have k: "f_Slug f \<notin> P" using assms by blast
  show ?thesis
    unfolding File_persist_t_def undo_write_def program_parts
    by (rule ensures_wrap, rule ensures_act, rule access_Write [OF k],
        rule ensures_wrap_undo, rule ensures_act, rule accesses, rule assms, rule assms)
      (auto intro!: keep_act accesses k)
qed

lemma keep_file_upload:
  assumes "P \<subseteq> S"
  shows "k \<notin> S \<Longrightarrow> ensures (keeper S P T) (\<lambda>r. True) (File_Upload_from bc (fileService url) req k)"
    and "ensures (keeper S P T) (\<lambda>r. True) (File_Upload_t bc (fileService url) req)"
proof -
  show 1: "ensures (keeper S P T) (\<lambda>r. True) (File_Upload_from bc (fileService url) req k)" if k: "k \<notin> S" for k
    unfolding File_Upload_from_def
    by (rule ensures_wrap [OF access_slug], rule ensures_wrap [OF ensures_act [OF access_hash]])
      (auto simp: ensures_def [symmetric] Let_def t_wrap_def t_try_def k dest!: file_New_Inr split: sum.split
        intro!: keep_clock ensures_bind [OF keep_file_persist] assms)
  show "ensures (keeper S P T) (\<lambda>r. True) (File_Upload_t bc (fileService url) req)"
    unfolding File_Upload_t_def by (rule ensures_wrap [OF access_slug]) (auto intro: 1)
qed


lemma keep_paste_create: "ensures (keeper S P T) (\<lambda>r. True) (Paste_Create_t bc (pasteService url) req)"
  unfolding Paste_Create_t_def program_parts
  by (rule ensures_wrap [OF access_slug], rule ensures_wrap [OF access_slug], rule ensures_wrap [OF ensures_act [OF access_hash]])
    (auto simp: Let_def t_wrap_def dest!: paste_New_Inr split: sum.split intro!: keep_clock keep_act accesses)

lemma keep_paste_get: "ensures (keeper S P T) (\<lambda>r. True) (Paste_Get_t bc (pasteService url) k pw)"
  unfolding Paste_Get_t_def program_parts
  by (rule ensures_lookup [OF ensures_act], rule accesses)
    (auto simp: Let_def intro!: keep_clock ensures_wrap [OF ensures_act] accesses)

lemma keep_paste_delete: "ensures (keeper S P T) (\<lambda>r. True) (Paste_Delete_t (pasteService url) k d)"
  unfolding Paste_Delete_t_def program_parts
  by (rule ensures_lookup [OF ensures_act], rule accesses) (auto intro!: ensures_wrap [OF ensures_act] accesses)

lemma keep_delete_keys: "set ks \<inter> P = {} \<Longrightarrow> ensures (keeper S P T) (\<lambda>u. True) (delete_keys LocalFS ks)"
  by (induction ks) (auto intro!: keep_act accesses)

text \<open>The keys of what has been stored for the bucket were drawn.\<close>

definition stored_fresh :: "string set \<Rightarrow> string \<Rightarrow> storedFile list \<Rightarrow> bool" where
  "stored_fresh S b sfs \<longleftrightarrow> (\<forall>sf \<in> set sfs. sf_storageKey sf \<notin> S \<and> bf_StorageKey (sf_bf sf) \<notin> S \<and> bf_BucketSlug (sf_bf sf) = b)"

lemma stored_fresh_keys: "stored_fresh S b sfs \<Longrightarrow> P \<subseteq> S \<Longrightarrow> set (map sf_storageKey sfs) \<inter> P = {}"
  by (auto simp: stored_fresh_def)

lemma keep_store_files:
  assumes P: "P \<subseteq> S"
  shows "stored_fresh S b stored \<Longrightarrow>
    ensures (keeper S P T) (\<lambda>r. \<forall>sfs. r = Inr sfs \<longrightarrow> stored_fresh S b sfs) (store_files_t (bucketService url) b fis stored)"
proof (induction fis arbitrary: stored)
  case (Cons fi fis)
  note undo = keep_delete_keys [OF stored_fresh_keys [OF Cons.prems P]]
  have grow: "stored_fresh S b (stored @ [stored_entry b fi k])" if "k \<notin> S" for k
    using Cons.prems that by (auto simp: stored_fresh_def)
  show ?case
    unfolding store_files_t.simps program_parts
  proof (rule ensures_wrap_undo [OF access_slug _ undo])
    fix k assume "\<forall>s. Inr k = Inr s \<longrightarrow> s \<notin> S"
    then have k: "k \<notin> S" "k \<notin> P" using P by auto
    show "ensures (keeper S P T) (\<lambda>r. \<forall>sfs. r = Inr sfs \<longrightarrow> stored_fresh S b sfs)
        (t_wrap_undo ''bucket service create: write file'' (act (be_Write LocalFS k (fi_Content fi)))
          (delete_keys LocalFS (map sf_storageKey stored))
          (\<lambda>u. store_files_t (bucketService url) b fis (stored @ [stored_entry b fi k])))"
      by (rule ensures_wrap_undo [OF ensures_act [OF access_Write [OF k(2)]] _ undo]) (auto intro: Cons.IH grow [OF k(1)])
  qed simp
qed simp

lemma keep_add_files:
  assumes "P \<subseteq> S" and "b \<notin> S"
  shows "stored_fresh S b sfs \<Longrightarrow> ensures (keeper S P T) (\<lambda>r. True) (add_files_t (bucketService url) sfs infos)"
proof (induction sfs arbitrary: infos)
  case (Cons sf sfs)
  then have "bf_BucketSlug (sf_bf sf) \<notin> S" "bf_StorageKey (sf_bf sf) \<notin> P" "stored_fresh S b sfs"
    using assms by (auto simp: stored_fresh_def)
  then show ?case
    unfolding add_files_t.simps program_parts by (auto intro!: ensures_wrap [OF ensures_act] accesses Cons.IH)
qed simp

lemma keep_bucket_persist:
  assumes P: "P \<subseteq> S" and b: "b_Slug b \<notin> S"
  shows "ensures (keeper S P T) (\<lambda>r. True) (Bucket_persist_t (bucketService url) b t fis)"
  unfolding Bucket_persist_t_def program_parts
proof (rule ensures_try [OF keep_store_files [OF P]], simp add: stored_fresh_def)
  fix sfs assume "\<forall>x. Inr sfs = Inr x \<longrightarrow> stored_fresh S (b_Slug b) x"
  then have s: "stored_fresh S (b_Slug b) sfs" by simp
  show "ensures (keeper S P T) (\<lambda>r. True)
      (t_wrap_undo ''bucket service create: persist bucket'' (act (rp_Create bucketRepo b t))
        (delete_keys LocalFS (map sf_storageKey sfs)) (\<lambda>u.
       t_try (add_files_t (bucketService url) sfs []) (\<lambda>fileInfos. Ret (Inr (sfs, fileInfos)))))"
    by (rule ensures_wrap_undo [OF ensures_act [OF access_buckets(1) [OF b]] _ keep_delete_keys [OF stored_fresh_keys [OF s P]]])
      (auto intro: ensures_try [OF keep_add_files [OF P b s]])
qed simp

lemma keep_bucket_create:
  assumes "P \<subseteq> S"
  shows "ensures (keeper S P T) (\<lambda>r. True) (Bucket_Create_t bc (bucketService url) req)"
  unfolding Bucket_Create_t_def
  by (rule ensures_wrap [OF access_slug], rule ensures_wrap [OF access_slug], rule ensures_wrap [OF ensures_act [OF access_hash]])
    (auto simp: Let_def t_wrap_def t_try_def dest!: bucket_New_Inr split: sum.split
      intro!: keep_clock ensures_bind [OF keep_bucket_persist] assms)

lemma keep_try: "access (keeper S P T) P' m \<Longrightarrow> (\<And>a. P' (Inr a) \<Longrightarrow> ensures (keeper S P T) Q (k a)) \<Longrightarrow> (\<And>e. Q (Inl e)) \<Longrightarrow>
    ensures (keeper S P T) Q (t_try (act m) k)"
  by (rule ensures_try [OF ensures_act])

lemma bucket_keys_row [simp]: "bucket_keys (bucket_of_row r fs) = bf_StorageKey ` set fs"
  by (simp add: bucket_keys_def)

lemma keep_bucket_lookup:
  "ensures (keeper S P T) (\<lambda>r. \<forall>b. r = Inr b \<longrightarrow> bucket_keys b \<inter> P = {}) (bucketRepo_GetBySlug_t k)"
  unfolding bucketRepo_GetBySlug_t_def
  by (rule keep_try [OF access_statements(1)], rule keep_try [OF access_statements(4)]) simp_all

lemma keep_bucket_scan:
  "ensures (keeper S P T) (\<lambda>r. \<forall>bs. r = Inr bs \<longrightarrow> (\<forall>b \<in> set bs. bucket_keys b \<inter> P = {})) (bucketRepo_scan_expired_t rs)"
proof (induction rs)
  case (Cons r rs)
  show ?case
    unfolding bucketRepo_scan_expired_t.simps
    by (rule keep_try [OF access_statements(2)], rule keep_try [OF access_statements(4)], rule ensures_try [OF Cons.IH]) simp_all
qed (auto intro!: keep_try [OF access_statements(2)])

lemma keep_bucket_list:
  "ensures (keeper S P T) (\<lambda>r. \<forall>bs. r = Inr bs \<longrightarrow> (\<forall>b \<in> set bs. bucket_keys b \<inter> P = {})) bucketRepo_ListExpired_t"
  unfolding bucketRepo_ListExpired_t_def by (rule keep_try [OF access_statements(3)]) (simp_all add: keep_bucket_scan)

lemma keep_bucket_open:
  "ensures (keeper S P T) (\<lambda>r. \<forall>b. r = Inr b \<longrightarrow> bucket_keys b \<inter> P = {}) (bucket_open_t bc c k pw)"
  unfolding bucket_open_t_def by (rule ensures_lookup [OF keep_bucket_lookup]) (auto intro!: keep_clock)

lemma keep_bucket_meta: "ensures (keeper S P T) (\<lambda>r. True) (Bucket_GetMeta_t bc (bucketService url) k pw)"
  unfolding Bucket_GetMeta_t_def by (rule ensures_try [OF keep_bucket_open]) simp_all

lemma keep_bucket_file: "ensures (keeper S P T) (\<lambda>r. True) (Bucket_GetFile_t bc (bucketService url) k key pw)"
  unfolding Bucket_GetFile_t_def program_parts
  by (rule ensures_try [OF keep_bucket_open]) (auto split: option.split intro!: ensures_wrap [OF ensures_act] accesses)

lemma keep_zip_files: "ensures (keeper S P T) (\<lambda>r. True) (zip_files_t (bucketService url) bfs zr)"
  by (induction bfs arbitrary: zr) (auto split: sum.split intro!: keep_write keep_act [OF access_Read])

lemma keep_bucket_mark: "ensures (keeper S P T) (\<lambda>r. True) (Bucket_mark_t (bucketService url) one k)"
  unfolding Bucket_mark_t_def program_parts by (auto intro!: ensures_wrap [OF ensures_act] accesses)

lemma keep_bucket_zip: "ensures (keeper S P T) (\<lambda>r. True) (Bucket_StreamZIP_t bc (bucketService url) k pw zr)"
  unfolding Bucket_StreamZIP_t_def
  by (rule ensures_bind [OF keep_bucket_open])
    (auto simp: Let_def split: sum.split intro!: ensures_bind [OF keep_bucket_mark] ensures_bind [OF keep_zip_files] keep_write)

lemma keep_bucket_delete: "ensures (keeper S P T) (\<lambda>r. True) (Bucket_Delete_t (bucketService url) k d)"
  unfolding Bucket_Delete_t_def program_parts
  by (rule ensures_lookup [OF keep_bucket_lookup])
    (auto intro!: ensures_bind [OF keep_delete_keys] ensures_wrap [OF ensures_act] accesses simp: bucket_keys_def)

lemma keep_sweep_rows:
  assumes "\<And>k. k \<in> K \<Longrightarrow> access (keeper S P T) (\<lambda>r. True) (del k)" and "\<forall>row \<in> set rows. set (fst row) \<inter> P = {} \<and> snd row \<in> K"
  shows "ensures (keeper S P T) (\<lambda>n. True) (sweep_rows_t LocalFS del rows n)"
  using assms(2) by (induction rows arbitrary: n)
    (auto split: sum.split intro!: ensures_bind [OF keep_delete_keys] keep_act [OF assms(1)])

lemma keep_sweep_table:
  assumes "ensures (keeper S P T) (\<lambda>r. \<forall>es. r = Inr es \<longrightarrow> (\<forall>e \<in> set es. set (fst (row_of e)) \<inter> P = {} \<and> snd (row_of e) \<in> K)) list_t"
    and "\<And>k. k \<in> K \<Longrightarrow> access (keeper S P T) (\<lambda>r. True) (del k)"
  shows "ensures (keeper S P T) (\<lambda>n. True) (sweep_table_t LocalFS list_t del row_of)"
  unfolding sweep_table_t_def
proof (rule ensures_bind [OF assms(1)])
  fix r assume r: "\<forall>es. r = Inr es \<longrightarrow> (\<forall>e \<in> set es. set (fst (row_of e)) \<inter> P = {} \<and> snd (row_of e) \<in> K)"
  show "ensures (keeper S P T) (\<lambda>n. True) (case r of Inl e \<Rightarrow> Ret 0 | Inr expired \<Rightarrow> sweep_rows_t LocalFS del (map row_of expired) 0)"
  proof (cases r)
    case (Inr es)
    with r have "\<forall>row \<in> set (map row_of es). set (fst row) \<inter> P = {} \<and> snd row \<in> K" by simp
    from keep_sweep_rows [OF assms(2) this] show ?thesis by (simp add: Inr)
  qed simp
qed

lemma access_weaken: "access D Q m \<Longrightarrow> (\<And>r. Q r \<Longrightarrow> Q' r) \<Longrightarrow> access D Q' m"
  unfolding access_def by blast

lemma keep_sweep: "ensures (keeper S P T) (\<lambda>r. True) (sweep_t program_cleanup)"
  unfolding sweep_t_def program_cleanup_sel
proof (intro ensures_bind)
  show "ensures (keeper S P T) (\<lambda>n. True) (sweep_table_t LocalFS (act (rp_ListExpired fileRepo)) (rp_Delete fileRepo) (\<lambda>f. ([f_Slug f], f_Slug f)))"
    by (rule keep_sweep_table [where K = "- P"], rule ensures_act, rule access_weaken [OF access_lists(1)]) (auto intro: accesses)
  show "ensures (keeper S P T) (\<lambda>n. True) (sweep_table_t LocalFS bucketRepo_ListExpired_t (rp_Delete bucketRepo) (\<lambda>b. (map bf_StorageKey (b_Files b), b_Slug b)))"
    by (rule keep_sweep_table [where K = UNIV], rule ensures_bind [OF keep_bucket_list, where k = Ret, unfolded bind_Ret])
      (auto intro: accesses simp: bucket_keys_def)
  show "ensures (keeper S P T) (\<lambda>n. True) (sweep_table_t LocalFS (act (rp_ListExpired pasteRepo)) (rp_Delete pasteRepo) (\<lambda>p. ([], p_Slug p)))"
    by (rule keep_sweep_table [where K = UNIV], rule ensures_act, rule access_weaken [OF access_lists(2)]) (auto intro: accesses)
qed simp

text \<open>Every call, but for a deletion of a protected file.\<close>

fun deletes_file :: "call \<Rightarrow> string set" where
  "deletes_file (FileDelete k d) = {k}" | "deletes_file c = {}"

lemma keep_call:
  assumes "P \<subseteq> S" and "deletes_file c \<inter> P = {}" and "\<not> takes_time c"
  shows "ensures (keeper S P T) (\<lambda>x. True) (thread_of bc url c)"
  using assms
  by (cases c) (auto split: prod.split intro!: ensures_bind [OF keep_file_upload(2)] ensures_bind [OF keep_file_get] ensures_bind [OF keep_file_meta]
    ensures_bind [OF keep_file_delete] ensures_bind [OF keep_paste_create] ensures_bind [OF keep_paste_get]
    ensures_bind [OF keep_paste_delete] ensures_bind [OF keep_bucket_create] ensures_bind [OF keep_bucket_meta]
    ensures_bind [OF keep_bucket_zip] ensures_bind [OF keep_bucket_file] ensures_bind [OF keep_bucket_delete] ensures_bind [OF keep_sweep])

end
