(* ===== verification/Together.thy ===== *)
theory Together
  imports Keeper
begin

text \<open>
  All calls at once: the program under any interleaving of the accesses of any number of calls,
  with the limits a statement needs.
\<close>

section \<open>The pool of all calls\<close>

definition avoiding :: "string set \<Rightarrow> limits" where
  "avoiding S = \<lparr>li_avoid = S, li_calls = (\<lambda>c. True), li_clock = (\<lambda>t. True)\<rparr>"

definition around :: "string set \<Rightarrow> string set \<Rightarrow> instant \<times> instant \<Rightarrow> limits" where
  "around S P T = \<lparr>li_avoid = S \<union> P, li_calls = (\<lambda>c. deletes_file c \<inter> P = {}), li_clock = (\<lambda>t. P = {} \<or> t \<le> snd T)\<rparr>"

lemma around_nothing: "around S {} T = avoiding S" "avoiding {} = unlimited"
  by (simp_all add: around_def avoiding_def unlimited_def)

lemma keeper_elapse:
  assumes "di_inv (keeper S P T) w" and "P = {} \<or> w_now w + \<bar>d\<bar> \<le> snd T"
  shows "di_inv (keeper S P T) (elapse d bs env w)"
  using assms by (auto simp: keeper_def sys_ok_def quiet_def elapse_def)

lemma keeper_guar_inv: "di_inv (keeper S P T) w \<Longrightarrow> di_guar (keeper S P T) w w' \<Longrightarrow> di_inv (keeper S P T) w'"
  by (simp add: keeper_def)

interpretation everyone: pool "keeper (S \<union> P) P T" "around S P T" bc url for S P T bc url
  by unfold_locales
    (auto simp: around_def keeper_elapse intro: keeper_guar_inv intro!: keep_call)

lemma keeper_inv: "di_inv (keeper S P T) w \<longleftrightarrow> sys_ok w \<and> (\<forall>k \<in> P. quiet T k w)"
  by (simp add: keeper_def)

lemma everyone_kept: "everyone.kept S P T (ts, w) \<longleftrightarrow> sys_ok w \<and> (\<forall>k \<in> P. quiet T k w) \<and>
    list_all (ensures (keeper (S \<union> P) P T) (\<lambda>x. True)) ts"
  by (simp add: everyone.kept_def keeper_inv)

lemma everyone_start: "sys_ok w \<Longrightarrow> (\<And>k. k \<in> P \<Longrightarrow> quiet T k w) \<Longrightarrow> everyone.kept S P T ([], w)"
  by (simp add: everyone_kept)

lemma elapse_sel [simp]:
  "w_now (elapse d bs env w) = w_now w + \<bar>d\<bar>" "w_db (elapse d bs env w) = w_db w" "w_fs (elapse d bs env w) = w_fs w"
  by (simp_all add: elapse_def)

lemma evolving_refl: "evolving S d d"
  by (simp add: evolving_def evolves_refl)

lemma evolving_trans: "evolving S d e \<Longrightarrow> evolving S e f \<Longrightarrow> evolving S d f"
  unfolding evolving_def by (blast intro: evolves_trans)

text \<open>The worlds before and after any number of steps.\<close>

lemma together:
  assumes "(sys_step bc url (around S P T))\<^sup>*\<^sup>* (ts, w) (ts', w')" and "everyone.kept S P T (ts, w)"
  shows "everyone.kept S P T (ts', w')" and "sys_ok w'" and "w_now w \<le> w_now w'" and "evolving (S \<union> P) (w_db w) (w_db w')"
    and "k \<in> P \<Longrightarrow> file_view (w_db w') k = file_view (w_db w) k \<and> fs_content (w_fs w') k = fs_content (w_fs w) k"
proof -
  show k: "everyone.kept S P T (ts', w')" by (rule everyone.kept_reachable [OF assms])
  then show "sys_ok w'" by (simp add: everyone_kept)
  let ?R = "\<lambda>w w'. w_now w \<le> w_now w' \<and> evolving (S \<union> P) (w_db w) (w_db w') \<and>
    (\<forall>k \<in> P. file_view (w_db w') k = file_view (w_db w) k \<and> fs_content (w_fs w') k = fs_content (w_fs w) k)"
  have "?R (snd (ts, w)) (snd (ts', w'))"
    by (rule everyone.kept_related [OF assms, where R = ?R]) (auto simp: keeper_def evolving_refl intro: evolving_trans)
  then show "w_now w \<le> w_now w'" "evolving (S \<union> P) (w_db w) (w_db w')"
    "k \<in> P \<Longrightarrow> file_view (w_db w') k = file_view (w_db w) k \<and> fs_content (w_fs w') k = fs_content (w_fs w) k" by simp_all
qed

section \<open>Schedules\<close>

text \<open>A schedule as a list of moves, for concrete runs; a move that the limits forbid is skipped.\<close>

datatype move = Go nat | Begin call | Wait duration "8 word list" "nat list"

definition may_draw :: "limits \<Rightarrow> 'a thread \<Rightarrow> world \<Rightarrow> bool" where
  "may_draw L t w = (case drawn_by t w of Some (Inr s) \<Rightarrow> s \<notin> li_avoid L | _ \<Rightarrow> True)"

fun make_move :: "bcrypt \<Rightarrow> string \<Rightarrow> limits \<Rightarrow> move \<Rightarrow> system \<Rightarrow> system" where
  "make_move bc url L (Go i) (ts, w) =
     (if i < length ts \<and> may_draw L (ts ! i) w
      then case advance (ts ! i) w of None \<Rightarrow> (ts, w) | Some (t, w') \<Rightarrow> (ts[i := t], w') else (ts, w))"
| "make_move bc url L (Begin c) (ts, w) = (if li_calls L c \<and> \<not> takes_time c then (ts @ [thread_of bc url c], w) else (ts, w))"
| "make_move bc url L (Wait d bs env) (ts, w) = (if li_clock L (w_now w + \<bar>d\<bar>) then (ts, elapse d bs env w) else (ts, w))"

definition play :: "bcrypt \<Rightarrow> string \<Rightarrow> limits \<Rightarrow> move list \<Rightarrow> system \<Rightarrow> system" where
  "play bc url L ms c = fold (make_move bc url L) ms c"

fun returned :: "'a thread \<Rightarrow> 'a option" where
  "returned (Ret a) = Some a" | "returned t = None"

lemma returned_Ret: "returned t = Some a \<longleftrightarrow> t = Ret a"
  by (cases t) auto

lemma make_move_reaches: "make_move bc url L m c = c \<or> sys_step bc url L c (make_move bc url L m c)"
proof (cases c)
  case (Pair ts w)
  show ?thesis
  proof (cases m)
    case (Go i)
    then show ?thesis
      by (auto simp: Pair may_draw_def intro!: sys_step.move split: option.split option.splits sum.splits)
  qed (auto simp: Pair intro: sys_step.begins sys_step.time)
qed

lemma play_reaches: "(sys_step bc url L)\<^sup>*\<^sup>* c (play bc url L ms c)"
  unfolding play_def
proof (induction ms arbitrary: c)
  case (Cons m ms)
  from Cons [of "make_move bc url L m c"] make_move_reaches [of bc url L m c] show ?case
    by (auto intro: converse_rtranclp_into_rtranclp)
qed simp

end
