(* ===== verification/Concurrent_Upload.thy ===== *)
theory Concurrent_Upload
  imports Together
begin

text \<open>
  An upload among other calls: from the drawing of its slug on, the row and the bytes under the
  slug are its own, whatever the other calls do in between.
\<close>

section \<open>The discipline of an upload\<close>

definition slot :: "string \<Rightarrow> world \<Rightarrow> file_ent option \<times> bytes option" where
  "slot k w = (file_view (w_db w) k, fs_content (w_fs w) k)"

definition uploader :: "string set \<Rightarrow> string \<Rightarrow> instant \<times> instant \<Rightarrow> (file_ent option \<times> bytes option) discipline" where
  "uploader S k T =
     \<lparr>di_avoid = S \<union> {k}, di_inv = di_inv (keeper (S \<union> {k}) {k} T), di_guar = (\<lambda>w w'. di_inv (keeper (S \<union> {k}) {k} T) w'),
      di_own = slot k, di_done = (\<lambda>w w'. False)\<rparr>"

lemma uploader_sel [simp]:
  "di_avoid (uploader S k T) = S \<union> {k}" "di_inv (uploader S k T) w \<longleftrightarrow> sys_ok w \<and> quiet T k w"
  "di_guar (uploader S k T) w w' \<longleftrightarrow> sys_ok w' \<and> quiet T k w'" "di_own (uploader S k T) = slot k" "\<not> di_done (uploader S k T) w w'"
  by (simp_all add: uploader_def keeper_inv)

text \<open>The preset of the upload outlasts the second instant when it starts at the first or later.\<close>

definition lasts :: "file_UploadRequest \<Rightarrow> instant \<times> instant \<Rightarrow> bool" where
  "lasts req T \<longleftrightarrow> (\<forall>d. map_of file_validExpiries (fu_Expiry req) = Some d \<longrightarrow> d \<noteq> 0 \<longrightarrow> snd T \<le> fst T + d - second)"

definition landed :: "bcrypt \<Rightarrow> string \<Rightarrow> file_UploadRequest \<Rightarrow> string \<Rightarrow> file_ent option \<times> bytes option \<Rightarrow>
    file_UploadResult result \<Rightarrow> bool" where
  "landed bc url req k x r \<longleftrightarrow> (\<forall>res. r = Inr res \<longrightarrow> (\<exists>secret h t. res = File_result (fileService url) req k secret t \<and>
     check_password bc h (fu_Password req) \<and> x = (Some (uploaded_file req k secret h t), Some (rd_data (fu_Content req)))))"

lemma landed_Inl [simp]: "landed bc url req k x (Inl e)"
  by (simp add: landed_def)

section \<open>Its accesses\<close>

lemma upload_write:
  assumes "sys_ok w" and "quiet T k w" and m: "be_Write LocalFS k r w = (x, w')"
  shows "sys_ok w' \<and> quiet T k w' \<and> slot k w' = (fst (slot k w), if x = Inr () then Some (rd_data r) else snd (slot k w))"
  using lfs.Write_frame [OF m] lfs.Write_inv [OF m] lfs.Write_Inr [of k r w _ w'] lfs.Write_Inl [of k r w _ w'] assms
  by (cases x) (auto simp: sys_ok_def quiet_def slot_def same_but_fs_def)

lemma upload_undo:
  assumes "sys_ok w" and "quiet T k w" and m: "be_Delete LocalFS k w = (x, w')"
  shows "sys_ok w' \<and> quiet T k w' \<and> fst (slot k w') = fst (slot k w)"
  using lfs.Delete_frame [OF m] lfs.Delete_inv [OF m] assms
  by (auto simp: sys_ok_def quiet_def slot_def same_but_fs_def)

lemma upload_create:
  assumes ok: "sys_ok w" "quiet T k w" and m: "rp_Create fileRepo f t w = (x, w')" and k: "f_Slug f = k"
    and live: "\<not> is_expired (snd T) (map_option to_second t)"
  shows "sys_ok w' \<and> quiet T k w' \<and> slot k w' = (if x = Inr () then Some (file_stored f t) else fst (slot k w), snd (slot k w))"
proof -
  note fr = fr.Create_frame [OF m]
  note o = other_tables(1) [OF conjunct2 [OF fr]] and db = same_but_dbD [OF conjunct1 [OF fr]]
  have f: "files_ok (w_db w)" using ok(1) by (simp add: sys_ok_def)
  have view: "file_view (w_db w') k = (if x = Inr () then Some (file_stored f t) else file_view (w_db w) k)"
    using m fr.Create_Inl [of f t w _ w'] fr.Create_Inr [of f t w _ w'] f k by (cases x) auto
  have "sys_ok w'" using ok(1) o db(3) fr.Create_inv [OF m f] by (simp add: sys_ok_def)
  moreover have "quiet T k w'"
    using ok(2) o db(1) view live by (auto simp: quiet_def file_stored_def split: if_splits)
  ultimately show ?thesis using view db(3) by (simp add: slot_def)
qed

lemma persist_sat:
  assumes k: "f_Slug f = k" and live: "\<not> is_expired (snd T) (map_option to_second t)"
  shows "sat (uploader S k T) (\<lambda>y r. r = Inr () \<longrightarrow> y = (Some (file_stored f t), Some (rd_data c)))
    (File_persist_t (fileService url) f c t) x"
proof -
  let ?Q = "\<lambda>y r. r = Inr () \<longrightarrow> y = (Some (file_stored f t), Some (rd_data c))"
  have undo: "sat (uploader S k T) (\<lambda>y u. True) (undo_write LocalFS k) y" for y
    unfolding undo_write_def
    by (rule sat_bind [OF sat_act [where Q = "\<lambda>y u. True"]]) (auto dest: upload_undo)
  have create: "sat (uploader S k T) (\<lambda>y r. r = Inr () \<longrightarrow> y = (Some (file_stored f t), snd z)) (act (rp_Create fileRepo f t)) z" for z
  proof (rule sat_act, rule disjI2)
    fix w r w' assume w: "di_inv (uploader S k T) w" "di_own (uploader S k T) w = z" and m: "rp_Create fileRepo f t w = (r, w')"
    from upload_create [OF _ _ m k live] w show "di_guar (uploader S k T) w w' \<and>
        (r = Inr () \<longrightarrow> di_own (uploader S k T) w' = (Some (file_stored f t), snd z))" by simp
  qed
  have rest: "sat (uploader S k T) ?Q (t_wrap_undo ''file service upload: persist metadata'' (act (rp_Create fileRepo f t))
      (undo_write LocalFS k) (\<lambda>u. Ret (Inr ()))) z" if "snd z = Some (rd_data c)" for z
    unfolding t_wrap_undo_def
    by (rule sat_bind [OF create]) (auto simp: that split: sum.split intro!: sat_bind [OF undo])
  show ?thesis
    unfolding File_persist_t_def program_parts k
  proof (rule sat_wrap [where P = "\<lambda>y r. r = Inr () \<longrightarrow> snd y = Some (rd_data c)"], rule sat_act, rule disjI2)
    fix w r w' assume w: "di_inv (uploader S k T) w" "di_own (uploader S k T) w = x" and m: "be_Write LocalFS k c w = (r, w')"
    from upload_write [where T = T, OF _ _ m] w show "di_guar (uploader S k T) w w' \<and>
        (r = Inr () \<longrightarrow> snd (di_own (uploader S k T) w') = Some (rd_data c))" by simp
  qed (simp_all add: rest)
qed

lemma slug_same:
  assumes "slug_io n w = (r, w')" and "sys_ok w" and "quiet T k w"
  shows "sys_ok w' \<and> quiet T k w' \<and> slot k w' = slot k w"
  using slug_io_frame [OF assms(1)] assms by (simp add: sys_ok_def quiet_def slot_def)

lemma hash_same:
  assumes "hash_password bc p w = (r, w')" and "sys_ok w" and "quiet T k w"
  shows "sys_ok w' \<and> quiet T k w' \<and> slot k w' = slot k w"
  using hash_password_frame [OF assms(1)] assms by (simp add: sys_ok_def quiet_def slot_def)

lemma upload_sat:
  assumes bc: "bcrypt_ok bc" and req: "lasts req T"
  shows "sat (uploader S k T) (landed bc url req k) (File_Upload_from bc (fileService url) req k) x"
proof -
  have draw: "sat (uploader S k T) (\<lambda>y r. True) (Draw deleteSecretLength Ret) y" for y
    by (rule sat_Draw) (auto dest: slug_same)
  have hash: "sat (uploader S k T) (\<lambda>y r. \<forall>h. r = Inr h \<longrightarrow> check_password bc h (fu_Password req)) (act (hash_password bc (fu_Password req))) y" for y
    by (rule sat_act) (auto dest: hash_same intro: hash_password_check [OF bc])
  have rest: "sat (uploader S k T) (landed bc url req k)
      (t_try (File_persist_t (fileService url) f (fu_Content req) (expiry_instant d now)) (\<lambda>u.
         Ret (Inr (File_result (fileService url) req k secret (expiry_instant d now))))) y"
    if f: "file_New k (fu_Filename req) (fu_MimeType req) (fu_Expiry req) secret (fu_Size req) h (fu_OneUse req) = Inr f"
      and h: "check_password bc h (fu_Password req)" and d: "map_of file_validExpiries (fu_Expiry req) = Some d"
      and now: "fst T \<le> now" for f h d now secret y
  proof -
    have f': "file_stored f (expiry_instant d now) = uploaded_file req k secret h (expiry_instant d now)" "f_Slug f = k"
      using file_New_Inr(3) [OF f] by (simp_all add: file_stored_def uploaded_file_def)
    have live: "\<not> is_expired (snd T) (map_option to_second (expiry_instant d now))"
    proof (cases "d = 0")
      case False
      with req d now file_preset_range [OF d] have "0 < d" "snd T \<le> now + d - second" by (auto simp: lasts_def)
      then show ?thesis by (rule is_expired_stored(2))
    qed (simp add: is_expired_never)
    show ?thesis
      by (rule sat_try [OF persist_sat [OF f'(2) live]]) (use h in \<open>auto simp: landed_def f'(1)\<close>)
  qed
  show ?thesis
    unfolding File_Upload_from_def
  proof (rule sat_wrap [OF draw], rule sat_wrap [OF hash])
    fix secret y h z assume "\<forall>h'. Inr h = Inr h' \<longrightarrow> check_password bc h' (fu_Password req)"
    then have h: "check_password bc h (fu_Password req)" by simp
    show "sat (uploader S k T) (landed bc url req k) (t_wrap ''file service upload: construct entity''
        (Ret (file_New k (fu_Filename req) (fu_MimeType req) (fu_Expiry req) secret (fu_Size req) h (fu_OneUse req)))
        (\<lambda>f. case file_ExpiryDuration (fu_Expiry req) of Inl p \<Rightarrow> Ret (Inl p)
           | Inr d \<Rightarrow> clock (\<lambda>now. let expiresAt = expiry_instant d now in
               t_try (File_persist_t (fileService url) f (fu_Content req) expiresAt)
                 (\<lambda>u. Ret (Inr (File_result (fileService url) req k secret expiresAt)))))) z"
      unfolding t_wrap_def t_bind.simps Let_def
      by (auto simp: file_ExpiryDuration_def quiet_def split: sum.split option.split intro!: sat_clock rest [OF _ h])
  qed simp_all
qed

section \<open>The pool with the upload\<close>

interpretation upload: owned_pool "keeper (S \<union> {k}) {k} T" "around S {k} T" bc url "uploader S k T" for S k T bc url
proof unfold_locales
  show "di_own (uploader S k T) w' = di_own (uploader S k T) w" if "di_guar (keeper (S \<union> {k}) {k} T) w w'" for w w'
    using that by (simp add: keeper_def slot_def)
qed (auto simp: keeper_inv around_def slot_def)


lemma upload_owned:
  "upload.owned S k T i Q (ts, w) \<longleftrightarrow> i < length ts \<and> sys_ok w \<and> quiet T k w \<and> sat (uploader S k T) Q (ts ! i) (slot k w) \<and>
     (\<forall>j < length ts. j \<noteq> i \<longrightarrow> ensures (keeper (S \<union> {k}) {k} T) (\<lambda>x. True) (ts ! j))"
  unfolding upload.owned_def by (auto simp: keeper_inv)

text \<open>The calls that were in progress before keep the discipline from a later instant on.\<close>

lemma ensures_sub:
  assumes "\<And>w. di_inv E w \<Longrightarrow> di_inv D w" and "\<And>w w'. di_inv E w \<Longrightarrow> di_guar D w w' \<Longrightarrow> di_guar E w w'"
    and "di_avoid E = di_avoid D" and "\<And>w w'. di_done D w w' \<Longrightarrow> di_done E w w'"
  shows "ensures D Q t \<Longrightarrow> ensures E Q t"
proof (induction t)
  case (Act f)
  show ?case
    unfolding ensures_def
  proof (rule sat_ActI)
    fix w u w1 assume w: "di_inv E w" and f: "f w = (u, w1)"
    with Act.prems assms(1) have "di_done D w w1 \<or> di_guar D w w1 \<and> ensures D Q u"
      by (force simp: ensures_def)
    with Act.IH [of w] f assms(2,4) w show "di_done E w w1 \<or> di_guar E w w1 \<and> sat E (\<lambda>x. Q) u (di_own E w1)"
      by (auto simp: ensures_def)
  qed
next
  case (Draw n g)
  then show ?case using assms by (fastforce simp: ensures_def split: prod.splits)
qed simp

lemma keeper_later:
  assumes "fst T \<le> fst T'" and "snd T = snd T'" and "ensures (keeper S P T) Q t"
  shows "ensures (keeper S P T') Q t"
  by (rule ensures_sub [OF _ _ _ _ assms(3)]) (use assms(1,2) in \<open>auto simp: keeper_def quiet_def\<close>)

lemma around_second: "snd T = snd T' \<Longrightarrow> around S P T = around S P T'"
  by (simp add: around_def)

lemma upload_first_access:
  assumes "advance (thread_of bc url (FileUpload req)) w = Some (t, w')" and "fst (slug_io slugLength w) = Inr k"
  shows "t = t_bind (File_Upload_from bc (fileService url) req k) (\<lambda>r. Ret (FileUploaded r))" and "slug_io slugLength w = (Inr k, w')"
  using assms by (auto simp: File_Upload_t_def t_wrap_def split: prod.splits)

lemma upload_among_others:
  assumes bc: "bcrypt_ok bc" and ok: "sys_ok w" and new: "quiet (w_now w, T) k w"
    and before: "(sys_step bc url (around {} {k} (w_now w, T)))\<^sup>*\<^sup>* ([], w) (ts, w1)"
    and i: "i < length ts" "ts ! i = thread_of bc url (FileUpload req)"
    and draw: "advance (ts ! i) w1 = Some (t, w2)" "fst (slug_io slugLength w1) = Inr k"
    and lasts: "lasts req (w_now w1, T)"
    and after: "(sys_step bc url (around {} {k} (w_now w, T)))\<^sup>*\<^sup>* (ts[i := t], w2) (ts', w')"
  shows "sys_ok w' \<and> quiet (w_now w1, T) k w' \<and>
    (ts' ! i = Ret (FileUploaded r) \<longrightarrow> landed bc url req k (slot k w') r)"
proof -
  let ?T = "(w_now w1, T)"
  have "everyone.kept {} {k} (w_now w, T) ([], w)" by (rule everyone_start [OF ok]) (simp add: new)
  note b = together(1) [OF before this, unfolded everyone_kept] together(3) [OF before this]
  then have w1: "sys_ok w1" "quiet ?T k w1" by (simp_all add: quiet_def)
  from upload_first_access [OF draw(1) [unfolded i(2)] draw(2)]
  have t: "t = t_bind (File_Upload_from bc (fileService url) req k) (\<lambda>r. Ret (FileUploaded r))"
    and "slug_io slugLength w1 = (Inr k, w2)" .
  with slug_same w1 have w2: "sys_ok w2" "quiet ?T k w2" by blast+
  let ?Q = "\<lambda>x r. \<forall>r'. r = FileUploaded r' \<longrightarrow> landed bc url req k x r'"
  have "sat (uploader {} k ?T) ?Q t (slot k w2)"
    unfolding t by (rule sat_bind [OF upload_sat [OF bc lasts]]) simp
  moreover have "\<forall>u \<in> set ts. ensures (keeper ({} \<union> {k}) {k} ?T) (\<lambda>x. True) u"
    using b by (auto simp: list_all_iff intro: keeper_later [of "(w_now w, T)"])
  ultimately have "upload.owned {} k ?T i ?Q (ts[i := t], w2)"
    using i(1) w2 unfolding upload_owned by auto
  from upload.owned_reachable [OF _ this] after [unfolded around_second [of "(w_now w, T)" ?T, simplified]]
  have "upload.owned {} k ?T i ?Q (ts', w')" by blast
  then show ?thesis unfolding upload_owned by auto
qed

text \<open>What a download that starts then answers.\<close>

lemma landed_download:
  assumes "sys_ok w" and "quiet T k w" and "landed bc url req k (slot k w) (Inr res)" and "validKey k"
  shows "\<exists>g. fst (File_Get bc (fileService url) k (fu_Password req) (w\<lparr>w_env := []\<rparr>)) =
      (if fu_OneUse req \<and> file_used (w_db w) k then Inl (Sentinel File_ErrAlreadyConsumed) else Inr g) \<and>
    fg_Content g = rd_data (fu_Content req) \<and> f_Filename (fg_F g) = fu_Filename req \<and> f_MimeType (fg_F g) = fu_MimeType req"
proof -
  let ?w = "w\<lparr>w_env := []\<rparr>"
  have calm: "all_calm ?w" "files_ok (w_db ?w)" using assms(1) by (simp_all add: all_calm_def sys_ok_def)
  from assms(3) obtain secret h t where up: "check_password bc h (fu_Password req)"
    "file_view (w_db w) k = Some (uploaded_file req k secret h t)" "fs_content (w_fs w) k = Some (rd_data (fu_Content req))"
    by (auto simp: landed_def slot_def)
  moreover have "\<not> is_expired (w_now w) (f_ExpiresAt (uploaded_file req k secret h t))"
    using assms(2) up(2) is_expired_mono by (auto simp: quiet_def)
  moreover define f where "f = uploaded_file req k secret h t"
  moreover have "f_OneUse f = fu_OneUse req" "f_PasswordHash f = h" "f_Filename f = fu_Filename req" "f_MimeType f = fu_MimeType req"
    by (simp_all add: f_def uploaded_file_def)
  ultimately show ?thesis
    using fsv.Get_calm [OF calm assms(4), of bc url "fu_Password req"]
    by (intro exI [of _ "\<lparr>fg_F = f, fg_Content = rd_data (fu_Content req), fg_ExpiresAt = f_ExpiresAt f, fg_IsImage = IsImage (f_MimeType f)\<rparr>"])
      (simp add: file_access_def)
qed

end
