(* ===== verification/Claims.thy ===== *)
theory Claims
  imports Together
begin

text \<open>
  One-use content among concurrent calls: of all calls in progress at most one is past the
  conditional update that sets the mark, and only that one can hand the content out.
\<close>

section \<open>The discipline\<close>

text \<open>
  All that is demanded is the final answer of a call, and no more after an access that set the
  mark of s: the call that made it may hand out the content.
\<close>

definition claimer :: "(db \<Rightarrow> string \<Rightarrow> 'e option) \<Rightarrow> (db \<Rightarrow> string \<Rightarrow> bool) \<Rightarrow> ('e \<Rightarrow> bool) \<Rightarrow> string \<Rightarrow> unit discipline" where
  "claimer view used one s =
     \<lparr>di_avoid = {s}, di_inv = (\<lambda>w. sys_ok w \<and> (\<forall>e. view (w_db w) s = Some e \<longrightarrow> one e)), di_guar = (\<lambda>w w'. True),
      di_own = (\<lambda>w. ()), di_done = (\<lambda>w w'. \<not> used (w_db w) s \<and> used (w_db w') s)\<rparr>"

lemma claimer_sel [simp]:
  "di_avoid (claimer view used one s) = {s}" "di_guar (claimer view used one s) w w'" "di_own (claimer view used one s) w = ()"
  "di_inv (claimer view used one s) w \<longleftrightarrow> sys_ok w \<and> (\<forall>e. view (w_db w) s = Some e \<longrightarrow> one e)"
  "di_done (claimer view used one s) w w' \<longleftrightarrow> \<not> used (w_db w) s \<and> used (w_db w') s"
  by (simp_all add: claimer_def)

section \<open>At most one winner\<close>

locale claims =
  fixes view :: "db \<Rightarrow> string \<Rightarrow> 'e option" and used :: "db \<Rightarrow> string \<Rightarrow> bool" and one :: "'e \<Rightarrow> bool"
    and served :: "string \<Rightarrow> outcome \<Rightarrow> bool" and bc :: bcrypt and url :: string
  assumes evolves: "evolving {s} d d' \<Longrightarrow> evolves view used s d d'"
    and used_view: "used d s \<Longrightarrow> view d s \<noteq> None"
    and calls: "\<not> takes_time c \<Longrightarrow> ensures (claimer view used one s) (\<lambda>x. \<not> served s x) (thread_of bc url c)"
begin

definition winners :: "string \<Rightarrow> outcome thread list \<Rightarrow> nat set" where
  "winners s ts = {i. i < length ts \<and> \<not> ensures (claimer view used one s) (\<lambda>x. \<not> served s x) (ts ! i)}"

definition claimed :: "string \<Rightarrow> system \<Rightarrow> bool" where
  "claimed s c = (case c of (ts, w) \<Rightarrow> everyone.kept {s} {} (0, 0) (ts, w) \<and> (\<forall>e. view (w_db w) s = Some e \<longrightarrow> one e) \<and>
     (\<forall>i \<in> winners s ts. \<forall>j \<in> winners s ts. i = j) \<and>
     (winners s ts = {} \<or> view (w_db w) s = None \<or> used (w_db w) s))"

lemma claimed_step:
  assumes "sys_step bc url (avoiding {s}) c c'" and "claimed s c"
  shows "claimed s c'"
proof -
  obtain ts w where c: "c = (ts, w)" by (rule prod.exhaust)
  obtain ts' w' where c': "c' = (ts', w')" by (rule prod.exhaust)
  have k: "everyone.kept {s} {} (0, 0) (ts, w)" and one: "\<And>e. view (w_db w) s = Some e \<Longrightarrow> one e"
    and W: "\<And>i j. i \<in> winners s ts \<Longrightarrow> j \<in> winners s ts \<Longrightarrow> i = j"
    and gone: "winners s ts = {} \<or> view (w_db w) s = None \<or> used (w_db w) s"
    using assms(2) by (auto simp: claimed_def c)
  note step = r_into_rtranclp [of "sys_step bc url (avoiding {s})", OF assms(1), unfolded c c', folded around_nothing(1) [of "{s}" "(0, 0)"]]
  note tog = together(1) [OF step k] together(4) [OF step k, unfolded Un_empty_right, THEN evolves]
  then have one': "\<forall>e. view (w_db w') s = Some e \<longrightarrow> one e" and ev: "view (w_db w) s = None \<or> used (w_db w) s \<Longrightarrow> view (w_db w') s = None \<or> used (w_db w') s"
    using one by (auto simp: evolves_def)
  have inv: "sys_ok w" using k [unfolded everyone_kept] by simp
  consider (old) "winners s ts' \<subseteq> winners s ts" | (new) i where "winners s ts = {}" "winners s ts' \<subseteq> {i}" "used (w_db w') s"
  proof (cases rule: sys_step_cases [OF assms(1) [unfolded c c']])
    case (1 i t)
    show ?thesis
    proof (cases "ensures (claimer view used one s) (\<lambda>x. \<not> served s x) (ts ! i)")
      case False
      with 1 show ?thesis by (intro old) (auto simp: winners_def nth_list_update split: if_splits)
    next
      case True
      have "drawn_by (ts ! i) w \<notin> Some ` Inr ` {s}" using 1 by (simp add: avoiding_def)
      with sat_move [of "claimer view used one s" "\<lambda>x x. \<not> served s x" "ts ! i" "()" w t w'] True 1 one inv
      consider "ensures (claimer view used one s) (\<lambda>x. \<not> served s x) t" | "\<not> used (w_db w) s" "used (w_db w') s"
        by (auto simp: ensures_def)
      then show ?thesis
      proof cases
        case a: 1
        with 1 show ?thesis by (intro old) (auto simp: winners_def nth_list_update split: if_splits)
      next
        case b: 2
        with used_view [of "w_db w'" s] tog(2) have "view (w_db w) s \<noteq> None" by (auto simp: evolves_def)
        with b gone have "winners s ts = {}" by simp
        moreover from this 1 have "winners s ts' \<subseteq> {i}" by (auto simp: winners_def nth_list_update split: if_splits)
        ultimately show ?thesis using b by (intro new)
      qed
    qed
  next
    case (2 d)
    with calls show ?thesis by (intro old) (auto simp: winners_def nth_append less_Suc_eq)
  next
    case (3 d bs env)
    then show ?thesis by (intro old) auto
  qed
  then show ?thesis
  proof cases
    case old
    with W gone ev tog(1) one' show ?thesis unfolding claimed_def c' by auto
  next
    case new
    then have "\<forall>a \<in> winners s ts'. \<forall>b \<in> winners s ts'. a = b" by blast
    with new(3) tog(1) one' show ?thesis unfolding claimed_def c' by auto
  qed
qed

lemma claimed_reachable: "(sys_step bc url (avoiding {s}))\<^sup>*\<^sup>* c c' \<Longrightarrow> claimed s c \<Longrightarrow> claimed s c'"
  by (induction rule: rtranclp_induct) (auto intro: claimed_step)

lemma served_once:
  assumes "sys_ok w" and "\<And>e. view (w_db w) s = Some e \<Longrightarrow> one e" and "(sys_step bc url (avoiding {s}))\<^sup>*\<^sup>* ([], w) (ts, w')"
    and "i < length ts" and "j < length ts" and "ts ! i = Ret x" and "ts ! j = Ret y" and "served s x" and "served s y"
  shows "i = j"
proof -
  have "claimed s ([], w)"
    using assms(1,2) everyone_start [of w "{}"] by (auto simp: claimed_def winners_def)
  from claimed_reachable [OF assms(3) this] assms(4-9) show ?thesis
    by (auto simp: claimed_def winners_def)
qed

end


section \<open>Files, pastes and archives\<close>

fun hands_file :: "string \<Rightarrow> outcome \<Rightarrow> bool" where
  "hands_file s (FileGot (Inr g)) = (f_Slug (fg_F g) = s)" | "hands_file s x = False"

fun hands_paste :: "string \<Rightarrow> outcome \<Rightarrow> bool" where
  "hands_paste s (PasteGot (Inr g)) = (p_Slug (pg_P g) = s)" | "hands_paste s x = False"

text \<open>An archive is handed out once its headers are sent, whether or not the streaming succeeds.\<close>

definition zip_header :: "string \<Rightarrow> (string \<times> string) list" where
  "zip_header s = [(''Content-Type'', ''application/zip''),
     (''Content-Disposition'', ''attachment; filename=\"'' @ s @ ''.zip\"'')]"

fun hands_archive :: "string \<Rightarrow> outcome \<Rightarrow> bool" where
  "hands_archive s (BucketZIPped r z) = (zr_header z = zip_header s)" | "hands_archive s x = False"

lemma zip_header_inj: "zip_header s = zip_header k \<longleftrightarrow> s = k"
  by (simp add: zip_header_def)

text \<open>A call whose answer cannot be of the kind in question keeps the discipline.\<close>

lemma claimer_free: "ensures (claimer view used one s) (\<lambda>x. True) t"
proof (induction t)
  case (Act f)
  show ?case
    unfolding ensures_def
  proof (rule sat_ActI, intro disjI2 conjI)
    fix w t w1 assume "f w = (t, w1)"
    with Act [of w] show "sat (claimer view used one s) (\<lambda>x x. True) t (di_own (claimer view used one s) w1)"
      by (simp add: ensures_def)
  qed simp
next
  case (Draw n g)
  then show ?case by (simp add: ensures_def split: prod.split)
qed simp

lemma claimer_other: "(\<And>r. ensures (claimer view used one s) Q (k r)) \<Longrightarrow> ensures (claimer view used one s) Q (t_bind t k)"
  by (rule ensures_bind [OF claimer_free])

text \<open>The lookup and the marking of a repository.\<close>

context repository begin

lemma claim_lookup:
  "access (claimer view used one s) (\<lambda>r. \<forall>e. r = Inr e \<longrightarrow> slug_of e = k \<and> (k = s \<longrightarrow> one e)) (rp_GetBySlug R k)"
  by (rule accessI) (auto dest: Get_Inr intro: view_slug)

lemma claim_mark:
  assumes "\<And>w. sys_ok w \<Longrightarrow> ok (w_db w)"
  shows "access (claimer view used one s) (\<lambda>r. r = Inr True \<longrightarrow> k \<noteq> s) (rp_Mark R k)"
  unfolding access_def using mark_sets [OF _ assms] by auto

end

lemma tables_ok: "sys_ok w \<Longrightarrow> files_ok (w_db w)" "sys_ok w \<Longrightarrow> pastes_ok (w_db w)" "sys_ok w \<Longrightarrow> buckets_ok (w_db w)"
  by (simp_all add: sys_ok_def)

lemma claim_clock: "(\<And>now. ensures (claimer view used one s) Q (k now)) \<Longrightarrow> ensures (claimer view used one s) Q (clock k)"
  by (rule ensures_clock) auto

lemma claim_file_get:
  "ensures (claimer file_view file_used f_OneUse s) (\<lambda>r. \<forall>g. r = Inr g \<longrightarrow> f_Slug (fg_F g) \<noteq> s) (File_Get_t bc (fileService url) k pw)"
proof -
  let ?E = "ensures (claimer file_view file_used f_OneUse s) (\<lambda>r. \<forall>g. r = Inr g \<longrightarrow> f_Slug (fg_F g) \<noteq> s)"
  have read: "?E (File_read_t (fileService url) f j)" if "f_Slug f \<noteq> s" for f j
    unfolding File_read_t_def by (rule ensures_wrap [OF claimer_free]) (simp_all add: that)
  have mark: "?E (t_wrap c (act (rp_Mark fileRepo (f_Slug f)))
      (\<lambda>consumed. if \<not> consumed then Ret (Inl e) else File_read_t (fileService url) f j))" for c e f j
    by (rule ensures_wrap [OF ensures_act [OF fr.claim_mark [OF tables_ok(1)]]]) (auto intro: read)
  show ?thesis
    unfolding File_Get_t_def program_parts
    by (rule ensures_lookup [OF ensures_act [OF fr.claim_lookup]]) (auto intro!: claim_clock mark read)
qed

lemma claim_paste_get:
  "ensures (claimer paste_view paste_used p_OneUse s) (\<lambda>r. \<forall>g. r = Inr g \<longrightarrow> p_Slug (pg_P g) \<noteq> s) (Paste_Get_t bc (pasteService url) k pw)"
proof -
  let ?E = "ensures (claimer paste_view paste_used p_OneUse s) (\<lambda>r. \<forall>g. r = Inr g \<longrightarrow> p_Slug (pg_P g) \<noteq> s)"
  have mark: "?E (t_wrap c (act (rp_Mark pasteRepo (p_Slug p)))
      (\<lambda>consumed. if \<not> consumed then Ret (Inl e) else Ret (Inr \<lparr>pg_P = p, pg_ExpiresAt = t\<rparr>)))" for c e p t
    by (rule ensures_wrap [OF ensures_act [OF pr.claim_mark [OF tables_ok(2)]]]) auto
  show ?thesis
    unfolding Paste_Get_t_def program_parts Let_def
    by (rule ensures_lookup [OF ensures_act [OF pr.claim_lookup]]) (auto intro!: claim_clock mark)
qed

lemma claim_zip_files:
  "ensures (claimer view used one s) (\<lambda>(r, z). zr_header z = zr_header zr) (zip_files_t svc bfs zr)"
proof (induction bfs arbitrary: zr)
  case (Cons bf bfs)
  have add: "zr_header (zip_add n d zr) = zr_header zr" for n d by (simp add: zip_add_def)
  show ?case
    unfolding zip_files_t.simps
    by (rule ensures_client_write, simp, auto simp: add split: sum.split
      intro!: ensures_bind [OF claimer_free] ensures_client_write)
     (use Cons [of "zip_add (bf_Filename bf) _ zr"] in \<open>simp add: add\<close>)
qed simp

text \<open>The row of a bucket tells whether it is one-use, whatever files are read with it later.\<close>

lemma claim_bucket_row:
  "access (claimer bucket_view bucket_used b_OneUse s)
     (\<lambda>r. \<forall>row. r = Inr row \<longrightarrow> k = s \<longrightarrow> (\<forall>fs. b_OneUse (bucket_of_row row fs))) (bucketRepo_row k)"
proof (rule accessI, rule conjI)
  fix w r w' assume inv: "di_inv (claimer bucket_view bucket_used b_OneUse s) w" and m: "bucketRepo_row k w = (r, w')"
  show "\<forall>row. r = Inr row \<longrightarrow> k = s \<longrightarrow> (\<forall>fs. b_OneUse (bucket_of_row row fs))"
  proof (intro allI impI)
    fix row fs assume "r = Inr row" "k = s"
    with m have "tbl_select br_slug s (db_buckets (w_db w)) = Some row"
      by (auto simp: bucketRepo_row_def sql_Query_def split: if_splits option.splits)
    with inv show "b_OneUse (bucket_of_row row fs)" by (simp add: bucket_view_def bucket_of_row_def)
  qed
qed simp

lemma claim_bucket_zip:
  "ensures (claimer bucket_view bucket_used b_OneUse s) (\<lambda>(r, z). zr_header z \<noteq> zip_header s)
     (Bucket_StreamZIP_t bc (bucketService url) k pw empty_response)"
proof -
  let ?D = "claimer bucket_view bucket_used b_OneUse s"
  have found: "ensures ?D (\<lambda>r. \<forall>b. r = Inr b \<longrightarrow> k = s \<longrightarrow> b_OneUse b) (bucketRepo_GetBySlug_t k)"
    unfolding bucketRepo_GetBySlug_t_def
    by (rule ensures_try [OF ensures_act [OF claim_bucket_row]], rule ensures_try [OF claimer_free]) auto
  have opened: "ensures ?D (\<lambda>r. \<forall>b. r = Inr b \<longrightarrow> k = s \<longrightarrow> b_OneUse b) (bucket_open_t bc c k pw)" for c
    unfolding bucket_open_t_def by (rule ensures_lookup [OF found]) (auto intro!: claim_clock)
  have mark: "ensures ?D (\<lambda>r. r = Inr () \<longrightarrow> k \<noteq> s) (Bucket_mark_t (bucketService url) one k)" if "k = s \<longrightarrow> one" for one
  proof (cases one)
    case True
    show ?thesis
      unfolding Bucket_mark_t_def program_parts if_P [OF True]
      by (rule ensures_wrap [OF ensures_act [OF br.claim_mark [OF tables_ok(3)]]]) auto
  qed (use that in \<open>simp add: Bucket_mark_t_def\<close>)
  have streamed: "ensures ?D (\<lambda>(r, z). zr_header z \<noteq> zip_header s)
      (t_bind (zip_files_t (bucketService url) bfs (empty_response\<lparr>zr_header := zip_header k\<rparr>))
        (\<lambda>(r, z). client_write (\<lambda>c. Ret (r, z\<lparr>zr_complete := c = 0\<rparr>))))" if "k \<noteq> s" for bfs
    by (rule ensures_bind [OF claim_zip_files]) (auto simp: zip_header_inj that intro!: ensures_client_write)
  show ?thesis
    unfolding Bucket_StreamZIP_t_def Let_def
    by (rule ensures_bind [OF opened])
      (auto simp: empty_response_def zip_header_def split: sum.split
        intro!: ensures_bind [OF mark] streamed [unfolded empty_response_def zip_header_def, simplified])
qed

lemma served_result [simp]:
  "hands_file s (FileGot r) \<longleftrightarrow> (\<exists>g. r = Inr g \<and> f_Slug (fg_F g) = s)"
  "hands_paste s (PasteGot q) \<longleftrightarrow> (\<exists>g. q = Inr g \<and> p_Slug (pg_P g) = s)"
  by (cases r; simp) (cases q; simp)

interpretation file_claims: claims file_view file_used f_OneUse hands_file bc url for bc url
proof unfold_locales
  show "ensures (claimer file_view file_used f_OneUse s) (\<lambda>x. \<not> hands_file s x) (thread_of bc url c)" if "\<not> takes_time c" for s c
  proof (cases c)
    case (FileGet k pw)
    then show ?thesis by (auto intro!: ensures_bind [OF claim_file_get])
  qed (use that in \<open>auto split: prod.split intro!: claimer_other\<close>)
qed (auto simp: evolving_def dest: fr.used_view)

interpretation paste_claims: claims paste_view paste_used p_OneUse hands_paste bc url for bc url
proof unfold_locales
  show "ensures (claimer paste_view paste_used p_OneUse s) (\<lambda>x. \<not> hands_paste s x) (thread_of bc url c)" if "\<not> takes_time c" for s c
  proof (cases c)
    case (PasteGet k pw)
    then show ?thesis by (auto intro!: ensures_bind [OF claim_paste_get])
  qed (use that in \<open>auto split: prod.split intro!: claimer_other\<close>)
qed (auto simp: evolving_def dest: pr.used_view)

interpretation bucket_claims: claims bucket_view bucket_used b_OneUse hands_archive bc url for bc url
proof unfold_locales
  show "ensures (claimer bucket_view bucket_used b_OneUse s) (\<lambda>x. \<not> hands_archive s x) (thread_of bc url c)" if "\<not> takes_time c" for s c
  proof (cases c)
    case (BucketZIP k pw)
    then show ?thesis by (auto intro!: ensures_bind [OF claim_bucket_zip])
  qed (use that in \<open>auto split: prod.split intro!: claimer_other\<close>)
qed (auto simp: evolving_def dest: br.used_view)

end
