(* ===== verification/Concurrency.thy ===== *)
theory Concurrency
  imports Concurrent_Upload Claims Demo
begin

text \<open>
  The properties of the program under concurrency, with concrete schedules: every call is a
  thread of single accesses, and any number of them interleave in any way.
\<close>

section \<open>Calls as threads\<close>


section \<open>What every interleaving keeps\<close>

text \<open>
  C6. The invariant of the program under concurrency: after every single access of any
  interleaving of any calls and sweeps, files and tables are consistent, the clock has not gone
  back, and an entity whose slug is not drawn anew is unchanged or gone and never regains a mark
  that was set.
\<close>

theorem concurrent_invariant:
  assumes "sys_ok w" and "(sys_step bc url (avoiding taken))\<^sup>*\<^sup>* ([], w) (ts, w')"
  shows "sys_ok w' \<and> w_now w \<le> w_now w' \<and> evolving taken (w_db w) (w_db w')"
proof -
  have "everyone.kept taken {} (0, 0) ([], w)" by (rule everyone_start [OF assms(1)]) simp
  from together(2-4) [OF assms(2) [folded around_nothing(1) [of taken "(0, 0)"]] this] show ?thesis by simp
qed

text \<open>Two downloads of a one-use file race: both have looked it up when the first marks it.\<close>

definition race :: "move list" where
  "race = [Begin (FileGet demo_slug ''pw''), Begin (FileGet demo_slug ''pw''), Go 0, Go 1, Go 1, Go 0, Begin Sweep, Go 1, Go 0, Go 2, Go 1]"

definition after_race :: system where
  "after_race = play plain_bcrypt '''' (avoiding {demo_slug}) race ([], demo_uploaded)"

lemma after_race_reached:
  "(sys_step plain_bcrypt '''' (avoiding {demo_slug}))\<^sup>*\<^sup>* ([], demo_uploaded) (fst after_race, snd after_race)"
  using play_reaches by (simp add: after_race_def)

lemma got_file: "(case returned t of Some (FileGot r) \<Rightarrow> P r | _ \<Rightarrow> False) \<Longrightarrow> \<exists>r. t = Ret (FileGot r) \<and> P r"
  by (cases t) (auto split: outcome.splits)

lemma race_outcome:
  "length (fst after_race) = 3 \<and>
   (case returned (fst after_race ! 0) of Some (FileGot r) \<Rightarrow> r = Inl (Sentinel File_ErrAlreadyConsumed) | _ \<Rightarrow> False) \<and>
   (case returned (fst after_race ! 1) of Some (FileGot r) \<Rightarrow>
      (case r of Inl e \<Rightarrow> False | Inr g \<Rightarrow> fg_Content g = ''abc'' \<and> f_Slug (fg_F g) = demo_slug) | _ \<Rightarrow> False)"
  by code_simp

text \<open>What the theorem gives for this race: one download won, the other was refused, a sweep has begun.\<close>

theorem concurrent_invariant_witness:
  "sys_ok (snd after_race) \<and> w_now demo_uploaded \<le> w_now (snd after_race) \<and>
   evolving {demo_slug} (w_db demo_uploaded) (w_db (snd after_race)) \<and> file_used (w_db (snd after_race)) demo_slug"
proof -
  have "file_used (w_db (snd after_race)) demo_slug" by code_simp
  with concurrent_invariant [OF demo_uploaded_ok after_race_reached] show ?thesis by simp
qed

text \<open>
  C4. One-use content under concurrency: of all calls that are ever made, however their accesses
  interleave with each other and with uploads, deletions and sweeps, no two are answered with the
  same one-use file, with the same one-use paste, or with any part of the archive of the same
  one-use bucket.
\<close>

theorem one_use_concurrent:
  assumes "sys_ok w" and "(sys_step bc url (avoiding {slug}))\<^sup>*\<^sup>* ([], w) (ts, w')"
    and "i < length ts" and "j < length ts" and "i \<noteq> j" and "ts ! i = Ret x" and "ts ! j = Ret y"
    and "\<And>f. file_view (w_db w) slug = Some f \<Longrightarrow> f_OneUse f"
    and "\<And>p. paste_view (w_db w) slug = Some p \<Longrightarrow> p_OneUse p"
    and "\<And>b. bucket_view (w_db w) slug = Some b \<Longrightarrow> b_OneUse b"
  shows "\<not> (hands_file slug x \<and> hands_file slug y) \<and> \<not> (hands_paste slug x \<and> hands_paste slug y) \<and>
    \<not> (hands_archive slug x \<and> hands_archive slug y)"
  using file_claims.served_once [OF assms(1,8,2,3,4,6,7)] paste_claims.served_once [OF assms(1,9,2,3,4,6,7)]
    bucket_claims.served_once [OF assms(1,10,2,3,4,6,7)] assms(5) by blast

lemma after_race_answers:
  obtains g where "fst after_race ! 0 = Ret (FileGot (Inl (Sentinel File_ErrAlreadyConsumed)))" "fst after_race ! 1 = Ret (FileGot (Inr g))"
    "f_Slug (fg_F g) = demo_slug" "length (fst after_race) = 3"
proof -
  note o = race_outcome [THEN conjunct2]
  from got_file [OF conjunct1 [OF o]] have a: "fst after_race ! 0 = Ret (FileGot (Inl (Sentinel File_ErrAlreadyConsumed)))" by auto
  from got_file [OF conjunct2 [OF o]] obtain r where r: "fst after_race ! 1 = Ret (FileGot r)"
    "case r of Inl e \<Rightarrow> False | Inr g \<Rightarrow> fg_Content g = ''abc'' \<and> f_Slug (fg_F g) = demo_slug" by blast
  with a race_outcome show thesis by (cases r) (auto intro: that)
qed

theorem one_use_concurrent_witness:
  "\<exists>x y. fst after_race ! 0 = Ret x \<and> fst after_race ! 1 = Ret y \<and> hands_file demo_slug y \<and>
    \<not> (hands_file demo_slug x \<and> hands_file demo_slug y)"
proof -
  have none: "paste_view (w_db demo_uploaded) demo_slug = None" "bucket_view (w_db demo_uploaded) demo_slug = None"
    by (simp_all add: demo_uploaded_db paste_view_def bucket_view_def tbl_select_def)
  from after_race_answers obtain g where a: "fst after_race ! 0 = Ret (FileGot (Inl (Sentinel File_ErrAlreadyConsumed)))"
    "fst after_race ! 1 = Ret (FileGot (Inr g))" "f_Slug (fg_F g) = demo_slug" "length (fst after_race) = 3" .
  have "\<not> (hands_file demo_slug (FileGot (Inl (Sentinel File_ErrAlreadyConsumed))) \<and> hands_file demo_slug (FileGot (Inr g)))"
    by (rule one_use_concurrent [OF demo_uploaded_ok after_race_reached _ _ _ a(1,2), THEN conjunct1])
      (use demo_uploaded_view none a in auto)
  with a show ?thesis by auto
qed

text \<open>
  C5. What is live is left alone: no interleaving of uploads, downloads, deletions of other files
  and sweeps changes the row or the bytes of a file before it expires; each sweep's list of
  expired rows may be old when it deletes them.
\<close>

theorem file_untouched_concurrently:
  assumes "sys_ok w" and "file_view (w_db w) slug = Some f" and "\<not> is_expired later (f_ExpiresAt f)" and "w_now w \<le> later"
    and "\<And>s b. bucket_view (w_db w) s = Some b \<Longrightarrow> slug \<notin> bucket_keys b"
    and "(sys_step bc url (around {} {slug} (w_now w, later)))\<^sup>*\<^sup>* ([], w) (ts, w')"
  shows "file_view (w_db w') slug = Some f \<and> fs_content (w_fs w') slug = fs_content (w_fs w) slug"
proof -
  have "everyone.kept {} {slug} (w_now w, later) ([], w)"
    by (rule everyone_start [OF assms(1)]) (use assms in \<open>auto simp: quiet_def\<close>)
  from together(5) [OF assms(6) this, of slug] assms(2) show ?thesis by simp
qed

text \<open>Five minutes on, with a second upload, a download and a sweep under way.\<close>

definition busy :: "move list" where
  "busy = [Begin (FileGet demo_slug ''pw''), Begin Sweep, Wait (300 * second) (replicate 100 1) [], Begin (FileUpload demo_request)] @
     concat (replicate 12 [Go 0, Go 1, Go 2])"

definition after_busy :: system where
  "after_busy = play plain_bcrypt '''' (around {} {demo_slug} (0, 500 * second)) busy ([], demo_uploaded)"

theorem file_untouched_concurrently_witness:
  "file_view (w_db (snd after_busy)) demo_slug = file_view (w_db demo_uploaded) demo_slug \<and>
   fs_content (w_fs (snd after_busy)) demo_slug = Some ''abc'' \<and>
   (case map returned (fst after_busy) of [Some (FileGot (Inr g)), Some (Swept a b c), Some (FileUploaded (Inr r))] \<Rightarrow>
      fur_Slug r = replicate 12 CHR ''b'' | _ \<Rightarrow> False)"
proof -
  have steps: "(sys_step plain_bcrypt '''' (around {} {demo_slug} (w_now demo_uploaded, 500 * second)))\<^sup>*\<^sup>* ([], demo_uploaded)
      (fst after_busy, snd after_busy)"
    using play_reaches by (simp add: after_busy_def demo_uploaded_now)
  have none: "bucket_view (w_db demo_uploaded) s = None" for s
    by (simp add: demo_uploaded_db bucket_view_def tbl_select_def)
  have live: "\<not> is_expired (500 * second) (Some (600 * second))" by (simp add: is_expired_def time_After_def time_units)
  from file_untouched_concurrently [OF demo_uploaded_ok demo_uploaded_view(1) _ _ _ steps] live none
  have "file_view (w_db (snd after_busy)) demo_slug = file_view (w_db demo_uploaded) demo_slug \<and>
     fs_content (w_fs (snd after_busy)) demo_slug = fs_content (w_fs demo_uploaded) demo_slug"
    by (simp add: demo_uploaded_view demo_uploaded_now time_units)
  moreover have "case map returned (fst after_busy) of [Some (FileGot (Inr g)), Some (Swept a b c), Some (FileUploaded (Inr r))] \<Rightarrow>
      fur_Slug r = replicate 12 CHR ''b'' | _ \<Rightarrow> False"
    by code_simp
  ultimately show ?thesis by (simp add: demo_uploaded_bytes)
qed


text \<open>
  C3. Round trip of an upload under concurrency: from the drawing of its slug on, whatever other
  calls and sweeps are in progress or begin, an upload that was answered with success left
  exactly its row and its bytes under the slug, they are still there at any later moment before
  the preset ends, and a download then, with the password and without further failures, returns
  them (a one-use file: until it is consumed). Assumed: nobody else draws this slug, and nobody
  calls Delete with it.
\<close>

theorem upload_concurrent:
  assumes bc: "bcrypt_ok bc" and ok: "sys_ok w"
    and new: "file_view (w_db w) slug = None" "\<And>s b. bucket_view (w_db w) s = Some b \<Longrightarrow> slug \<notin> bucket_keys b"
    and before: "(sys_step bc url (around {} {slug} (w_now w, later)))\<^sup>*\<^sup>* ([], w) (ts, w1)"
    and i: "i < length ts" "ts ! i = thread_of bc url (FileUpload req)"
    and draw: "fst (slug_io slugLength w1) = Inr slug" "advance (ts ! i) w1 = Some (t, w2)"
    and after: "(sys_step bc url (around {} {slug} (w_now w, later)))\<^sup>*\<^sup>* (ts[i := t], w2) (ts', w')"
    and answer: "ts' ! i = Ret (FileUploaded (Inr res))"
    and preset: "map_of file_validExpiries (fu_Expiry req) = Some d" and time: "w_now w \<le> later" "d = 0 \<or> later \<le> w_now w1 + d - second"
  shows "(\<exists>secret h x. res = File_result (fileService url) req slug secret x \<and> check_password bc h (fu_Password req) \<and>
      file_view (w_db w') slug = Some (uploaded_file req slug secret h x)) \<and>
    fs_content (w_fs w') slug = Some (rd_data (fu_Content req)) \<and>
    (\<exists>g. fst (File_Get bc (fileService url) slug (fu_Password req) (w'\<lparr>w_env := []\<rparr>)) =
        (if fu_OneUse req \<and> file_used (w_db w') slug then Inl (Sentinel File_ErrAlreadyConsumed) else Inr g) \<and>
      fg_Content g = rd_data (fu_Content req) \<and> f_Filename (fg_F g) = fu_Filename req \<and> f_MimeType (fg_F g) = fu_MimeType req)"
proof -
  have "quiet (w_now w, later) slug w" using new time(1) by (simp add: quiet_def)
  moreover have "lasts req (w_now w1, later)" using preset time(2) by (auto simp: lasts_def)
  ultimately have u: "sys_ok w'" "quiet (w_now w1, later) slug w'" "landed bc url req slug (slot slug w') (Inr res)"
    using upload_among_others [OF bc ok _ before i draw(2,1) _ after, of "Inr res"] answer by blast+
  have "validKey slug"
    using draw(1) slug_io_ok(2,3) [of slugLength w1 slug] by (cases "slug_io slugLength w1") (simp add: validKey_def)
  from landed_download [OF u this] u(3) show ?thesis by (auto simp: landed_def slot_def)
qed

text \<open>The second upload, with a sweep that listed before it, and a download of the new slug that came too early.\<close>

definition settle :: "move list" where
  "settle = [Go 0, Begin (FileGet demo_slug ''pw''), Go 2, Go 1, Go 0, Go 1, Go 1, Go 0, Go 1, Go 0, Go 0, Go 1, Wait second [] []]"

definition settle_limits :: limits where
  "settle_limits = around {} {demo_slug} (w_now demo_world, 500 * second)"

definition drawn :: "outcome thread" where
  "drawn = fst (the (advance (thread_of plain_bcrypt '''' (FileUpload demo_request)) demo_world))"

definition drawn_world :: world where
  "drawn_world = snd (the (advance (thread_of plain_bcrypt '''' (FileUpload demo_request)) demo_world))"

definition settled :: system where
  "settled = play plain_bcrypt '''' settle_limits settle ([drawn, thread_of plain_bcrypt '''' Sweep], drawn_world)"

lemma settled_answer:
  "case returned (fst settled ! 0) of Some (FileUploaded r) \<Rightarrow> (case r of Inl e \<Rightarrow> False | Inr res \<Rightarrow> True) | _ \<Rightarrow> False"
  by code_simp


theorem upload_concurrent_witness:
  "fs_content (w_fs (snd settled)) demo_slug = Some ''abc'' \<and>
   (\<exists>g. fst (File_Get plain_bcrypt (fileService '''') demo_slug ''pw'' ((snd settled)\<lparr>w_env := []\<rparr>)) =
      (if file_used (w_db (snd settled)) demo_slug then Inl (Sentinel File_ErrAlreadyConsumed) else Inr g) \<and> fg_Content g = ''abc'')"
proof -
  let ?up = "thread_of plain_bcrypt '''' (FileUpload demo_request)" and ?L = "around {} {demo_slug} (w_now demo_world, 500 * second)"
  from settled_answer obtain res where res: "fst settled ! 0 = Ret (FileUploaded (Inr res))"
    by (cases "fst settled ! 0") (auto split: outcome.splits sum.splits)
  have before: "(sys_step plain_bcrypt '''' ?L)\<^sup>*\<^sup>* ([], demo_world) ([?up, thread_of plain_bcrypt '''' Sweep], demo_world)"
    using play_reaches [of plain_bcrypt "''''" ?L "([], demo_world)" "[Begin (FileUpload demo_request), Begin Sweep]"]
    by (simp add: play_def around_def)
  have adv: "advance ?up demo_world = Some (drawn, drawn_world)"
    by (simp add: drawn_def drawn_world_def File_Upload_t_def t_wrap_def split: prod.split)
  have after: "(sys_step plain_bcrypt '''' ?L)\<^sup>*\<^sup>* ([?up, thread_of plain_bcrypt '''' Sweep][0 := drawn], drawn_world) (fst settled, snd settled)"
    using play_reaches by (simp add: settled_def settle_limits_def)
  have slug: "fst (slug_io slugLength demo_world) = Inr demo_slug" by code_simp
  have preset: "map_of file_validExpiries (fu_Expiry demo_request) = Some (10 * minute)"
    by (simp add: demo_request_def file_validExpiries_def)
  have empty: "w_db demo_world = w_db initial" "w_now demo_world = 0" by (simp_all add: demo_world_def initial_def)
  have new: "file_view (w_db demo_world) s = None" "bucket_view (w_db demo_world) s = None" for s
    by (simp_all add: empty initial_def file_view_def bucket_view_def tbl_select_def)
  have time: "w_now demo_world \<le> 500 * second" "10 * minute = 0 \<or> 500 * second \<le> w_now demo_world + 10 * minute - second"
    by (simp_all add: empty time_units)
  have fields: "fu_Password demo_request = ''pw''" "rd_data (fu_Content demo_request) = ''abc''"
    "fu_OneUse demo_request \<and> b \<longleftrightarrow> b" for b
    by (simp_all add: demo_request_def)
  have "fs_content (w_fs (snd settled)) demo_slug = Some (rd_data (fu_Content demo_request)) \<and>
    (\<exists>g. fst (File_Get plain_bcrypt (fileService '''') demo_slug (fu_Password demo_request) ((snd settled)\<lparr>w_env := []\<rparr>)) =
        (if fu_OneUse demo_request \<and> file_used (w_db (snd settled)) demo_slug then Inl (Sentinel File_ErrAlreadyConsumed) else Inr g) \<and>
      fg_Content g = rd_data (fu_Content demo_request) \<and> f_Filename (fg_F g) = fu_Filename demo_request \<and>
      f_MimeType (fg_F g) = fu_MimeType demo_request)"
    by (rule conjunct2 [OF upload_concurrent [OF plain_bcrypt_ok demo_ok(1) new(1) _ before _ _ slug _ after res preset time]])
      (simp_all add: new adv del: thread_of.simps)
  then show ?thesis unfolding fields by blast
qed

section \<open>A download that overlaps a deletion\<close>

text \<open>
  A deletion removes the bytes before the row. A download whose mark falls between the two is
  answered with an internal error, and the one-use mark is set; one whose mark comes after both
  is told that the file was consumed already, although nobody got it.
\<close>

definition overlap :: "nat list \<Rightarrow> outcome option" where
  "overlap is = returned (fst (play plain_bcrypt '''' unlimited
     ([Begin (FileGet demo_slug ''pw''), Begin (FileDelete demo_slug (replicate 24 CHR ''a''))] @ map Go is) ([], demo_uploaded)) ! 0)"

theorem delete_overlaps_download:
  "(case overlap [0, 0, 1, 1, 0, 0] of Some (FileGot r) \<Rightarrow>
      r = Inl (Wrap ''file service get: read bytes'' (Sentinel Os_ErrNotExist)) | _ \<Rightarrow> False) \<and>
   (case overlap [0, 0, 1, 1, 1, 0] of Some (FileGot r) \<Rightarrow> r = Inl (Sentinel File_ErrAlreadyConsumed) | _ \<Rightarrow> False)"
  by code_simp

end
