(* ===== verification/Spec2Isabelle.thy ===== *)
theory Spec2Isabelle
  imports Web_Content Lifecycle Interleaving Process_Life Concurrency
begin

text \<open>
  PBIN: A VERIFIED MODEL OF A FILE, PASTE AND BUCKET SHARING SERVER

  The program (Go, module github.com/ahmethakanbesel/pbin) accepts uploads over HTTP, keeps
  metadata in SQLite and bytes in a directory, and serves them under random slugs until they
  expire, are consumed (one-use) or are deleted with a secret. This development models all of
  cmd/pbin and internal/, from the start-up of main to its last deferred call and from the bytes
  of the random source to the bodies of the responses.

  HOW A REQUEST RUNS. main.go builds a mux (Router: serve_mux, catch_all) whose routes call the
  handlers (File_Handler, Paste_Handler, Bucket_Handler, Pages), partly behind BasicAuth (Http).
  A handler calls a service (File_Service, Paste_Service, Bucket_Service); a service draws slugs
  (Slug), and calls a repository (File_Repo, Paste_Repo, Bucket_Repo over Sql) and the file store
  (FileStore). A goroutine (Worker) sweeps expired content through the same repositories
  (Cleanup). Everything happens on one state, World.world: the directory tree, the tables, the
  clock, the random bytes still to be read, and a list of choices with which the environment
  makes calls fail: every system call and every SQL statement takes the next choice and
  fails, in the way it names, unless it is 0 (an empty list means no failures).
  An operation is a function from the world to a result and the new world;
  an error is the Inl of a sum, with the sentinels and wrappings of the code (Prelude.error).

  THEORIES, in the order of their imports:
  \<^item> Prelude: bytes, instants, Go errors, generic lemmas. Slug: internal/slug/slug.go with the
    rejection sampling of crypto/rand.Int. World: the state and its failing primitives.
  \<^item> FileStore: internal/filestore; locale file_store (what a Backend promises), interpreted as
    lfs on LocalFS. Sql: the statements on tables. Repository: locale repository (lookup,
    conditional mark, delete, list of expired rows), interpreted as fr and pr by File_Repo and
    Paste_Repo; Bucket_Repo has the extension with file rows and cascade, bucket_repository,
    interpreted as br. File_Entity, Paste_Entity, Bucket_Entity: the domain structs and presets.
  \<^item> Service_Common: what the three services share (lookup, password, expiry) and the preorders
    on worlds that carry the frame proofs. File_Service, Paste_Service, Bucket_Service: one
    definition per method of internal/domain/*/service.go, their lemmas in the locales
    file_service_laws, paste_service_laws and bucket_service_laws over the two interfaces,
    interpreted as fsv, psv and bsv on the program's own store and repositories.
  \<^item> Cleanup: the sweep of internal/worker/cleanup.go. System: the program as calls of the
    services (call, exec, run), its invariant sys_ok and keys_ok, and how content evolves along
    runs.
  \<^item> Threads: a goroutine as a sequence of accesses to what all share. Calls: every call and the
    sweep as such a thread (the definitions ending in _t), each equal to the service operation when
    nothing interrupts it (run_call). Cooperation: sys_step, the program as any number of threads
    that take their accesses in any order while calls begin and time passes; disciplines, what a
    thread relies on and guarantees at each access; locales pool and owned_pool, what follows for all
    interleavings. Keeper: what every call guarantees, statement by statement (keep_call), which
    interprets pool in Together as everyone. Concurrent_Upload: the upload as the owner of its
    slug (owned_pool, interpreted as upload). Claims: locale claims, one use, interpreted for files,
    pastes and archives. Concurrency: the properties, with schedules that are executed.
    Interleaving: an earlier, coarser cut of the three reads only, with whole calls in between.
  \<^item> Text: strings, UTF-8, the HTML, URL and header quoting of the standard library. Http:
    requests, responses, headers, baseurl.go, health.go, middleware/auth.go. Sniff: content
    sniffing and the magic numbers of images. Templates, Pages: every page of
    handler/{html,ui,file,paste,bucket}.go as the text it writes.
  \<^item> File_Handler, Paste_Handler, Bucket_Handler: internal/handler. Router: the routes of
    main.go. Server: requests as calls of the services. Demo: the concrete worlds of the
    witnesses. Web, Web_Content: properties of whole requests.
  \<^item> Worker: the goroutine of cleanup.go as a state machine. Database: storage/db.go. Config:
    internal/config. Lifecycle: their properties.
  \<^item> Vault: the abstract specification. Its state has three shelves of entities with a consumed
    flag, the bytes by key and the clock; per call a relation says what may be answered and what
    changes. vault_of maps a world to it; exec_promise and run_promise are the refinement, and
    vault_typed is what the specification keeps of the entities. Promises: the properties.
  \<^item> Process: the start-up sequence of main.go (main_start, with its exits) and the running
    process (main_event, process_step): phase of main, listener, requests in flight, the goroutine
    of Worker, the pools of Database, the world. process_inv ties them together, history says
    which events a phase implies, load is the measure of a shutdown. Process_Life: the properties.

  WHAT THE PROPERTIES SHOW. C1, C2, C8: the program refines the abstract specification, as calls
  and as a process, and its tables are well typed. C3 to C7: every call cut into its accesses, and
  any interleaving of any number of calls and sweeps: an upload that was answered is there and stays
  (C3), one use (C4), live content is never touched (C5), the invariant after every access (C6), and
  that the threads are the service operations (C7). C9 to C16, C19 to C23: each service does what its
  interface promises, in runs with arbitrary other calls and failures in between (round trips, one
  use, expiry, passwords, deletion, failures). C17, C18: the sweep. C24, C25: the file store. C26:
  the slugs. C27 to C34: the same as seen from the network, with headers, authentication, pages and
  routes. C35 to C37: start-up, the ways the process ends, and that a shutdown ends. C38, C39: the
  goroutine of the sweeps. C40: the configuration. Theorems without a number support these: the
  shape of slugs, one use of pastes and archives for calls in a row, the invariant of runs, one use
  for reads cut into three steps, a download that overlaps a deletion, requests as calls of the
  services, the share page's markup, the two HTML escapings, and that opening the database leaks no
  pool.

  ASSUMPTIONS AND PARAMETERS. bcrypt is a parameter (Service_Common.bcrypt) of which bcrypt_ok says that
  a generated hash matches its password, is not empty, and that passwords of more than 72 bytes
  are refused; plain_bcrypt is an instance. strconv's table of printable runes, the query and
  form parser, the JSON decoder, koanf, goose and the SQLite driver are parameters or answer by
  the list of choices. runs exclude, where stated (redraws), that a later upload draws a slug
  that is already in use: the code does not check this for bytes (see the findings). In the same
  way an interleaving may exclude strings that are drawn (avoiding), and for statements about one
  file also the deletion of that file and times after its expiry (around). An access of a thread
  is atomic: one SQL statement with its cursor, one store operation (a write publishes its bytes by
  a rename, a read keeps the file it opened), one draw, one look at the clock, one write to the
  client.

  BOUNDS AND FUEL. No definition has fuel of its own: the rejection sampling of slugs recurses
  on the list of random bytes, which it consumes, and runs dry with an error; the 10000 tries of
  FileStore.pick_temp are those of os.CreateTemp; all other loops are over lists. Time is an int of nanoseconds:
  the only sums are now plus a preset of at most one year. Sizes are ints; the limits of the
  code (MaxBytesReader, 72 bytes, 512 sniffed bytes) are written out. Bytes are the type char.

  NOT MODELLED. main's flags and logging (pure I/O); TCP and the time-outs of the server (that
  the ten seconds of Shutdown are over is an event that may come at any time); in Process the
  answer to a request and a sweep are atomic (their interleavings are the subject of Cooperation);
  running the migrations (the tables are those of 001_init.sql); the byte format of
  archive/zip (an archive is the list of its entries) and of JSON (bodies are values);
  the CONNECT method and the host-specific patterns of ServeMux, which the program does not use;
  cancellation of contexts beyond a client that disconnects during an upload; what a browser
  does with the scripts and styles of the pages (they are text here); go test files.
\<close>

section \<open>Files\<close>

text \<open>
  C9. Round trip of a file: whoever uploads a file and asks for its slug with the same password
  at any time up to one second before the preset's end gets the same bytes, name, type and
  metadata back, provided nothing fails on the way and the file was not touched in between.
\<close>

theorem file_upload_then_get:
  assumes "bcrypt_ok bc" and "sys_ok w"
    and up: "File_Upload bc (fileService url) req w = (Inr res, w1)"
    and x: "map_of file_validExpiries (fu_Expiry req) = Some d"
    and t: "d = 0 \<or> t \<le> w_now w + d - second"
    and w2: "w2 = w1\<lparr>w_now := t, w_env := []\<rparr>"
  shows "\<exists>g. fst (File_Get bc (fileService url) (fur_Slug res) (fu_Password req) w2) = Inr g \<and>
    fg_Content g = rd_data (fu_Content req) \<and> f_Filename (fg_F g) = fu_Filename req \<and>
    f_MimeType (fg_F g) = fu_MimeType req \<and> f_Size (fg_F g) = fu_Size req \<and>
    fg_ExpiresAt g = map_option to_second (fur_ExpiresAt res) \<and> fg_IsImage g = fur_IsImage res"
  using file_round_trip [OF assms(1-5), of w2] w2 by (simp add: all_calm_def)

theorem file_upload_then_get_witness:
  "\<exists>g. fst (File_Get plain_bcrypt (fileService '''') demo_slug ''pw'' (demo_uploaded\<lparr>w_now := 5, w_env := []\<rparr>)) = Inr g \<and>
    fg_Content g = ''abc''"
proof -
  obtain res where up: "File_Upload plain_bcrypt (fileService '''') demo_request demo_world = (Inr res, demo_uploaded)"
    and s: "fur_Slug res = demo_slug" using demo_upload by blast
  have x: "map_of file_validExpiries (fu_Expiry demo_request) = Some (10 * minute)"
    by (simp add: demo_request_def file_validExpiries_def)
  have "(5 :: int) \<le> w_now demo_world + 10 * minute - second"
    by (simp add: demo_world_def initial_def time_units)
  then show ?thesis
    using file_upload_then_get [OF plain_bcrypt_ok demo_ok(1) up x _ refl, of 5] s by (auto simp: demo_request_def)
qed

text \<open>
  C10. Progress of an upload: in an environment without failures, with a preset the form offers,
  a password of at most 72 bytes and enough random bytes, an upload whose client does not
  disconnect succeeds under the slug drawn first, as long as no other file has that slug.
\<close>

theorem file_upload_succeeds:
  assumes "bcrypt_ok bc" and "sys_ok w" and "all_calm w" and "fs_clean (w_fs w)"
    and "slug_io slugLength w = (Inr slug, w1)" and "slug_io deleteSecretLength w1 = (Inr secret, w2)"
    and "length (fu_Password req) \<le> 72" and "16 \<le> length (w_rand w2)"
    and "map_of file_validExpiries (fu_Expiry req) \<noteq> None" and "\<not> rd_fails (fu_Content req)"
    and "file_view (w_db w) slug = None"
  shows "\<exists>res w'. File_Upload bc (fileService url) req w = (Inr res, w') \<and> fur_Slug res = slug"
  using File_Upload_calm [OF assms(3) _ assms(4,1,5-11)] assms(2) by (simp add: sys_ok_def)

theorem file_upload_succeeds_witness:
  "\<exists>res w'. File_Upload plain_bcrypt (fileService '''') demo_request demo_world = (Inr res, w') \<and>
    fur_Slug res = demo_slug"
proof -
  define w1 where "w1 = snd (slug_io slugLength demo_world)"
  define w2 where "w2 = snd (slug_io deleteSecretLength w1)"
  have f: "fst (slug_io slugLength demo_world) = Inr demo_slug" "fst (slug_io deleteSecretLength w1) = Inr (replicate 24 CHR ''a'')"
    "16 \<le> length (w_rand w2)"
    unfolding w1_def w2_def by code_simp+
  have "slug_io slugLength demo_world = (Inr demo_slug, w1)" "slug_io deleteSecretLength w1 = (Inr (replicate 24 CHR ''a''), w2)"
    using f(1,2) by (simp_all add: w1_def w2_def prod_eq_iff)
  moreover have "file_view (w_db demo_world) demo_slug = None" "all_calm demo_world" "fs_clean (w_fs demo_world)"
    by (simp_all add: demo_world_def initial_def file_view_def tbl_select_def all_calm_def fs_clean_def)
  moreover have "length (fu_Password demo_request) \<le> 72" "map_of file_validExpiries (fu_Expiry demo_request) \<noteq> None"
    "\<not> rd_fails (fu_Content demo_request)" by (simp_all add: demo_request_def file_validExpiries_def)
  ultimately show ?thesis
    using f(3) by (intro file_upload_succeeds [where ?w1.0 = w1 and ?w2.0 = w2]) simp_all
qed



text \<open>
  C12. What a download answers, in full: not found; expired; wrong password (also for an empty
  one); already consumed; the stored bytes with the metadata of the file; or the error of the
  store when the bytes are missing. The order of the checks is part of the statement.
\<close>

theorem file_get_decision:
  assumes "all_calm w" and "sys_ok w" and "validKey s"
  shows "fst (File_Get bc (fileService url) s pw w) =
    (case file_view (w_db w) s of
       None \<Rightarrow> Inl (Sentinel File_ErrNotFound)
     | Some f \<Rightarrow>
         if is_expired (w_now w) (f_ExpiresAt f) then Inl (Sentinel File_ErrExpired)
         else if f_PasswordHash f \<noteq> [] \<and> (pw = [] \<or> bc_Compare bc (f_PasswordHash f) pw \<noteq> None)
         then Inl (Sentinel File_ErrWrongPassword)
         else if f_OneUse f \<and> file_used (w_db w) s then Inl (Sentinel File_ErrAlreadyConsumed)
         else (case fs_content (w_fs w) s of
             None \<Rightarrow> Inl (Wrap ''file service get: read bytes'' (Sentinel Os_ErrNotExist))
           | Some d \<Rightarrow> Inr \<lparr>fg_F = f, fg_Content = d, fg_ExpiresAt = f_ExpiresAt f,
               fg_IsImage = IsImage (f_MimeType f)\<rparr>))"
proof -
  have "files_ok (w_db w)" using assms(2) by (simp add: sys_ok_def)
  from File_Get_calm [OF assms(1) this assms(3)] show ?thesis
    by (auto simp: file_access_def check_password_def split: option.split)
qed

theorem file_get_decision_witness:
  "fst (File_Get plain_bcrypt (fileService '''') demo_slug ''no'' (demo_uploaded\<lparr>w_env := []\<rparr>)) =
    Inl (Sentinel File_ErrWrongPassword)"
proof -
  let ?w = "demo_uploaded\<lparr>w_env := []\<rparr>"
  have ok: "all_calm ?w" "sys_ok ?w" using demo_uploaded_ok by (simp_all add: all_calm_def sys_ok_def)
  show ?thesis
    unfolding file_get_decision [OF ok demo_slug_valid]
    by (simp add: demo_uploaded_view demo_uploaded_now plain_bcrypt_def is_expired_def time_After_def second_def)
qed

section \<open>Properties of every run\<close>

text \<open>
  C13. A one-use file is handed out at most once: after a download that succeeded, no later
  download of the slug succeeds, whatever calls (other uploads and downloads, deletions, sweeps)
  and failures lie between, as long as no later upload draws the same slug.
\<close>

theorem one_use_file_once:
  assumes "bcrypt_ok bc" and "sys_ok w"
    and get: "File_Get bc (fileService url) s pw w = (Inr g, w1)" and one: "f_OneUse (fg_F g)"
    and cs: "run bc url cs w1 = (xs, w2)" and nd: "\<not> redraws bc url s cs w1"
    and get': "File_Get bc (fileService url) s pw' w2 = (r, w3)"
  shows "\<exists>er. r = Inl er"
proof -
  have e: "exec bc url (FileGet s pw) w = (FileGot (Inr g), w1)" using get by simp
  note ok1 = exec_sys_ok(1) [OF e assms(2)]
  have dok: "files_ok (w_db w)" "files_ok (w_db w2)"
    using assms(2) run_sys_ok [OF cs ok1] by (simp_all add: sys_ok_def)
  have "file_view (w_db w1) s = Some (fg_F g)" "file_used (w_db w1) s"
    using File_Get_Inr [OF get dok(1)] File_Get_frame [OF get] one by simp_all
  with run_evolves(1) [OF cs ok1 assms(1) nd]
  have "file_view (w_db w2) s = None \<or> file_view (w_db w2) s = Some (fg_F g) \<and> file_used (w_db w2) s"
    by (auto simp: evolves_def)
  with one File_Get_Inr [OF _ dok(2), of bc url s pw' _ w3] get' show ?thesis
    by (cases r) (auto simp: file_access_Inr)
qed

theorem one_use_file_once_witness:
  "\<exists>er. fst (File_Get plain_bcrypt (fileService '''') demo_slug ''pw''
     (snd (File_Get plain_bcrypt (fileService '''') demo_slug ''pw'' demo_uploaded))) = Inl er"
proof -
  let ?get = "File_Get plain_bcrypt (fileService '''') demo_slug ''pw''"
  have "case fst (?get demo_uploaded) of Inl e \<Rightarrow> False | Inr g \<Rightarrow> f_OneUse (fg_F g)" by code_simp
  then obtain g where g: "?get demo_uploaded = (Inr g, snd (?get demo_uploaded))" "f_OneUse (fg_F g)"
    using result_cases by blast
  show ?thesis
    by (rule one_use_file_once [OF plain_bcrypt_ok demo_uploaded_ok g _ _ surjective_pairing, of "[]"]) simp_all
qed

text \<open>
  The same for a one-use paste: at most one reader gets it.
\<close>

theorem one_use_paste_once:
  assumes "bcrypt_ok bc" and "sys_ok w"
    and get: "Paste_Get bc (pasteService url) s pw w = (Inr g, w1)" and one: "p_OneUse (pg_P g)"
    and cs: "run bc url cs w1 = (xs, w2)" and nd: "\<not> redraws bc url s cs w1"
    and get': "Paste_Get bc (pasteService url) s pw' w2 = (r, w3)"
  shows "\<exists>er. r = Inl er"
proof -
  have e: "exec bc url (PasteGet s pw) w = (PasteGot (Inr g), w1)" using get by simp
  note ok1 = exec_sys_ok(1) [OF e assms(2)]
  have dok: "pastes_ok (w_db w)" "pastes_ok (w_db w2)"
    using assms(2) run_sys_ok [OF cs ok1] by (simp_all add: sys_ok_def)
  have "paste_view (w_db w1) s = Some (pg_P g)" "paste_used (w_db w1) s"
    using Paste_Get_Inr [OF get dok(1)] Paste_Get_frame [OF get] one by simp_all
  with run_evolves(2) [OF cs ok1 assms(1) nd]
  have "paste_view (w_db w2) s = None \<or> paste_view (w_db w2) s = Some (pg_P g) \<and> paste_used (w_db w2) s"
    by (auto simp: evolves_def)
  with one Paste_Get_Inr [OF _ dok(2), of bc url s pw' _ w3] get' show ?thesis
    by (cases r) (auto simp: paste_access_Inr)
qed

theorem one_use_paste_once_witness:
  "\<exists>er. fst (Paste_Get plain_bcrypt (pasteService '''') demo_slug ''''
     (snd (Paste_Get plain_bcrypt (pasteService '''') demo_slug '''' demo_pasted))) = Inl er"
proof -
  let ?get = "Paste_Get plain_bcrypt (pasteService '''') demo_slug ''''"
  have "case fst (?get demo_pasted) of Inl e \<Rightarrow> False | Inr g \<Rightarrow> p_OneUse (pg_P g)" by code_simp
  from result_cases [OF this] obtain g where g: "?get demo_pasted = (Inr g, snd (?get demo_pasted))" "p_OneUse (pg_P g)"
    by blast
  show ?thesis
    by (rule one_use_paste_once [OF plain_bcrypt_ok demo_pasted_ok g _ _ surjective_pairing, of "[]"]) simp_all
qed

text \<open>
  The same for the ZIP of a one-use bucket. (The single files of the bucket are another
  matter: see the property on them below.)
\<close>

theorem one_use_bucket_zip_once:
  assumes "bcrypt_ok bc" and "sys_ok w"
    and zip: "Bucket_StreamZIP bc (bucketService url) s pw zr w = ((Inr (), zr'), w1)"
    and one: "\<exists>b. bucket_view (w_db w) s = Some b \<and> b_OneUse b"
    and cs: "run bc url cs w1 = (xs, w2)" and nd: "\<not> redraws bc url s cs w1"
    and zip': "Bucket_StreamZIP bc (bucketService url) s pw' zr2 w2 = ((r, zr3), w3)"
  shows "\<exists>er. r = Inl er"
proof -
  have dok: "buckets_ok (w_db w)" using assms(2) by (simp add: sys_ok_def)
  note z = Bucket_StreamZIP_spec [OF zip dok]
  have fs: "svc_frame not_buckets buckets_ok fs_ok w w1"
    using z by (auto intro: svc_frame_db)
  note ok1 = svc_frame_sys_ok(3) [OF fs assms(2)]
  have dok2: "buckets_ok (w_db w2)" using run_sys_ok [OF cs ok1] by (simp add: sys_ok_def)
  from one obtain b where b: "bucket_view (w_db w) s = Some b" "b_OneUse b" by blast
  with z have "bucket_view (w_db w1) s = Some b" "bucket_used (w_db w1) s" by auto
  with run_evolves(3) [OF cs ok1 assms(1) nd]
  have "bucket_view (w_db w2) s = None \<or> bucket_view (w_db w2) s = Some b \<and> bucket_used (w_db w2) s"
    by (auto simp: evolves_def)
  with b Bucket_StreamZIP_spec [OF zip' dok2] show ?thesis by (cases r) auto
qed

theorem one_use_bucket_zip_once_witness:
  "\<exists>er. fst (fst (Bucket_StreamZIP plain_bcrypt (bucketService '''') demo_slug '''' empty_response
     (snd (Bucket_StreamZIP plain_bcrypt (bucketService '''') demo_slug '''' empty_response demo_bucketed)))) = Inl er"
proof -
  let ?zip = "Bucket_StreamZIP plain_bcrypt (bucketService '''') demo_slug '''' empty_response"
  have "fst (fst (?zip demo_bucketed)) = Inr ()" by code_simp
  then have z: "?zip demo_bucketed = ((Inr (), snd (fst (?zip demo_bucketed))), snd (?zip demo_bucketed))"
    by (simp add: prod_eq_iff)
  have one: "\<exists>b. bucket_view (w_db demo_bucketed) demo_slug = Some b \<and> b_OneUse b"
    using demo_bucketed_view by (auto split: option.splits)
  have "?zip (snd (?zip demo_bucketed)) = ((fst (fst (?zip (snd (?zip demo_bucketed)))),
      snd (fst (?zip (snd (?zip demo_bucketed))))), snd (?zip (snd (?zip demo_bucketed))))" by simp
  then show ?thesis
    by (rule one_use_bucket_zip_once [OF plain_bcrypt_ok demo_bucketed_ok z one, of "[]", rotated 2]) simp_all
qed

text \<open>
  C14. Expiry is enforced on reading: once the preset's time is over, no download of the file
  succeeds any more, whether or not the cleanup worker has run.
\<close>

theorem file_expiry_enforced:
  assumes "bcrypt_ok bc" and "sys_ok w"
    and up: "File_Upload bc (fileService url) req w = (Inr res, w1)"
    and x: "map_of file_validExpiries (fu_Expiry req) = Some d" and d: "0 < d"
    and cs: "run bc url cs w1 = (xs, w2)" and nd: "\<not> redraws bc url (fur_Slug res) cs w1"
    and late: "w_now w + d < w_now w2"
    and get: "File_Get bc (fileService url) (fur_Slug res) pw w2 = (r, w3)"
  shows "r = Inl (Sentinel File_ErrExpired) \<or> r = Inl (Sentinel File_ErrNotFound) \<or> (\<exists>er. r = Inl er \<and> low_error er)"
proof -
  have e: "exec bc url (FileUpload req) w = (FileUploaded (Inr res), w1)" using up by simp
  note ok1 = exec_sys_ok(1) [OF e assms(2)]
  have dok: "files_ok (w_db w)" "files_ok (w_db w2)"
    using assms(2) run_sys_ok [OF cs ok1] by (simp_all add: sys_ok_def)
  obtain f where "file_view (w_db w1) (fur_Slug res) = Some f"
    and f: "f_ExpiresAt f = map_option to_second (expiry_instant d (w_now w))"
    using up dok(1) assms(1)
  proof (cases rule: File_Upload_Inr)
    case (uploaded slug secret h d')
    with x that [of "uploaded_file req slug secret h (expiry_instant d (w_now w))"] show ?thesis
      by (simp add: uploaded_file_def File_result_def)
  qed
  with run_evolves(1) [OF cs ok1 assms(1) nd]
  have v: "file_view (w_db w2) (fur_Slug res) = None \<or> file_view (w_db w2) (fur_Slug res) = Some f"
    by (auto simp: evolves_def)
  have x: "is_expired (w_now w2) (f_ExpiresAt f)" using is_expired_stored(1) [OF d late] f by simp
  show ?thesis
  proof (cases r)
    case (Inl er)
    with File_Get_Inl [OF get [unfolded Inl] dok(2)] v x show ?thesis by (auto simp: file_access_Inr file_access_Inl)
  next
    case (Inr g)
    with File_Get_Inr [OF get [unfolded Inr] dok(2)] v x show ?thesis by (auto simp: file_access_Inr file_access_Inl)
  qed
qed

theorem file_expiry_enforced_witness:
  "\<exists>w2. run plain_bcrypt '''' [Sweep, Pass (601 * second) [] []] demo_uploaded = ([Swept 0 0 0, Passed], w2) \<and>
    (\<exists>er. fst (File_Get plain_bcrypt (fileService '''') demo_slug ''pw'' w2) = Inl er)"
proof -
  let ?cs = "[Sweep, Pass (601 * second) [] []]"
  let ?run = "run plain_bcrypt '''' ?cs demo_uploaded"
  let ?get = "File_Get plain_bcrypt (fileService '''') demo_slug ''pw'' (snd ?run)"
  obtain res where up: "File_Upload plain_bcrypt (fileService '''') demo_request demo_world = (Inr res, demo_uploaded)"
    and s: "fur_Slug res = demo_slug" using demo_upload by blast
  have x: "map_of file_validExpiries (fu_Expiry demo_request) = Some (10 * minute)" "0 < 10 * minute"
    by (simp_all add: demo_request_def file_validExpiries_def time_units)
  have f: "fst ?run = [Swept 0 0 0, Passed]" "w_now (snd ?run) = 601 * second" "\<not> redraws plain_bcrypt '''' demo_slug ?cs demo_uploaded"
    by code_simp+
  have "w_now demo_world + 10 * minute < w_now (snd ?run)"
    unfolding f(2) by (simp add: demo_world_def initial_def time_units)
  with file_expiry_enforced [OF plain_bcrypt_ok demo_ok(1) up x, of ?cs "fst ?run" "snd ?run" "''pw''" "fst ?get" "snd ?get"]
    f s have "\<exists>er. fst ?get = Inl er" by auto
  with f(1) show ?thesis by (intro exI [of _ "snd ?run"]) (simp add: prod_eq_iff)
qed



section \<open>Concurrent readers\<close>

text \<open>
  The same holds for readers that run at the same time: however the steps of any number of
  downloads of one slug interleave with each other and with everything else the program does,
  at most one of them ever gets a one-use file.
\<close>

theorem one_use_file_concurrent:
  assumes "bcrypt_ok bc" and "sys_ok w0" and "gs = map (file_reading bc url) pws"
    and "(interleave bc url gs s)\<^sup>*\<^sup>* (start gs w0) (ps, w)"
  shows "card {i. i < length ps \<and> (\<exists>g. ps ! i = Done (Inr g) \<and> f_OneUse (fg_F g))} \<le> 1"
proof -
  have "{i. i < length ps \<and> (\<exists>g. ps ! i = Done (Inr g) \<and> f_OneUse (fg_F g))} \<subseteq> winners f_OneUse fg_F ps"
    by (auto simp: winners_def)
  from card_mono [OF finite_winners this] file_interleaved [OF assms(1,2) assms(4) [unfolded assms(3)]]
  show ?thesis by (simp add: fr.claim_inv_def)
qed

theorem one_use_file_concurrent_witness:
  "\<exists>ps w. ps = fst (schedule (map (file_reading plain_bcrypt '''') [''pw'', ''pw'']) demo_slug [0, 1, 1, 0, 0, 1]
       (start (map (file_reading plain_bcrypt '''') [''pw'', ''pw'']) demo_uploaded)) \<and>
     (\<exists>g. ps ! 1 = Done (Inr g) \<and> fg_Content g = ''abc'') \<and> ps ! 0 = Done (Inl (Sentinel File_ErrAlreadyConsumed)) \<and>
     card {i. i < length ps \<and> (\<exists>g. ps ! i = Done (Inr g) \<and> f_OneUse (fg_F g))} \<le> 1"
proof -
  let ?gs = "map (file_reading plain_bcrypt '''') [''pw'', ''pw'']"
  let ?c = "schedule ?gs demo_slug [0, 1, 1, 0, 0, 1] (start ?gs demo_uploaded)"
  have "(interleave plain_bcrypt '''' ?gs demo_slug)\<^sup>*\<^sup>* (start ?gs demo_uploaded) (fst ?c, snd ?c)"
    using schedule_interleave [of ?gs "[0, 1, 1, 0, 0, 1]"] by simp
  note m = one_use_file_concurrent [OF plain_bcrypt_ok demo_uploaded_ok refl this]
  have f: "case fst ?c ! 1 of Done (Inr g) \<Rightarrow> fg_Content g = ''abc'' | _ \<Rightarrow> False"
    "case fst ?c ! 0 of Done (Inl e) \<Rightarrow> e = Sentinel File_ErrAlreadyConsumed | _ \<Rightarrow> False"
    by code_simp+
  then have "\<exists>g. fst ?c ! 1 = Done (Inr g) \<and> fg_Content g = ''abc''" "fst ?c ! 0 = Done (Inl (Sentinel File_ErrAlreadyConsumed))"
    by (auto split: phase.splits sum.splits)
  with m show ?thesis by blast
qed

text \<open>
  The same for concurrent readers of a one-use paste.
\<close>

theorem one_use_paste_concurrent:
  assumes "bcrypt_ok bc" and "sys_ok w0" and "gs = map (paste_reading bc) pws"
    and "(interleave bc url gs s)\<^sup>*\<^sup>* (start gs w0) (ps, w)"
  shows "card {i. i < length ps \<and> (\<exists>g. ps ! i = Done (Inr g) \<and> p_OneUse (pg_P g))} \<le> 1"
proof -
  have "{i. i < length ps \<and> (\<exists>g. ps ! i = Done (Inr g) \<and> p_OneUse (pg_P g))} \<subseteq> winners p_OneUse pg_P ps"
    by (auto simp: winners_def)
  from card_mono [OF finite_winners this] paste_interleaved [OF assms(1,2) assms(4) [unfolded assms(3)]]
  show ?thesis by (simp add: pr.claim_inv_def)
qed

theorem one_use_paste_concurrent_witness:
  "\<exists>ps. ps = fst (schedule (map (paste_reading plain_bcrypt) ['''', '''']) demo_slug [0, 1, 1, 0, 1]
       (start (map (paste_reading plain_bcrypt) ['''', '''']) demo_pasted)) \<and>
     (\<exists>g. ps ! 1 = Done (Inr g)) \<and> ps ! 0 = Done (Inl (Sentinel Paste_ErrAlreadyConsumed)) \<and>
     card {i. i < length ps \<and> (\<exists>g. ps ! i = Done (Inr g) \<and> p_OneUse (pg_P g))} \<le> 1"
proof -
  let ?gs = "map (paste_reading plain_bcrypt) ['''', '''']"
  let ?c = "schedule ?gs demo_slug [0, 1, 1, 0, 1] (start ?gs demo_pasted)"
  have "(interleave plain_bcrypt '''' ?gs demo_slug)\<^sup>*\<^sup>* (start ?gs demo_pasted) (fst ?c, snd ?c)"
    using schedule_interleave [of ?gs "[0, 1, 1, 0, 1]"] by simp
  note m = one_use_paste_concurrent [OF plain_bcrypt_ok demo_pasted_ok refl this]
  have f: "case fst ?c ! 1 of Done (Inr g) \<Rightarrow> True | _ \<Rightarrow> False"
    "case fst ?c ! 0 of Done (Inl e) \<Rightarrow> e = Sentinel Paste_ErrAlreadyConsumed | _ \<Rightarrow> False"
    by code_simp+
  then have "\<exists>g. fst ?c ! 1 = Done (Inr g)" "fst ?c ! 0 = Done (Inl (Sentinel Paste_ErrAlreadyConsumed))"
    by (auto split: phase.splits sum.splits)
  with m show ?thesis by blast
qed

text \<open>
  The same for concurrent downloads of the archive of a one-use bucket: at most one of them
  ever gets any part of it. (The streaming of the archive is the last step of a call.)
\<close>

theorem one_use_bucket_zip_concurrent:
  assumes "bcrypt_ok bc" and "sys_ok w0" and "gs = map (bucket_reading bc url zr) pws"
    and "(interleave bc url gs s)\<^sup>*\<^sup>* (start gs w0) (ps, w)"
  shows "card {i. i < length ps \<and> (\<exists>b answer. ps ! i = Done (Inr (b, answer)) \<and> b_OneUse b)} \<le> 1"
proof -
  have "{i. i < length ps \<and> (\<exists>b answer. ps ! i = Done (Inr (b, answer)) \<and> b_OneUse b)} \<subseteq> winners b_OneUse fst ps"
    by (auto simp: winners_def)
  from card_mono [OF finite_winners this] bucket_interleaved [OF assms(1,2) assms(4) [unfolded assms(3)]]
  show ?thesis by (simp add: br.claim_inv_def)
qed

theorem one_use_bucket_zip_concurrent_witness:
  "\<exists>ps. ps = fst (schedule (map (bucket_reading plain_bcrypt '''' empty_response) ['''', '''']) demo_slug [0, 1, 1, 0, 1]
       (start (map (bucket_reading plain_bcrypt '''' empty_response) ['''', '''']) demo_bucketed)) \<and>
     (\<exists>b answer. ps ! 1 = Done (Inr (b, answer)) \<and> b_OneUse b) \<and> ps ! 0 = Done (Inl (Sentinel Bucket_ErrAlreadyConsumed)) \<and>
     card {i. i < length ps \<and> (\<exists>b answer. ps ! i = Done (Inr (b, answer)) \<and> b_OneUse b)} \<le> 1"
proof -
  let ?gs = "map (bucket_reading plain_bcrypt '''' empty_response) ['''', '''']"
  let ?c = "schedule ?gs demo_slug [0, 1, 1, 0, 1] (start ?gs demo_bucketed)"
  have "(interleave plain_bcrypt '''' ?gs demo_slug)\<^sup>*\<^sup>* (start ?gs demo_bucketed) (fst ?c, snd ?c)"
    using schedule_interleave [of ?gs "[0, 1, 1, 0, 1]"] by simp
  note m = one_use_bucket_zip_concurrent [OF plain_bcrypt_ok demo_bucketed_ok refl this]
  have f: "case fst ?c ! 1 of Done (Inr (b, answer)) \<Rightarrow> b_OneUse b | _ \<Rightarrow> False"
    "case fst ?c ! 0 of Done (Inl e) \<Rightarrow> e = Sentinel Bucket_ErrAlreadyConsumed | _ \<Rightarrow> False"
    by code_simp+
  then have "\<exists>b answer. fst ?c ! 1 = Done (Inr (b, answer)) \<and> b_OneUse b"
    "fst ?c ! 0 = Done (Inl (Sentinel Bucket_ErrAlreadyConsumed))"
    by (auto split: phase.splits sum.splits)
  with m show ?thesis by blast
qed

text \<open>
  The steps are the code's: taken one after the other by a single reader, they are the
  service operations, with the same result and the same effect.
\<close>

theorem get_is_three_steps:
  "alone (file_reading bc url pw) s w = map_prod Done id (File_Get bc (fileService url) s pw w) \<and>
   alone (paste_reading bc pw) s w = map_prod Done id (Paste_Get bc (pasteService url) s pw w) \<and>
   (\<exists>q. alone (bucket_reading bc url zr pw) s w = (Done q, snd (Bucket_StreamZIP bc (bucketService url) s pw zr w)) \<and>
      fst (Bucket_StreamZIP bc (bucketService url) s pw zr w) = zip_answer zr q)"
  using file_alone paste_alone bucket_alone by blast

section \<open>Deletion and cleanup\<close>

text \<open>
  C16. What a deletion does, in any environment: it succeeds only with the secret of the upload,
  and then exactly the row and the bytes of the slug are gone; otherwise the database is
  unchanged, the bytes are untouched unless the secret was right, and the error says which it
  was: no such file, wrong secret, or a failure of a lower layer. Without failures the right
  secret always deletes.
\<close>

theorem file_delete_effect:
  assumes "sys_ok w" and "File_Delete (fileService url) s secret w = (x, w')"
  shows "(case x of
      Inr u \<Rightarrow> (\<exists>f. file_view (w_db w) s = Some f \<and> f_DeleteSecret f = secret) \<and>
        file_view (w_db w') = (file_view (w_db w))(s := None) \<and> not_files (w_db w') = not_files (w_db w) \<and>
        fs_content (w_fs w') = (fs_content (w_fs w))(s := None)
    | Inl er \<Rightarrow> w_db w' = w_db w \<and>
        (fs_content (w_fs w') = fs_content (w_fs w) \<or>
         fs_content (w_fs w') = (fs_content (w_fs w))(s := None) \<and>
           (\<exists>f. file_view (w_db w) s = Some f \<and> f_DeleteSecret f = secret)) \<and>
        (er = Sentinel File_ErrNotFound \<and> file_view (w_db w) s = None \<or>
         er = Sentinel File_ErrBadDeleteSecret \<and> (\<exists>f. file_view (w_db w) s = Some f \<and> f_DeleteSecret f \<noteq> secret) \<or>
         low_error er)) \<and>
    (all_calm w \<and> validKey s \<and> file_view (w_db w) s = Some f \<and> f_DeleteSecret f = secret \<longrightarrow> x = Inr ())"
    (is "?effect \<and> ?progress")
proof
  have ok: "files_ok (w_db w)" using assms(1) by (simp add: sys_ok_def)
  from assms(2) ok show ?effect
  proof (cases rule: File_Delete_cases)
    case (refused er)
    with same_but_envD [OF refused(2)] show ?thesis by simp
  qed simp_all
  show ?progress using File_Delete_calm [of w s f url] assms(2) by auto
qed

theorem file_delete_effect_witness:
  "\<exists>w'. File_Delete (fileService '''') demo_slug (replicate 24 CHR ''a'') (demo_uploaded\<lparr>w_env := []\<rparr>) = (Inr (), w') \<and>
     file_view (w_db w') demo_slug = None \<and> fs_content (w_fs w') demo_slug = None"
proof -
  let ?w = "demo_uploaded\<lparr>w_env := []\<rparr>"
  have ok: "sys_ok ?w" "all_calm ?w" using demo_uploaded_ok by (simp_all add: sys_ok_def all_calm_def)
  obtain x w' where d: "File_Delete (fileService '''') demo_slug (replicate 24 CHR ''a'') ?w = (x, w')" by (rule prod.exhaust)
  note e = file_delete_effect [OF ok(1) d]
  have "x = Inr ()"
    by (rule mp [OF conjunct2 [OF e]]) (use ok(2) demo_slug_valid demo_uploaded_view(1) in auto)
  with d conjunct1 [OF e] show ?thesis by simp
qed

text \<open>
  C17. A sweep in an environment without failures deletes exactly what has expired: the rows of
  all expired files, buckets and pastes, the bytes of the expired files and of every file of the
  expired buckets, and nothing else; it reports how many of each there were.
\<close>

theorem sweep_exact:
  assumes "sys_ok w" and "keys_ok (w_db w)" and "all_calm w"
    and "sweep program_cleanup w = ((nf, nb, np), w')"
  shows "file_view (w_db w') = file_view (w_db w) |` (- expired_files w) \<and>
    bucket_view (w_db w') = bucket_view (w_db w) |` (- expired_buckets w) \<and>
    paste_view (w_db w') = paste_view (w_db w) |` (- expired_pastes w) \<and>
    fs_content (w_fs w') = fs_content (w_fs w) |` (- expired_bytes w) \<and>
    nf = card (expired_files w) \<and> nb = card (expired_buckets w) \<and> np = card (expired_pastes w)"
  by (rule sweep_effect [OF assms(4,1)]) (use assms(2,3) in simp)

theorem sweep_exact_witness:
  "\<exists>nf nb np w'. sweep program_cleanup (demo_uploaded\<lparr>w_now := 601 * second, w_env := []\<rparr>) = ((nf, nb, np), w') \<and>
     file_view (w_db w') demo_slug = None \<and> fs_content (w_fs w') demo_slug = None"
proof -
  let ?w = "demo_uploaded\<lparr>w_now := 601 * second, w_env := []\<rparr>"
  have ok: "sys_ok ?w" "all_calm ?w" using demo_uploaded_ok by (simp_all add: sys_ok_def all_calm_def)
  have "list_all validKey (map fr_slug (db_files (w_db demo_uploaded)))" "db_buckets (w_db demo_uploaded) = []" by code_simp+
  then have k: "keys_ok (w_db ?w)"
    by (auto simp: keys_ok_def file_view_def bucket_view_def tbl_select_def demo_uploaded_db ran_def split: if_splits)
  have x: "demo_slug \<in> expired_files ?w"
    using demo_uploaded_view(1) by (simp add: expired_keys_def unix_def second_def)
  obtain nf nb np w' where s: "sweep program_cleanup ?w = ((nf, nb, np), w')" by (metis prod.exhaust)
  from sweep_exact [OF ok(1) k ok(2) s] s x show ?thesis
    by (intro exI [of _ nf] exI [of _ nb] exI [of _ np] exI [of _ w']) (simp add: expired_bytes_def)
qed

text \<open>
  C18. Whatever fails on the way, a sweep never touches what has not expired: every live file,
  bucket and paste is still there, and so are all bytes that belong to no expired entity.
\<close>

theorem sweep_safe:
  assumes "sys_ok w" and "sweep program_cleanup w = ((nf, nb, np), w')"
  shows "(s \<notin> expired_files w \<longrightarrow> file_view (w_db w') s = file_view (w_db w) s \<and> file_used (w_db w') s = file_used (w_db w) s) \<and>
    (s \<notin> expired_buckets w \<longrightarrow> bucket_view (w_db w') s = bucket_view (w_db w) s \<and> bucket_used (w_db w') s = bucket_used (w_db w) s) \<and>
    (s \<notin> expired_pastes w \<longrightarrow> paste_view (w_db w') s = paste_view (w_db w) s \<and> paste_used (w_db w') s = paste_used (w_db w) s) \<and>
    (s \<notin> expired_bytes w \<longrightarrow> fs_content (w_fs w') s = fs_content (w_fs w) s)"
proof -
  obtain Df Db Dp K where eff: "Df \<subseteq> expired_files w" "Db \<subseteq> expired_buckets w" "Dp \<subseteq> expired_pastes w" "K \<subseteq> expired_bytes w"
    "file_view (w_db w') = file_view (w_db w) |` (- Df)" "file_used (w_db w') = (\<lambda>s. s \<notin> Df \<and> file_used (w_db w) s)"
    "bucket_view (w_db w') = bucket_view (w_db w) |` (- Db)" "bucket_used (w_db w') = (\<lambda>s. s \<notin> Db \<and> bucket_used (w_db w) s)"
    "paste_view (w_db w') = paste_view (w_db w) |` (- Dp)" "paste_used (w_db w') = (\<lambda>s. s \<notin> Dp \<and> paste_used (w_db w) s)"
    "fs_content (w_fs w') = fs_content (w_fs w) |` (- K)"
    by (rule sweep_effect [OF assms(2,1)])
  have notin: "s \<notin> Y \<Longrightarrow> X \<subseteq> Y \<Longrightarrow> s \<notin> X" for X Y :: "string set" by blast
  show ?thesis
    unfolding eff(5-11) by (simp add: notin [OF _ eff(1)] notin [OF _ eff(2)] notin [OF _ eff(3)] notin [OF _ eff(4)])
qed

theorem sweep_safe_witness:
  "\<exists>nf nb np w'. sweep program_cleanup (demo_uploaded\<lparr>w_now := 5, w_env := [1, 0, 2]\<rparr>) = ((nf, nb, np), w') \<and>
     file_view (w_db w') demo_slug = file_view (w_db demo_uploaded) demo_slug"
proof -
  let ?w = "demo_uploaded\<lparr>w_now := 5, w_env := [1, 0, 2]\<rparr>"
  have ok: "sys_ok ?w" using demo_uploaded_ok by (simp add: sys_ok_def)
  have x: "demo_slug \<notin> expired_files ?w"
    using demo_uploaded_view(1) by (simp add: expired_keys_def unix_def second_def)
  obtain nf nb np w' where s: "sweep program_cleanup ?w = ((nf, nb, np), w')" by (metis prod.exhaust)
  from conjunct1 [OF sweep_safe [OF ok s]] s x show ?thesis by simp
qed

section \<open>Pastes and buckets\<close>

text \<open>
  C19. Round trip of a paste: whoever creates a paste and asks for its slug with the same
  password up to one second before the preset's end reads the same title, content and language
  (the language text when none was given), provided nothing fails and the paste was not touched.
\<close>

theorem paste_create_then_get:
  assumes "bcrypt_ok bc" and "sys_ok w"
    and cr: "Paste_Create bc (pasteService url) req w = (Inr res, w1)"
    and x: "map_of paste_validExpiries (pc_Expiry req) = Some d"
    and t: "d = 0 \<or> t \<le> w_now w + d - second"
    and w2: "w2 = w1\<lparr>w_now := t, w_env := []\<rparr>"
  shows "\<exists>g. fst (Paste_Get bc (pasteService url) (pcr_Slug res) (pc_Password req) w2) = Inr g \<and>
    p_Content (pg_P g) = pc_Content req \<and> p_Title (pg_P g) = pc_Title req \<and> p_OneUse (pg_P g) = pc_OneUse req \<and>
    p_Lang (pg_P g) = (if pc_Lang req = [] then ''text'' else pc_Lang req) \<and>
    pg_ExpiresAt g = map_option to_second (pcr_ExpiresAt res)"
proof -
  have dok: "pastes_ok (w_db w)" using assms(2) by (simp add: sys_ok_def)
  from cr dok assms(1) show ?thesis
  proof (cases rule: Paste_Create_cases)
    case (created slug secret h d')
    have d: "d' = d" using created(8) x by simp
    have "\<not> is_expired t (map_option to_second (expiry_instant d (w_now w)))"
      using t is_expired_stored(2) [of d t "w_now w"] is_expired_never [of t "w_now w"] paste_preset_range [OF x]
      by (cases "d = 0") auto
    moreover have "pastes_ok (w_db w2)"
      using w2 psv.Create_frame [where bc = bc and url = url and req = req] cr dok by (simp add: keeps_def svc_frame_def)
    ultimately show ?thesis
      using created w2 d Paste_Get_calm [of w2 bc url "pcr_Slug res" "pc_Password req"]
      by (simp add: all_calm_def paste_access_def created_paste_def Paste_result_def)
  qed simp
qed

theorem paste_create_then_get_witness:
  "\<exists>g. fst (Paste_Get plain_bcrypt (pasteService '''') demo_slug '''' (demo_pasted\<lparr>w_now := 5, w_env := []\<rparr>)) = Inr g \<and>
    p_Content (pg_P g) = ''hello'' \<and> p_Lang (pg_P g) = ''text''"
proof -
  obtain res where cr: "Paste_Create plain_bcrypt (pasteService '''') demo_paste demo_world = (Inr res, demo_pasted)"
    and s: "pcr_Slug res = demo_slug" using demo_paste_created by blast
  have x: "map_of paste_validExpiries (pc_Expiry demo_paste) = Some hour"
    by (simp add: demo_paste_def paste_validExpiries_def)
  have "(5 :: int) \<le> w_now demo_world + hour - second"
    by (simp add: demo_world_def initial_def time_units)
  then show ?thesis
    using paste_create_then_get [OF plain_bcrypt_ok demo_ok(1) cr x _ refl, of 5] s by (auto simp: demo_paste_def)
qed

text \<open>
  C20. Round trip of a bucket: the archive of a bucket that was just created holds every file
  that was uploaded, under its name, in order and with its bytes, up to one second before the
  preset's end, provided nothing fails and the keys drawn for the files differ.
\<close>

theorem bucket_create_then_zip:
  assumes "bcrypt_ok bc" and "sys_ok w"
    and cr: "Bucket_Create bc (bucketService url) req w = (Inr res, w1)"
    and x: "map_of bucket_validExpiries (bq_Expiry req) = Some d"
    and t: "d = 0 \<or> t \<le> w_now w + d - second"
    and w2: "w2 = w1\<lparr>w_now := t, w_env := []\<rparr>"
    and keys: "\<exists>b. bucket_view (w_db w1) (bcr_Slug res) = Some b \<and> distinct (map bf_StorageKey (b_Files b))"
  shows "\<exists>zr w3. Bucket_StreamZIP bc (bucketService url) (bcr_Slug res) (bq_Password req) empty_response w2 = ((Inr (), zr), w3) \<and>
    zr_entries zr = map (\<lambda>fi. (fi_Filename fi, rd_data (fi_Content fi))) (bq_Files req) \<and> zr_complete zr"
proof -
  have dok: "buckets_ok (w_db w)" using assms(2) by (simp add: sys_ok_def)
  from cr dok assms(1) show ?thesis
  proof (cases rule: Bucket_Create_cases)
    case (created slug secret h d' stored ids)
    let ?b = "with_files (created_bucket req slug secret h (expiry_instant d (w_now w))) ids stored"
    let ?ds = "map (rd_data \<circ> fi_Content) (bq_Files req)"
    have s: "bcr_Slug res = slug" and d: "d' = d" using created(7,8) x by (simp_all add: Bucket_result_def)
    have live: "\<not> is_expired t (map_option to_second (expiry_instant d (w_now w)))"
      using t is_expired_stored(2) [of d t "w_now w"] is_expired_never [of t "w_now w"] bucket_preset_range [OF x]
      by (cases "d = 0") auto
    have files: "b_Files ?b = map2 (\<lambda>i sf. (sf_bf sf)\<lparr>bf_ID := i\<rparr>) ids stored" by (simp add: created_bucket_def)
    have entry: "sf_bf sf = sf_bf (stored_entry slug fi (sf_storageKey sf))" if "stores slug sf fi" for sf fi
      using that unfolding stores_def by metis
    have len: "length ids = length stored" "length stored = length (bq_Files req)"
      using created(9) list_all2_lengthD [OF created(10)] by simp_all
    have st: "i < length stored \<Longrightarrow> bf_StorageKey (sf_bf (stored ! i)) = sf_storageKey (stored ! i) \<and>
        bf_Filename (sf_bf (stored ! i)) = fi_Filename (bq_Files req ! i)" for i
      using created(10) entry [of "stored ! i" "bq_Files req ! i"] by (simp add: list_all2_conv_all_nth)
    have ks: "map bf_StorageKey (b_Files ?b) = map sf_storageKey stored"
      and ns: "map bf_Filename (b_Files ?b) = map fi_Filename (bq_Files req)"
      using len st unfolding files by (auto intro!: nth_equalityI)
    have v: "bucket_view (w_db w2) slug = Some ?b" "\<not> bucket_used (w_db w2) slug" using w2 created(13,14) d by simp_all
    have dist: "distinct (map sf_storageKey stored)" using keys v w2 ks s by simp
    have "list_all2 (\<lambda>bf x. fs_content (w_fs w2) (bf_StorageKey bf) = Some x) (b_Files ?b) ?ds"
    proof (rule list_all2_all_nthI)
      show "length (b_Files ?b) = length ?ds" using len by (simp add: created_bucket_def)
      fix i assume "i < length (b_Files ?b)"
      then have i: "i < length stored" using len by (simp add: created_bucket_def)
      have "stored_bytes stored (bq_Files req) (sf_storageKey (stored ! i)) = Some (?ds ! i)"
        using map_of_rev_zip [OF dist, of ?ds i] i len by (simp add: stored_bytes_def)
      moreover have "bf_StorageKey (b_Files ?b ! i) = sf_storageKey (stored ! i)"
        using arg_cong [OF ks, of "\<lambda>xs. xs ! i"] i len by (simp add: created_bucket_def)
      ultimately show "fs_content (w_fs w2) (bf_StorageKey (b_Files ?b ! i)) = Some (?ds ! i)"
        using w2 created(11) by (simp add: map_add_Some_iff)
    qed
    moreover have "bucket_access bc (w_now w2) (bq_Password req) ?b = Inr ()"
      using live created(5) w2 by (simp add: bucket_access_def created_bucket_def)
    moreover have "buckets_ok (w_db w2)" "all_calm w2"
      using w2 bsv.Create_frame [where bc = bc and url = url and req = req] cr dok by (simp_all add: keeps_def svc_frame_def all_calm_def)
    ultimately obtain zr w3 where "Bucket_StreamZIP bc (bucketService url) slug (bq_Password req) empty_response w2 = ((Inr (), zr), w3)"
      "zr_entries zr = zip (map bf_Filename (b_Files ?b)) ?ds" "zr_complete zr"
      using Bucket_StreamZIP_calm [of w2 slug ?b bc "bq_Password req" ?ds url empty_response] v by (auto simp: empty_response_def)
    moreover have "zip (map bf_Filename (b_Files ?b)) ?ds = map (\<lambda>fi. (fi_Filename fi, rd_data (fi_Content fi))) (bq_Files req)"
      unfolding ns by (simp add: zip_map_map zip_same_conv_map comp_def)
    ultimately show ?thesis using s by metis
  qed simp_all
qed

theorem bucket_create_then_zip_witness:
  "\<exists>zr w3. Bucket_StreamZIP plain_bcrypt (bucketService '''') demo_slug '''' empty_response (demo_bucketed\<lparr>w_now := 5, w_env := []\<rparr>) =
     ((Inr (), zr), w3) \<and> zr_entries zr = [(''x.txt'', ''hi'')]"
proof -
  obtain res where cr: "Bucket_Create plain_bcrypt (bucketService '''') demo_bucket demo_world = (Inr res, demo_bucketed)"
    and s: "bcr_Slug res = demo_slug" using demo_bucket_created by blast
  have x: "map_of bucket_validExpiries (bq_Expiry demo_bucket) = Some hour"
    by (simp add: demo_bucket_def bucket_validExpiries_def)
  have t: "hour = 0 \<or> (5 :: int) \<le> w_now demo_world + hour - second"
    by (simp add: demo_world_def initial_def time_units)
  have "\<exists>b. bucket_view (w_db demo_bucketed) (bcr_Slug res) = Some b \<and> distinct (map bf_StorageKey (b_Files b))"
    using demo_bucketed_view unfolding s by (auto split: option.splits)
  from bucket_create_then_zip [OF plain_bcrypt_ok demo_ok(1) cr x t refl this] s
  show ?thesis by (auto simp: demo_bucket_def)
qed

text \<open>
  C21. The one-use rule covers the archive of a bucket but not its files: after the bucket was
  consumed, a single file is still handed out to whoever has its key (and the password), as
  often as they ask, and asking leaves the database as it is.
\<close>

theorem bucket_file_after_consumption:
  assumes "sys_ok w" and "all_calm w" and "bucket_view (w_db w) s = Some b"
    and "b_OneUse b" and "bucket_used (w_db w) s" and "bf \<in> set (b_Files b)"
    and "bucket_access bc (w_now w) pw b = Inr ()" and "fs_content (w_fs w) (bf_StorageKey bf) = Some d"
  shows "\<exists>g w'. Bucket_GetFile bc (bucketService url) s (bf_StorageKey bf) pw w = (Inr (g, d), w') \<and>
    bf_StorageKey g = bf_StorageKey bf \<and> w_db w' = w_db w \<and> w_fs w' = w_fs w"
proof -
  obtain w1 where o: "bucket_open bc (bucketService url) ''bucket service get file: lookup'' s pw w = (Inr b, w1)"
    using bucket_open_calm [OF assms(2), of bc url "''bucket service get file: lookup''" s pw] assms(3,7)
    by (cases "bucket_open bc (bucketService url) ''bucket service get file: lookup'' s pw w") auto
  note same = same_but_envD [OF bucket_open_spec(1) [OF o]]
  obtain g where g: "List.find (\<lambda>f. bf_StorageKey f = bf_StorageKey bf) (b_Files b) = Some g"
    using assms(6) by (cases "List.find (\<lambda>f. bf_StorageKey f = bf_StorageKey bf) (b_Files b)") (auto simp: find_None_iff)
  then have k: "bf_StorageKey g = bf_StorageKey bf" by (auto simp: find_Some_iff)
  obtain w2 where r: "be_Read LocalFS (bf_StorageKey bf) w1 = (Inr d, w2)"
    using lfs.Read_calm [of w1 "bf_StorageKey bf"] lfs.content_key_ok [OF assms(8)] same assms(2,8)
    by (cases "be_Read LocalFS (bf_StorageKey bf) w1") auto
  have "bsv_store (bucketService url) = LocalFS" by (simp only: bucketService_def bucket_service.simps)
  with o g k r same same_but_envD(2,3) [OF lfs.Read_frame [OF r]] show ?thesis
    by (simp add: Bucket_GetFile_def wrap_def pure_result_def)
qed

theorem bucket_file_after_consumption_witness:
  "\<exists>g w'. Bucket_GetFile plain_bcrypt (bucketService '''') demo_slug demo_slug ''''
     (snd (Bucket_StreamZIP plain_bcrypt (bucketService '''') demo_slug '''' empty_response demo_bucketed)) = (Inr (g, ''hi''), w')"
proof -
  let ?w = "snd (Bucket_StreamZIP plain_bcrypt (bucketService '''') demo_slug '''' empty_response demo_bucketed)"
  have f: "case bucket_view (w_db ?w) demo_slug of None \<Rightarrow> False
      | Some b \<Rightarrow> b_OneUse b \<and> map bf_StorageKey (b_Files b) = [demo_slug] \<and> bucket_access plain_bcrypt (w_now ?w) '''' b = Inr ()"
    "bucket_used (w_db ?w) demo_slug" "fs_content (w_fs ?w) demo_slug = Some ''hi''" "w_env ?w = []" by code_simp+
  have "\<exists>x. exec plain_bcrypt '''' (BucketZIP demo_slug '''') demo_bucketed = (x, ?w)"
    by (cases "Bucket_StreamZIP plain_bcrypt (bucketService '''') demo_slug '''' empty_response demo_bucketed") auto
  then have ok: "sys_ok ?w" using exec_sys_ok(1) demo_bucketed_ok by blast
  from f(1) obtain b where b: "bucket_view (w_db ?w) demo_slug = Some b" "b_OneUse b"
    "map bf_StorageKey (b_Files b) = [demo_slug]" "bucket_access plain_bcrypt (w_now ?w) '''' b = Inr ()"
    by (auto split: option.splits)
  then obtain bf where bf: "bf \<in> set (b_Files b)" "bf_StorageKey bf = demo_slug" by auto
  have "all_calm ?w" using f(4) by (simp add: all_calm_def)
  from bucket_file_after_consumption [OF ok this b(1,2) f(2) bf(1) b(4), unfolded bf(2), OF f(3)]
  show ?thesis by blast
qed



definition opens :: "bcrypt \<Rightarrow> string \<Rightarrow> string \<Rightarrow> bool" where
  "opens bc hash password \<longleftrightarrow> hash = [] \<or> password \<noteq> [] \<and> bc_Compare bc hash password = None"

lemma opens_eq: "check_password bc h pw = opens bc h pw"
  by (auto simp: check_password_def opens_def)

text \<open>
  C23. Passwords are enforced on every way to read: whoever gets a protected file, paste, bucket
  listing, archive or single bucket file gave a password that is not empty and that bcrypt
  accepts for the stored hash.
\<close>

theorem password_enforced:
  assumes "sys_ok w" and e: "exec bc url c w = (x, w')"
  shows "case (c, x) of
      (FileGet s pw, FileGot (Inr g)) \<Rightarrow> file_view (w_db w) s = Some (fg_F g) \<and> opens bc (f_PasswordHash (fg_F g)) pw
    | (PasteGet s pw, PasteGot (Inr g)) \<Rightarrow> paste_view (w_db w) s = Some (pg_P g) \<and> opens bc (p_PasswordHash (pg_P g)) pw
    | (BucketMeta s pw, BucketMetaGot (Inr g)) \<Rightarrow> bucket_view (w_db w) s = Some (bg_B g) \<and> opens bc (b_PasswordHash (bg_B g)) pw
    | (BucketZIP s pw, BucketZIPped r z) \<Rightarrow> z \<noteq> empty_response \<longrightarrow>
        (\<exists>b. bucket_view (w_db w) s = Some b \<and> opens bc (b_PasswordHash b) pw)
    | (BucketFile s k pw, BucketFileGot (Inr (f, d))) \<Rightarrow>
        \<exists>b. bucket_view (w_db w) s = Some b \<and> f \<in> set (b_Files b) \<and> opens bc (b_PasswordHash b) pw
    | _ \<Rightarrow> True"
proof -
  have ok: "files_ok (w_db w)" "pastes_ok (w_db w)" using assms(1) by (simp_all add: sys_ok_def)
  show ?thesis
  proof (cases c)
    case (FileGet s pw)
    with e File_Get_Inr [OF _ ok(1)] show ?thesis
      by (auto simp: map_prod_eq file_access_Inr opens_eq split: sum.split)
  next
    case (PasteGet s pw)
    with e Paste_Get_Inr [OF _ ok(2)] show ?thesis
      by (auto simp: map_prod_eq paste_access_Inr opens_eq split: sum.split)
  next
    case (BucketMeta s pw)
    with e Bucket_GetMeta_spec(2) [of bc url s pw w _ w'] show ?thesis
      by (auto simp: map_prod_eq bucket_access_Inr opens_eq split: sum.split)
  next
    case (BucketZIP s pw)
    with e zip_started [of bc url s pw empty_response w _ _ w'] show ?thesis
      by (auto simp: map_prod_eq bucket_access_Inr opens_eq)
  next
    case (BucketFile s k pw)
    with e Bucket_GetFile_spec(2) [of bc url s k pw w _ w'] show ?thesis
      by (fastforce simp: map_prod_eq bucket_access_Inr opens_eq split: sum.split prod.split)
  qed auto
qed

theorem password_enforced_witness:
  "\<exists>g w'. exec plain_bcrypt '''' (FileGet demo_slug ''pw'') demo_uploaded = (FileGot (Inr g), w') \<and>
     f_PasswordHash (fg_F g) \<noteq> [] \<and> opens plain_bcrypt (f_PasswordHash (fg_F g)) ''pw''"
proof -
  let ?get = "File_Get plain_bcrypt (fileService '''') demo_slug ''pw'' demo_uploaded"
  have "case fst ?get of Inl e \<Rightarrow> False | Inr g \<Rightarrow> f_PasswordHash (fg_F g) \<noteq> []" by code_simp
  from result_cases [OF this] obtain g where g: "?get = (Inr g, snd ?get)" "f_PasswordHash (fg_F g) \<noteq> []" by blast
  then have e: "exec plain_bcrypt '''' (FileGet demo_slug ''pw'') demo_uploaded = (FileGot (Inr g), snd ?get)"
    by (metis exec.simps(2) id_apply map_prod_simp)
  from password_enforced [OF demo_uploaded_ok e] have "opens plain_bcrypt (f_PasswordHash (fg_F g)) ''pw''" by simp
  with e g(2) show ?thesis by blast
qed

text \<open>
  The invariant of the program: from a consistent state, every run, with any calls in any
  order and any failures, leads to a consistent state: the directory tree is well formed, the
  tables are keyed by slug and no file row is without its bucket, every key is one the file
  store accepts, and the clock has not gone back.
\<close>

theorem run_invariant:
  assumes "bcrypt_ok bc" and "sys_ok w" and "keys_ok (w_db w)" and "run bc url cs w = (xs, w')"
  shows "sys_ok w' \<and> keys_ok (w_db w') \<and> w_now w \<le> w_now w' \<and> length xs = length cs"
proof -
  have "length xs = length cs"
    using assms(4) by (induction cs arbitrary: w xs) (auto split: prod.splits)
  with run_sys_ok [OF assms(4,2)] run_keys_ok [OF assms(4,2,1,3)] show ?thesis by simp
qed

theorem run_invariant_witness:
  "sys_ok (snd (run plain_bcrypt '''' [FileUpload demo_request, PasteCreate demo_paste, BucketCreate demo_bucket, Sweep] demo_world))"
  using run_invariant [OF plain_bcrypt_ok demo_ok surjective_pairing] by blast

section \<open>Keys and slugs\<close>

text \<open>
  C24. A write of the file store is all or nothing: when it succeeds, the key holds exactly the
  bytes of the reader; when it fails, for whatever reason and at whatever step, every key holds
  what it held before. No other key is touched, and outside the key's own path at most one
  temporary file of the same directory is left.
\<close>

theorem store_write_atomic:
  assumes "LocalFS_Write key r w = (x, w')"
  shows "fs_content (w_fs w') = (case x of Inr u \<Rightarrow> (fs_content (w_fs w))(key \<mapsto> rd_data r) | Inl e \<Rightarrow> fs_content (w_fs w)) \<and>
    (x = Inr () \<longrightarrow> validKey key \<and> \<not> rd_fails r) \<and>
    (\<exists>tmp. is_temp tmp \<and> butlast tmp = butlast (pathOf key) \<and>
       (\<forall>p. p \<noteq> tmp \<longrightarrow> p \<noteq> pathOf key \<longrightarrow> fs_files (w_fs w') p = fs_files (w_fs w) p)) \<and>
    w_db w' = w_db w"
  using LocalFS_Write_content [OF assms] LocalFS_Write_spec [OF assms]
  by (cases x) (auto dest: same_but_fsD)

theorem store_write_atomic_witness:
  "\<exists>w'. fst (LocalFS_Write demo_slug \<lparr>rd_data = ''new'', rd_fails = True\<rparr> demo_uploaded) \<noteq> Inr () \<and>
     snd (LocalFS_Write demo_slug \<lparr>rd_data = ''new'', rd_fails = True\<rparr> demo_uploaded) = w' \<and>
     fs_content (w_fs w') demo_slug = Some ''abc''"
proof -
  obtain x w' where w: "LocalFS_Write demo_slug \<lparr>rd_data = ''new'', rd_fails = True\<rparr> demo_uploaded = (x, w')"
    by (rule prod.exhaust)
  from store_write_atomic [OF w] w demo_uploaded_bytes show ?thesis by (cases x) auto
qed

text \<open>
  C25. Keys never escape the storage directory: a key that is accepted is a non-empty string of
  letters and digits, its path is a file of that name in the root or in one prefix directory of
  two letters or digits, and different keys have different paths; every other key is refused.
\<close>

theorem keys_contained:
  "(case keyPath k of
      Inr p \<Rightarrow> p \<noteq> [] \<and> length p \<le> 2 \<and> last p = k \<and> (\<forall>c \<in> set p. c \<noteq> [] \<and> list_all alnum c)
    | Inl e \<Rightarrow> k = [] \<or> \<not> list_all alnum k) \<and>
   (keyPath k = keyPath l \<and> k \<noteq> l \<longrightarrow> (\<exists>e. keyPath k = Inl e))"
  by (auto simp: keyPath_eq validKey_def pathOf_def list_all_iff dest: in_set_takeD split: if_splits)

theorem keys_contained_witness:
  "keyPath demo_slug = Inr [''aa'', demo_slug] \<and> (\<exists>e. keyPath ''../etc'' = Inl e)"
  using keys_contained [of "''../etc''" demo_slug] demo_slug_valid
  by (simp add: keyPath_eq validKey_def pathOf_def demo_slug_def alnum_def numeral_eq_Suc)

text \<open>
  Every slug has the requested length and only characters of the alphabet, none of which
  is one of the five that are easily confused; asking for a length of zero or less is an error,
  and so is a random source that runs dry.
\<close>

theorem slug_shape:
  "case slug_New n bs of
     (Inr s, bs') \<Rightarrow> 0 < n \<and> int (length s) = n \<and> set s \<subseteq> set charset \<and> set s \<inter> set ''0O1lI'' = {} \<and> list_all alnum s
   | (Inl e, bs') \<Rightarrow> (n \<le> 0 \<and> e = Sentinel Slug_ErrInvalidLength \<and> bs' = bs) \<or> (0 < n \<and> e = External ''rand.Int'')"
proof -
  obtain x bs' where x: "slug_New n bs = (x, bs')" by (rule prod.exhaust)
  show ?thesis
  proof (cases x)
    case (Inl e)
    with x slug_loop_err show ?thesis by (auto simp: slug_New_def split: if_splits)
  next
    case (Inr s)
    with x slug_New_length slug_New_charset slug_New_alnum charset_unambiguous show ?thesis by fastforce
  qed
qed



end
